(* ===== verification/Prelude.thy ===== *)
theory Prelude
  imports Main "HOL-Library.Multiset"
begin

text \<open>
  What every component shares.

  \<^item> \<open>exec\<close> is the result of running a piece of Rust: it returns, it panics, or it never
    returns. A \<open>Result\<close> of the source is a sum inside it (\<open>Inl\<close> is \<open>Err\<close>).
  \<^item> \<open>profile\<close> is the Cargo profile the crate is built with. It decides whether integer
    overflow panics or wraps, and whether \<open>debug_assert!\<close> is compiled in. The operations
    take it as an argument and the properties hold for every profile.
  \<^item> \<open>usize\<close> values are naturals below \<open>2 ^ 64\<close>, with the overflow of every
    operation written out.
  \<^item> Generic facts on sorted lists that the allocator proofs share.
\<close>

section \<open>Running Rust code\<close>

datatype panic =
    Arithmetic_overflow
  | Assertion_failed
  | Debug_assertion_failed
  | Expect_failed
  | Index_out_of_bounds
  | Explicit_panic
  | Os_failure int

datatype 'a exec = Done 'a | Panicked panic | Diverges

primrec exec_bind :: "'a exec \<Rightarrow> ('a \<Rightarrow> 'b exec) \<Rightarrow> 'b exec" where
  "exec_bind (Done x) f = f x"
| "exec_bind (Panicked p) f = Panicked p"
| "exec_bind Diverges f = Diverges"

text \<open>A loop that \<^theory_text>\<open>partial_function (option)\<close> defines: no value means it never returns.\<close>

definition loop_exec :: "'a exec option \<Rightarrow> 'a exec" where
  "loop_exec r = (case r of None \<Rightarrow> Diverges | Some e \<Rightarrow> e)"

lemma loop_exec_simps [simp]:
  "loop_exec None = Diverges" "loop_exec (Some e) = e"
  by (simp_all add: loop_exec_def)

lemma exec_bind_eq_Done [simp]:
  "exec_bind m f = Done y \<longleftrightarrow> (\<exists>x. m = Done x \<and> f x = Done y)"
  by (cases m) auto

lemma exec_bind_assoc: "exec_bind (exec_bind m f) g = exec_bind m (\<lambda>x. exec_bind (f x) g)"
  by (cases m) auto

text \<open>Running a state-changing operation over a list of arguments.\<close>

fun exec_fold :: "('s \<Rightarrow> 'a \<Rightarrow> 's exec) \<Rightarrow> 's \<Rightarrow> 'a list \<Rightarrow> 's exec" where
  "exec_fold f s [] = Done s"
| "exec_fold f s (x # xs) = exec_bind (f s x) (\<lambda>s'. exec_fold f s' xs)"

lemma exec_fold_unit: "\<forall>x \<in> set xs. f () x = Done () \<Longrightarrow> exec_fold f () xs = Done ()"
  by (induction xs) simp_all

lemma exec_fold_append: "exec_fold f s (xs @ ys) = exec_bind (exec_fold f s xs) (\<lambda>s'. exec_fold f s' ys)"
  by (induction xs arbitrary: s) (simp_all add: exec_bind_assoc)

section \<open>Build profiles\<close>

record profile =
  overflow_checks :: bool
  debug_assertions :: bool

definition dev_profile :: profile where
  "dev_profile = \<lparr>overflow_checks = True, debug_assertions = True\<rparr>"

definition release_profile :: profile where
  "release_profile = \<lparr>overflow_checks = False, debug_assertions = False\<rparr>"

definition debug_assert :: "profile \<Rightarrow> bool \<Rightarrow> unit exec" where
  "debug_assert p b = (if debug_assertions p \<and> \<not> b then Panicked Debug_assertion_failed else Done ())"

definition assert_exec :: "bool \<Rightarrow> unit exec" where
  "assert_exec b = (if b then Done () else Panicked Assertion_failed)"

lemma debug_assert_True [simp]: "debug_assert p True = Done ()"
  by (simp add: debug_assert_def)

lemma assert_exec_simps [simp]:
  "assert_exec True = Done ()" "assert_exec False = Panicked Assertion_failed"
  by (simp_all add: assert_exec_def)

section \<open>Unsigned machine integers\<close>

definition usize_bound :: nat where
  "usize_bound = 2 ^ 64"

definition usize_add :: "profile \<Rightarrow> nat \<Rightarrow> nat \<Rightarrow> nat exec" where
  "usize_add p a b =
     (if a + b < usize_bound then Done (a + b)
      else if overflow_checks p then Panicked Arithmetic_overflow
      else Done ((a + b) mod usize_bound))"

definition usize_mul :: "profile \<Rightarrow> nat \<Rightarrow> nat \<Rightarrow> nat exec" where
  "usize_mul p a b =
     (if a * b < usize_bound then Done (a * b)
      else if overflow_checks p then Panicked Arithmetic_overflow
      else Done ((a * b) mod usize_bound))"

definition usize_checked_add :: "nat \<Rightarrow> nat \<Rightarrow> nat option" where
  "usize_checked_add a b = (if a + b < usize_bound then Some (a + b) else None)"

definition usize_checked_sub :: "nat \<Rightarrow> nat \<Rightarrow> nat option" where
  "usize_checked_sub a b = (if b \<le> a then Some (a - b) else None)"

definition expect :: "'a option \<Rightarrow> 'a exec" where
  "expect r = (case r of None \<Rightarrow> Panicked Expect_failed | Some x \<Rightarrow> Done x)"

lemma expect_simps [simp]: "expect None = Panicked Expect_failed" "expect (Some x) = Done x"
  by (simp_all add: expect_def)

lemma usize_add_small [simp]: "a + b < usize_bound \<Longrightarrow> usize_add p a b = Done (a + b)"
  by (simp add: usize_add_def)

lemma usize_mul_small [simp]: "a * b < usize_bound \<Longrightarrow> usize_mul p a b = Done (a * b)"
  by (simp add: usize_mul_def)

section \<open>Comparison results\<close>

text \<open>\<open>std::cmp::Ordering\<close> and the comparison of two \<open>usize\<close>.\<close>

datatype ordering = Less | Equal | Greater

definition usize_cmp :: "nat \<Rightarrow> nat \<Rightarrow> ordering" where
  "usize_cmp a b = (if a < b then Less else if a = b then Equal else Greater)"

definition then_with :: "ordering \<Rightarrow> ordering \<Rightarrow> ordering" where
  "then_with a b = (case a of Equal \<Rightarrow> b | _ \<Rightarrow> a)"

lemma usize_cmp_iff [simp]:
  "usize_cmp a b = Less \<longleftrightarrow> a < b" "usize_cmp a b = Equal \<longleftrightarrow> a = b" "usize_cmp a b = Greater \<longleftrightarrow> b < a"
  by (auto simp: usize_cmp_def)

section \<open>Sorted lists\<close>

text \<open>Inserting at the upper bound of an element, and removing at an index.\<close>

definition list_insert_at :: "'a list \<Rightarrow> nat \<Rightarrow> 'a \<Rightarrow> 'a list" where
  "list_insert_at xs i x = take i xs @ x # drop i xs"

definition list_remove_at :: "'a list \<Rightarrow> nat \<Rightarrow> 'a list" where
  "list_remove_at xs i = take i xs @ drop (Suc i) xs"

lemma mset_list_insert_at [simp]: "mset (list_insert_at xs i x) = add_mset x (mset xs)"
proof -
  have "mset (take i xs) + mset (drop i xs) = mset xs"
    by (metis append_take_drop_id mset_append)
  then show ?thesis by (simp add: list_insert_at_def)
qed

lemma mset_list_remove_at: "i < length xs \<Longrightarrow> add_mset (xs ! i) (mset (list_remove_at xs i)) = mset xs"
  by (metis id_take_nth_drop list_remove_at_def mset_append mset.simps(2) union_mset_add_mset_right)

lemma sorted_list_remove_at: "sorted xs \<Longrightarrow> sorted (list_remove_at xs i)"
proof -
  assume "sorted xs"
  then have "sorted (take i xs @ drop i xs)" by simp
  moreover have "set (drop (Suc i) xs) \<subseteq> set (drop i xs)"
    by (rule set_drop_subset_set_drop) simp
  ultimately show ?thesis
    using \<open>sorted xs\<close> by (auto simp: list_remove_at_def sorted_append simp del: append_take_drop_id)
qed

lemma length_list_remove_at: "i < length xs \<Longrightarrow> Suc (length (list_remove_at xs i)) = length xs"
  by (simp add: list_remove_at_def)

lemma sorted_list_insert_at:
  assumes "sorted xs" "i \<le> length xs" "\<forall>j < i. xs ! j \<le> x" "\<forall>j. i \<le> j \<and> j < length xs \<longrightarrow> x \<le> xs ! j"
  shows "sorted (list_insert_at xs i x)"
proof -
  have t: "\<forall>y \<in> set (take i xs). y \<le> x"
    using assms(2,3) by (auto simp: in_set_conv_nth)
  have d: "\<forall>y \<in> set (drop i xs). x \<le> y"
    using assms(4) by (auto simp: in_set_conv_nth)
  have "sorted (take i xs)" "sorted (drop i xs)"
    using assms(1) by (simp_all add: sorted_wrt_take sorted_wrt_drop)
  with t d show ?thesis
    by (fastforce simp: list_insert_at_def sorted_append)
qed

text \<open>A sorted insertion is determined by its elements.\<close>

lemma list_insert_at_insort:
  assumes "sorted xs" "i \<le> length xs" "\<forall>j < i. xs ! j \<le> x" "\<forall>j. i \<le> j \<and> j < length xs \<longrightarrow> x \<le> xs ! j"
  shows "list_insert_at xs i x = insort x xs"
proof -
  have "sort (x # xs) = list_insert_at xs i x"
    using sorted_list_insert_at [OF assms] by (intro properties_for_sort) simp_all
  then show ?thesis using assms(1) by (simp add: sort_key_simps sorted_sort_id)
qed

end
