(* ===== verification/Free_Chunk.thy ===== *)
theory Free_Chunk
  imports Prelude
begin

text \<open>
  \<open>src/allocator/free_chunk.rs\<close>: the value types of the allocator. \<open>free_space\<close> is an interval of
  elementary chunks (8 bytes each), with the arithmetic of \<open>RelativeBeginning\<close>, splitting, merging of
  adjacent intervals and the order the free list is sorted by (\<open>impl Ord for FreeSpace\<close>: count first,
  beginning second). Both structs are single-constructor datatypes with the source's field
  names as selectors, so that they can be instances of \<open>linorder\<close>, as they are of \<open>Ord\<close>.
  Below the operations: \<open>cells\<close>, the chunks an interval stands for, and what each operation does
  to them.
\<close>

section \<open>Types and operations\<close>

text \<open>\<open>ShmemAlloc::ALIGNMENT\<close> and \<open>Chunks::CHUNK_SIZE\<close>.\<close>

definition ALIGNMENT :: nat where
  "ALIGNMENT = 8"

definition CHUNK_SIZE :: nat where
  "CHUNK_SIZE = ALIGNMENT"

datatype relative_beginning = RelativeBeginning (rb_index: nat)

datatype free_space = FreeSpace (relative_beginning: relative_beginning) (fs_count: nat)

definition rb_add :: "profile \<Rightarrow> relative_beginning \<Rightarrow> nat \<Rightarrow> relative_beginning exec" where
  "rb_add p r rhs = exec_bind (usize_add p (rb_index r) rhs) (\<lambda>x. Done (RelativeBeginning x))"

definition rb_zero :: relative_beginning where
  "rb_zero = RelativeBeginning 0"

definition rb_from_bytes :: "nat \<Rightarrow> relative_beginning" where
  "rb_from_bytes bytes = RelativeBeginning (bytes div CHUNK_SIZE)"

definition rb_into_absolute :: "profile \<Rightarrow> relative_beginning \<Rightarrow> nat \<Rightarrow> nat exec" where
  "rb_into_absolute p r base =
     exec_bind (usize_mul p (rb_index r) CHUNK_SIZE) (\<lambda>shift. usize_add p base shift)"

definition free_space_new :: "profile \<Rightarrow> relative_beginning \<Rightarrow> nat \<Rightarrow> free_space exec" where
  "free_space_new p shift n =
     exec_bind (debug_assert p (n \<noteq> 0)) (\<lambda>_. Done (FreeSpace shift n))"

definition are_contiguous :: "profile \<Rightarrow> free_space \<Rightarrow> free_space \<Rightarrow> bool exec" where
  "are_contiguous p left right =
     exec_bind (rb_add p (relative_beginning left) (fs_count left))
       (\<lambda>e. Done (e = relative_beginning right))"

definition free_space_split :: "profile \<Rightarrow> free_space \<Rightarrow> nat \<Rightarrow> (free_space \<times> free_space option) exec" where
  "free_space_split p self required =
     exec_bind (expect (usize_checked_sub (fs_count self) required)) (\<lambda>unused.
       if unused = 0 then Done (self, None)
       else exec_bind (rb_add p (relative_beginning self) required) (\<lambda>b.
         Done (FreeSpace (relative_beginning self) required, Some (FreeSpace b unused))))"

definition free_space_merge :: "profile \<Rightarrow> free_space \<Rightarrow> free_space \<Rightarrow> free_space option exec" where
  "free_space_merge p self other =
     exec_bind (are_contiguous p self other) (\<lambda>c1.
       if c1 then
         exec_bind (usize_add p (fs_count self) (fs_count other))
           (\<lambda>n. Done (Some (FreeSpace (relative_beginning self) n)))
       else exec_bind (are_contiguous p other self) (\<lambda>c2.
         if c2 then
           exec_bind (usize_add p (fs_count self) (fs_count other))
             (\<lambda>n. Done (Some (FreeSpace (relative_beginning other) n)))
         else Done None))"

text \<open>\<open>derive(Ord)\<close> of the newtype, and the hand-written \<open>Ord for FreeSpace\<close>.\<close>

definition rb_cmp :: "relative_beginning \<Rightarrow> relative_beginning \<Rightarrow> ordering" where
  "rb_cmp a b = usize_cmp (rb_index a) (rb_index b)"

definition free_space_cmp :: "free_space \<Rightarrow> free_space \<Rightarrow> ordering" where
  "free_space_cmp a b =
     then_with (usize_cmp (fs_count a) (fs_count b))
       (rb_cmp (relative_beginning a) (relative_beginning b))"

section \<open>The order of the free list\<close>

instantiation free_space :: linorder
begin

definition less_eq_free_space :: "free_space \<Rightarrow> free_space \<Rightarrow> bool" where
  "a \<le> b \<longleftrightarrow> free_space_cmp a b \<noteq> Greater"

definition less_free_space :: "free_space \<Rightarrow> free_space \<Rightarrow> bool" where
  "a < b \<longleftrightarrow> free_space_cmp a b = Less"

instance
proof
  fix a b c :: free_space
  note defs = less_eq_free_space_def less_free_space_def free_space_cmp_def rb_cmp_def
    then_with_def usize_cmp_def
  show "a < b \<longleftrightarrow> a \<le> b \<and> \<not> b \<le> a" by (auto simp: defs)
  show "a \<le> a" by (simp add: defs)
  show "a \<le> b \<Longrightarrow> b \<le> c \<Longrightarrow> a \<le> c" by (auto simp: defs split: if_splits)
  show "a \<le> b \<Longrightarrow> b \<le> a \<Longrightarrow> a = b"
    by (auto simp: defs intro!: free_space.expand relative_beginning.expand split: if_splits)
  show "a \<le> b \<or> b \<le> a" by (auto simp: defs)
qed

end

lemma free_space_less_eq_iff:
  "a \<le> b \<longleftrightarrow> fs_count a < fs_count b \<or>
     fs_count a = fs_count b \<and> rb_index (relative_beginning a) \<le> rb_index (relative_beginning b)"
  for a b :: free_space
  by (auto simp: less_eq_free_space_def free_space_cmp_def rb_cmp_def then_with_def usize_cmp_def)

lemma fs_count_mono: "a \<le> b \<Longrightarrow> fs_count a \<le> fs_count b"
  by (auto simp: free_space_less_eq_iff)

section \<open>The chunks of an interval\<close>

abbreviation fs_begin :: "free_space \<Rightarrow> nat" where
  "fs_begin f \<equiv> rb_index (relative_beginning f)"

abbreviation fs_end :: "free_space \<Rightarrow> nat" where
  "fs_end f \<equiv> fs_begin f + fs_count f"

definition cells :: "free_space \<Rightarrow> nat set" where
  "cells f = {fs_begin f ..< fs_end f}"

lemma mem_cells [simp]: "x \<in> cells f \<longleftrightarrow> fs_begin f \<le> x \<and> x < fs_end f"
  by (simp add: cells_def)

lemma finite_cells [simp]: "finite (cells f)"
  by (simp add: cells_def)

lemma card_cells [simp]: "card (cells f) = fs_count f"
  by (simp add: cells_def)

lemma free_space_eqI: "fs_begin a = fs_begin b \<Longrightarrow> fs_count a = fs_count b \<Longrightarrow> a = b"
  by (cases a; cases b) (auto intro: relative_beginning.expand)

lemma cells_disjoint_iff:
  assumes "0 < fs_count a" "0 < fs_count b"
  shows "cells a \<inter> cells b = {} \<longleftrightarrow> fs_end a \<le> fs_begin b \<or> fs_end b \<le> fs_begin a"
proof
  assume dis: "cells a \<inter> cells b = {}"
  show "fs_end a \<le> fs_begin b \<or> fs_end b \<le> fs_begin a"
  proof (rule ccontr)
    assume "\<not> ?thesis"
    with assms have "max (fs_begin a) (fs_begin b) \<in> cells a \<inter> cells b" by simp
    with dis show False by simp
  qed
qed auto

lemma cells_inj:
  assumes "0 < fs_count a" "cells a = cells b"
  shows "a = b"
proof -
  have n: "fs_count a = fs_count b" using assms(2) by (metis card_cells)
  moreover have "fs_begin a = fs_begin b"
    using assms n by (simp add: cells_def atLeastLessThan_eq_iff)
  ultimately show ?thesis by (rule free_space_eqI [rotated])
qed

text \<open>Two intervals are apart when at least one chunk lies between them: nothing to merge.\<close>

definition apart :: "free_space \<Rightarrow> free_space \<Rightarrow> bool" where
  "apart a b \<longleftrightarrow> fs_end a < fs_begin b \<or> fs_end b < fs_begin a"

lemma apart_sym: "apart a b \<longleftrightarrow> apart b a"
  by (auto simp: apart_def)

lemma apart_disjoint: "apart a b \<Longrightarrow> cells a \<inter> cells b = {}"
  by (auto simp: apart_def)

section \<open>What the operations do\<close>

lemma are_contiguous_eq [simp]:
  "fs_end a < usize_bound \<Longrightarrow> are_contiguous p a b = Done (fs_end a = fs_begin b)"
  by (cases b; cases "relative_beginning b") (simp add: are_contiguous_def rb_add_def)

lemma free_space_new_eq [simp]: "0 < n \<Longrightarrow> free_space_new p r n = Done (FreeSpace r n)"
  by (simp add: free_space_new_def)

lemma free_space_split_all: "free_space_split p f (fs_count f) = Done (f, None)"
  by (simp add: free_space_split_def usize_checked_sub_def)

lemma free_space_split_part:
  "n < fs_count f \<Longrightarrow> fs_end f < usize_bound \<Longrightarrow>
     free_space_split p f n = Done (FreeSpace (relative_beginning f) n,
       Some (FreeSpace (RelativeBeginning (fs_begin f + n)) (fs_count f - n)))"
  by (simp add: free_space_split_def usize_checked_sub_def rb_add_def)

lemma free_space_split_too_few: "fs_count f < n \<Longrightarrow> free_space_split p f n = Panicked Expect_failed"
  by (simp add: free_space_split_def usize_checked_sub_def)

text \<open>The interval that covers two adjacent ones.\<close>

definition joined :: "free_space \<Rightarrow> free_space \<Rightarrow> free_space" where
  "joined a b = FreeSpace (RelativeBeginning (min (fs_begin a) (fs_begin b))) (fs_count a + fs_count b)"

lemma free_space_merge_eq:
  assumes "0 < fs_count a" "0 < fs_count b" "fs_end a < usize_bound" "fs_end b < usize_bound"
  shows "free_space_merge p a b =
    Done (if fs_end a = fs_begin b \<or> fs_end b = fs_begin a then Some (joined a b) else None)"
  using assms by (cases a; cases b) (auto simp: free_space_merge_def joined_def min_def intro: relative_beginning.expand)

lemma cells_joined:
  assumes "fs_end a = fs_begin b \<or> fs_end b = fs_begin a"
  shows "cells (joined a b) = cells a \<union> cells b"
  using assms by (auto simp: joined_def min_def)

lemma joined_simps [simp]:
  "fs_count (joined a b) = fs_count a + fs_count b"
  "fs_begin (joined a b) = min (fs_begin a) (fs_begin b)"
  by (simp_all add: joined_def)

end
