(* ===== verification/Sorted_Vec.thy ===== *)
theory Sorted_Vec
  imports Free_Chunk
begin

text \<open>
  \<open>src/allocator/chunks/sorted_vec.rs\<close>: a vector that is kept sorted and never grows.
  The vector itself (\<open>alloc_collections::Vec\<close>) and the binary searches (\<open>superslice::Ext\<close>) are
  third-party code: they are the parameter \<open>vec_lib\<close> of the model, and \<open>vec_laws\<close> states the
  documented behaviour the crate relies on. \<open>list_vec\<close> is one lawful instance.
  The locale \<open>sorted_store\<close> is the contract \<open>FixesSortedVec\<close> offers the chunk manager.
\<close>

section \<open>The vector and search library\<close>

record ('t, 'v, 'e) vec_lib =
  vec_with_capacity_in :: "nat \<Rightarrow> 'e + 'v"
  vec_capacity :: "'v \<Rightarrow> nat"
  vec_slice :: "'v \<Rightarrow> 't list"
  vec_insert :: "'v \<Rightarrow> nat \<Rightarrow> 't \<Rightarrow> ('e + 'v) exec"
  vec_remove :: "'v \<Rightarrow> nat \<Rightarrow> ('t \<times> 'v) exec"
  slice_upper_bound :: "'t list \<Rightarrow> 't \<Rightarrow> nat"
  slice_lower_bound_by :: "'t list \<Rightarrow> ('t \<Rightarrow> ordering) \<Rightarrow> nat"

definition with_capacity_law :: "('t, 'v, 'e) vec_lib \<Rightarrow> bool" where
  "with_capacity_law L \<longleftrightarrow> (\<forall>n v. vec_with_capacity_in L n = Inr v \<longrightarrow>
     vec_slice L v = [] \<and> n \<le> vec_capacity L v)"

definition insert_law :: "('t, 'v, 'e) vec_lib \<Rightarrow> bool" where
  "insert_law L \<longleftrightarrow> (\<forall>v i x. i \<le> length (vec_slice L v) \<longrightarrow>
     length (vec_slice L v) < vec_capacity L v \<longrightarrow>
     (\<exists>v'. vec_insert L v i x = Done (Inr v') \<and> vec_capacity L v' = vec_capacity L v \<and>
       vec_slice L v' = list_insert_at (vec_slice L v) i x))"

definition remove_law :: "('t, 'v, 'e) vec_lib \<Rightarrow> bool" where
  "remove_law L \<longleftrightarrow> (\<forall>v i. i < length (vec_slice L v) \<longrightarrow>
     (\<exists>v'. vec_remove L v i = Done (vec_slice L v ! i, v') \<and> vec_capacity L v' = vec_capacity L v \<and>
       vec_slice L v' = list_remove_at (vec_slice L v) i))"

text \<open>The first index whose element is ordered after \<open>x\<close>; the first index where \<open>f\<close> is not \<open>Less\<close>.\<close>

definition upper_bound_law :: "('t::linorder, 'v, 'e) vec_lib \<Rightarrow> bool" where
  "upper_bound_law L \<longleftrightarrow> (\<forall>xs x. sorted xs \<longrightarrow>
     slice_upper_bound L xs x \<le> length xs \<and>
     (\<forall>j < slice_upper_bound L xs x. xs ! j \<le> x) \<and>
     (\<forall>j. slice_upper_bound L xs x \<le> j \<and> j < length xs \<longrightarrow> x < xs ! j))"

definition ordered_by :: "('t \<Rightarrow> ordering) \<Rightarrow> 't list \<Rightarrow> bool" where
  "ordered_by f xs \<longleftrightarrow> (\<forall>i j. i \<le> j \<and> j < length xs \<and> f (xs ! j) = Less \<longrightarrow> f (xs ! i) = Less)"

definition lower_bound_law :: "('t, 'v, 'e) vec_lib \<Rightarrow> bool" where
  "lower_bound_law L \<longleftrightarrow> (\<forall>xs f. ordered_by f xs \<longrightarrow>
     slice_lower_bound_by L xs f \<le> length xs \<and>
     (\<forall>j < slice_lower_bound_by L xs f. f (xs ! j) = Less) \<and>
     (\<forall>j. slice_lower_bound_by L xs f \<le> j \<and> j < length xs \<longrightarrow> f (xs ! j) \<noteq> Less))"

definition vec_laws :: "('t::linorder, 'v, 'e) vec_lib \<Rightarrow> bool" where
  "vec_laws L \<longleftrightarrow> with_capacity_law L \<and> insert_law L \<and> remove_law L \<and> upper_bound_law L \<and> lower_bound_law L"

section \<open>The sorted vector\<close>

definition fsv_new :: "('t, 'v, 'e) vec_lib \<Rightarrow> nat \<Rightarrow> 'e + 'v" where
  "fsv_new L capacity = vec_with_capacity_in L capacity"

definition fsv_push :: "('t, 'v, 'e) vec_lib \<Rightarrow> 'v \<Rightarrow> 't \<Rightarrow> 'v exec" where
  "fsv_push L v item =
     exec_bind (assert_exec (vec_capacity L v \<noteq> length (vec_slice L v))) (\<lambda>_.
       let idx = slice_upper_bound L (vec_slice L v) item
       in exec_bind (vec_insert L v idx item) (\<lambda>r.
         case r of Inl e \<Rightarrow> Panicked Expect_failed | Inr v' \<Rightarrow> Done v'))"

definition fsv_pop :: "('t, 'v, 'e) vec_lib \<Rightarrow> 'v \<Rightarrow> nat \<Rightarrow> ('t \<times> 'v) exec" where
  "fsv_pop L v index = vec_remove L v index"

definition fsv_inv :: "('t::linorder, 'v, 'e) vec_lib \<Rightarrow> 'v \<Rightarrow> bool" where
  "fsv_inv L v \<longleftrightarrow> vec_laws L \<and> sorted (vec_slice L v) \<and> length (vec_slice L v) \<le> vec_capacity L v"

section \<open>The contract\<close>

locale sorted_store =
  fixes items :: "'s \<Rightarrow> 'a::linorder list"
    and capacity :: "'s \<Rightarrow> nat"
    and invar :: "'s \<Rightarrow> bool"
    and push :: "'s \<Rightarrow> 'a \<Rightarrow> 's exec"
    and pop :: "'s \<Rightarrow> nat \<Rightarrow> ('a \<times> 's) exec"
  assumes sorted_items: "invar s \<Longrightarrow> sorted (items s)"
    and fits: "invar s \<Longrightarrow> length (items s) \<le> capacity s"
    and push_law: "invar s \<Longrightarrow> length (items s) < capacity s \<Longrightarrow>
      \<exists>s'. push s x = Done s' \<and> invar s' \<and> capacity s' = capacity s \<and> items s' = insort x (items s)"
    and push_full: "invar s \<Longrightarrow> length (items s) = capacity s \<Longrightarrow> push s x = Panicked Assertion_failed"
    and pop_law: "invar s \<Longrightarrow> i < length (items s) \<Longrightarrow>
      \<exists>s'. pop s i = Done (items s ! i, s') \<and> invar s' \<and> capacity s' = capacity s \<and>
        items s' = list_remove_at (items s) i"
begin

lemma push_ok:
  assumes "invar s" "length (items s) < capacity s"
  obtains s' where "push s x = Done s'" "invar s'" "capacity s' = capacity s" "items s' = insort x (items s)"
  using push_law [OF assms] by blast

lemma pop_ok:
  assumes "invar s" "i < length (items s)"
  obtains s' where "pop s i = Done (items s ! i, s')" "invar s'" "capacity s' = capacity s"
    "items s' = list_remove_at (items s) i"
  using pop_law [OF assms] by blast

lemma push_all:
  assumes "invar s" "length (items s) + length xs \<le> capacity s"
  shows "\<exists>s'. exec_fold push s xs = Done s' \<and> invar s' \<and> capacity s' = capacity s \<and>
    items s' = sort (items s @ xs)"
  using assms
proof (induction xs arbitrary: s)
  case Nil
  then show ?case by (simp add: sorted_sort_id sorted_items)
next
  case (Cons x xs)
  then have "length (items s) < capacity s" by simp
  with Cons.prems(1) obtain s1 where s1: "push s x = Done s1" "invar s1"
    "capacity s1 = capacity s" "items s1 = insort x (items s)"
    by (rule push_ok)
  with Cons.prems have "length (items s1) + length xs \<le> capacity s1" by simp
  with Cons.IH [OF s1(2)] obtain s' where s': "exec_fold push s1 xs = Done s'" "invar s'"
    "capacity s' = capacity s1" "items s' = sort (items s1 @ xs)"
    by blast
  have "sort (items s1 @ xs) = sort (items s @ x # xs)"
    by (rule properties_for_sort) (simp_all add: s1)
  with s1 s' show ?case by simp
qed

text \<open>Taking out the element a push has put in gives the old contents back.\<close>

lemma pop_of_push:
  assumes "invar s" "push s x = Done s'" "length (items s) < capacity s" "i < length (items s')" "items s' ! i = x"
  shows "\<exists>s''. pop s' i = Done (x, s'') \<and> items s'' = items s"
proof -
  obtain s1 where s1: "push s x = Done s1" "invar s1" "items s1 = insort x (items s)"
    using assms(1,3) by (rule push_ok)
  with assms(2) have [simp]: "s1 = s'" by simp
  obtain s2 where s2: "pop s' i = Done (items s' ! i, s2)" "invar s2" "items s2 = list_remove_at (items s') i"
    using s1(2) assms(4) by (auto elim: pop_ok)
  have "add_mset x (mset (items s2)) = add_mset x (mset (items s))"
    using mset_list_remove_at [OF assms(4)] s1(3) assms(5) s2(3) by simp
  then have "mset (items s2) = mset (items s)" by simp
  then have "items s2 = items s"
    using sorted_items [OF s2(2)] sorted_items [OF assms(1)]
    by (metis properties_for_sort sorted_sort_id)
  with s2 assms(5) show ?thesis by simp
qed

end

section \<open>The model keeps the contract\<close>

lemma fsv_push_law:
  assumes "fsv_inv L v" "length (vec_slice L v) < vec_capacity L v"
  shows "\<exists>v'. fsv_push L v x = Done v' \<and> fsv_inv L v' \<and> vec_capacity L v' = vec_capacity L v \<and>
    vec_slice L v' = insort x (vec_slice L v)"
proof -
  let ?xs = "vec_slice L v" and ?i = "slice_upper_bound L (vec_slice L v) x"
  have L: "insert_law L" "upper_bound_law L" and s: "sorted ?xs"
    using assms(1) by (simp_all add: fsv_inv_def vec_laws_def)
  have i: "?i \<le> length ?xs" "\<forall>j < ?i. ?xs ! j \<le> x" "\<forall>j. ?i \<le> j \<and> j < length ?xs \<longrightarrow> x \<le> ?xs ! j"
    using L(2) s by (auto simp: upper_bound_law_def less_imp_le)
  obtain v' where v': "vec_insert L v ?i x = Done (Inr v')" "vec_capacity L v' = vec_capacity L v"
    "vec_slice L v' = list_insert_at ?xs ?i x"
    using L(1) i(1) assms(2) unfolding insert_law_def by blast
  have e: "vec_slice L v' = insort x ?xs"
    using v'(3) list_insert_at_insort [OF s i] by simp
  then have "fsv_inv L v'"
    using assms s v'(2) by (simp add: fsv_inv_def sorted_insort)
  moreover have "fsv_push L v x = Done v'"
    using v'(1) assms(2) by (simp add: fsv_push_def)
  ultimately show ?thesis using v'(2) e by blast
qed

lemma fsv_pop_law:
  assumes "fsv_inv L v" "i < length (vec_slice L v)"
  shows "\<exists>v'. fsv_pop L v i = Done (vec_slice L v ! i, v') \<and> fsv_inv L v' \<and>
    vec_capacity L v' = vec_capacity L v \<and> vec_slice L v' = list_remove_at (vec_slice L v) i"
proof -
  have L: "remove_law L" and s: "sorted (vec_slice L v)"
    using assms(1) by (simp_all add: fsv_inv_def vec_laws_def)
  obtain v' where v': "vec_remove L v i = Done (vec_slice L v ! i, v')"
    "vec_capacity L v' = vec_capacity L v" "vec_slice L v' = list_remove_at (vec_slice L v) i"
    using L assms(2) unfolding remove_law_def by blast
  then have "fsv_inv L v'"
    using assms length_list_remove_at [OF assms(2)] s
    by (auto simp: fsv_inv_def sorted_list_remove_at)
  with v' show ?thesis by (simp add: fsv_pop_def)
qed

interpretation fsv: sorted_store "vec_slice L" "vec_capacity L" "fsv_inv L" "fsv_push L" "fsv_pop L"
  for L :: "('t::linorder, 'v, 'e) vec_lib"
proof unfold_locales
  fix v x i
  show "fsv_inv L v \<Longrightarrow> sorted (vec_slice L v)" and
    "fsv_inv L v \<Longrightarrow> length (vec_slice L v) \<le> vec_capacity L v"
    by (simp_all add: fsv_inv_def)
  show "fsv_inv L v \<Longrightarrow> length (vec_slice L v) = vec_capacity L v \<Longrightarrow>
      fsv_push L v x = Panicked Assertion_failed"
    by (simp add: fsv_push_def)
qed (rule fsv_push_law fsv_pop_law; assumption)+

lemma fsv_new_inv:
  "vec_laws L \<Longrightarrow> fsv_new L n = Inr v \<Longrightarrow> fsv_inv L v \<and> vec_slice L v = [] \<and> n \<le> vec_capacity L v"
  by (auto simp: fsv_new_def fsv_inv_def vec_laws_def with_capacity_law_def)

section \<open>A lawful library\<close>

text \<open>A vector is its capacity and its elements; the searches scan from the left.\<close>

definition list_vec :: "('t::linorder, nat \<times> 't list, unit) vec_lib" where
  "list_vec = \<lparr>
     vec_with_capacity_in = (\<lambda>n. Inr (n, [])),
     vec_capacity = fst,
     vec_slice = snd,
     vec_insert = (\<lambda>(n, xs) i x.
       if length xs < i then Panicked Index_out_of_bounds
       else if length xs < n then Done (Inr (n, list_insert_at xs i x)) else Done (Inl ())),
     vec_remove = (\<lambda>(n, xs) i.
       if i < length xs then Done (xs ! i, (n, list_remove_at xs i)) else Panicked Index_out_of_bounds),
     slice_upper_bound = (\<lambda>xs x. length (takeWhile (\<lambda>y. y \<le> x) xs)),
     slice_lower_bound_by = (\<lambda>xs f. length (takeWhile (\<lambda>y. f y = Less) xs))\<rparr>"

lemma list_vec_simps [simp]:
  "vec_with_capacity_in list_vec n = Inr (n, [])"
  "vec_capacity list_vec v = fst v"
  "vec_slice list_vec v = snd v"
  "slice_upper_bound list_vec xs x = length (takeWhile (\<lambda>y. y \<le> x) xs)"
  "slice_lower_bound_by list_vec xs f = length (takeWhile (\<lambda>y. f y = Less) xs)"
  by (simp_all add: list_vec_def)

lemma takeWhile_bound:
  assumes "\<And>i j. i \<le> j \<Longrightarrow> j < length xs \<Longrightarrow> P (xs ! j) \<Longrightarrow> P (xs ! i)"
    and "length (takeWhile P xs) \<le> j" "j < length xs"
  shows "\<not> P (xs ! j)"
proof
  assume "P (xs ! j)"
  with assms have "P (xs ! length (takeWhile P xs))" by blast
  moreover have "length (takeWhile P xs) < length xs" using assms(2,3) by simp
  ultimately show False using nth_length_takeWhile by blast
qed

lemma takeWhile_below: "j < length (takeWhile P xs) \<Longrightarrow> P (xs ! j)"
  by (metis nth_mem set_takeWhileD takeWhile_nth)

lemma list_vec_upper_bound: "upper_bound_law list_vec"
  unfolding upper_bound_law_def list_vec_simps
proof (intro allI impI conjI length_takeWhile_le)
  fix xs :: "'t::linorder list" and x j
  assume s: "sorted xs"
  show "j < length (takeWhile (\<lambda>y. y \<le> x) xs) \<Longrightarrow> xs ! j \<le> x"
    by (rule takeWhile_below)
  assume "length (takeWhile (\<lambda>y. y \<le> x) xs) \<le> j \<and> j < length xs"
  then have "\<not> xs ! j \<le> x"
    using s by (intro takeWhile_bound) (auto intro: order.trans sorted_nth_mono)
  then show "x < xs ! j" by simp
qed

lemma list_vec_lower_bound: "lower_bound_law list_vec"
  unfolding lower_bound_law_def list_vec_simps
proof (intro allI impI conjI length_takeWhile_le)
  fix xs :: "'t::linorder list" and f j
  assume o: "ordered_by f xs"
  show "j < length (takeWhile (\<lambda>y. f y = Less) xs) \<Longrightarrow> f (xs ! j) = Less"
    by (rule takeWhile_below)
  assume "length (takeWhile (\<lambda>y. f y = Less) xs) \<le> j \<and> j < length xs"
  then show "f (xs ! j) \<noteq> Less"
    using o by (intro takeWhile_bound [where P = "\<lambda>y. f y = Less"]) (auto simp: ordered_by_def)
qed

lemma list_vec_laws: "vec_laws (list_vec :: ('t::linorder, nat \<times> 't list, unit) vec_lib)"
  by (simp add: vec_laws_def list_vec_upper_bound list_vec_lower_bound with_capacity_law_def)
    (auto simp: insert_law_def remove_law_def list_vec_def)

end
