(* ===== verification/Chunks.thy ===== *)
theory Chunks
  imports Sorted_Vec
begin

text \<open>
  \<open>src/allocator/chunks.rs\<close>: the free-space manager. Its state is the sorted list of free
  intervals; \<open>chunks_get\<close> takes the best-fitting interval and gives the rest back,
  \<open>chunks_return_back\<close> merges a returned interval with its neighbours.
  This theory holds the operations; \<open>Chunks_Correct\<close> proves what they do.
  The merging loop is a \<open>while let\<close> over a third-party vector, so it is a
  \<^theory_text>\<open>partial_function\<close>: that it returns is a theorem there.
\<close>

record 'v chunks =
  free_chunks :: 'v

text \<open>Bytes to chunks, rounding up (the same expression in \<open>get\<close> and \<open>return_back\<close>).\<close>

definition required_chunks :: "nat \<Rightarrow> nat option" where
  "required_chunks sz =
     (if sz mod CHUNK_SIZE = 0 then Some (sz div CHUNK_SIZE)
      else usize_checked_add (sz div CHUNK_SIZE) 1)"

definition chunks_new :: "profile \<Rightarrow> (free_space, 'v, 'e) vec_lib \<Rightarrow> nat \<Rightarrow> ('e + 'v chunks) exec" where
  "chunks_new p L max_chunks =
     (case fsv_new L max_chunks of
        Inl e \<Rightarrow> Done (Inl e)
      | Inr v \<Rightarrow>
          exec_bind (free_space_new p rb_zero max_chunks) (\<lambda>f.
            exec_bind (fsv_push L v f) (\<lambda>v'. Done (Inr \<lparr>free_chunks = v'\<rparr>))))"

text \<open>\<open>iter().enumerate().filter_map(..).next()\<close>: lazily, from the left.\<close>

fun find_from :: "profile \<Rightarrow> nat \<Rightarrow> free_space list \<Rightarrow> free_space \<Rightarrow> (nat \<times> free_space) option exec" where
  "find_from p i [] chunk = Done None"
| "find_from p i (existing # rest) chunk =
     exec_bind (free_space_merge p existing chunk) (\<lambda>m.
       case m of Some merged \<Rightarrow> Done (Some (i, merged)) | None \<Rightarrow> find_from p (Suc i) rest chunk)"

definition find_and_merge :: "profile \<Rightarrow> (free_space, 'v, 'e) vec_lib \<Rightarrow> 'v \<Rightarrow> free_space \<Rightarrow>
    (nat \<times> free_space) option exec" where
  "find_and_merge p L v chunk = find_from p 0 (vec_slice L v) chunk"

partial_function (option) merge_loop :: "profile \<Rightarrow> (free_space, 'v, 'e) vec_lib \<Rightarrow> 'v \<Rightarrow> free_space \<Rightarrow>
    ('v \<times> free_space) exec option" where
  "merge_loop p L v chunk =
     (case find_and_merge p L v chunk of
        Panicked q \<Rightarrow> Some (Panicked q)
      | Diverges \<Rightarrow> Some Diverges
      | Done r \<Rightarrow>
          (case r of
             None \<Rightarrow> Some (Done (v, chunk))
           | Some (k, merged) \<Rightarrow>
               (case fsv_pop L v k of
                  Panicked q \<Rightarrow> Some (Panicked q)
                | Diverges \<Rightarrow> Some Diverges
                | Done (_, v') \<Rightarrow> merge_loop p L v' merged)))"

definition insert_chunk_and_merge :: "profile \<Rightarrow> (free_space, 'v, 'e) vec_lib \<Rightarrow> 'v chunks \<Rightarrow>
    free_space \<Rightarrow> 'v chunks exec" where
  "insert_chunk_and_merge p L c chunk =
     (if vec_slice L (free_chunks c) = [] then
        exec_bind (fsv_push L (free_chunks c) chunk) (\<lambda>v. Done (c\<lparr>free_chunks := v\<rparr>))
      else
        exec_bind (loop_exec (merge_loop p L (free_chunks c) chunk)) (\<lambda>(v, merged).
          exec_bind (fsv_push L v merged) (\<lambda>v'. Done (c\<lparr>free_chunks := v'\<rparr>))))"

definition chunks_get :: "profile \<Rightarrow> (free_space, 'v, 'e) vec_lib \<Rightarrow> 'v chunks \<Rightarrow> nat \<Rightarrow>
    (free_space option \<times> 'v chunks) exec" where
  "chunks_get p L c sz =
     (case required_chunks sz of
        None \<Rightarrow> Done (None, c)
      | Some required \<Rightarrow>
          let xs = vec_slice L (free_chunks c);
              idx = slice_lower_bound_by L xs (\<lambda>f. usize_cmp (fs_count f) required)
          in if length xs \<le> idx then Done (None, c)
             else exec_bind (fsv_pop L (free_chunks c) idx) (\<lambda>(space, v).
               exec_bind (free_space_split p space required) (\<lambda>(space, unused).
                 case unused of
                   None \<Rightarrow> Done (Some space, c\<lparr>free_chunks := v\<rparr>)
                 | Some rest \<Rightarrow>
                     exec_bind (insert_chunk_and_merge p L (c\<lparr>free_chunks := v\<rparr>) rest)
                       (\<lambda>c'. Done (Some space, c')))))"

definition chunks_return_back :: "profile \<Rightarrow> (free_space, 'v, 'e) vec_lib \<Rightarrow> 'v chunks \<Rightarrow> nat \<Rightarrow> nat \<Rightarrow>
    'v chunks exec" where
  "chunks_return_back p L c shift sz =
     exec_bind (expect (required_chunks sz)) (\<lambda>n.
       exec_bind (assert_exec (shift mod CHUNK_SIZE = 0)) (\<lambda>_.
         exec_bind (free_space_new p (rb_from_bytes shift) n) (\<lambda>f.
           insert_chunk_and_merge p L c f)))"

text \<open>The two test-only observers of the same file.\<close>

definition chunks_free_space :: "profile \<Rightarrow> (free_space, 'v, 'e) vec_lib \<Rightarrow> 'v chunks \<Rightarrow> nat exec" where
  "chunks_free_space p L c =
     (let xs = vec_slice L (free_chunks c)
      in usize_mul p (if xs = [] then 0 else fs_count (last xs)) CHUNK_SIZE)"

definition chunks_self_check :: "profile \<Rightarrow> (free_space, 'v, 'e) vec_lib \<Rightarrow> 'v chunks \<Rightarrow> unit exec" where
  "chunks_self_check p L c =
     (let xs = vec_slice L (free_chunks c); n = length xs
      in if xs = [] then Done ()
         else exec_bind
           (exec_fold (\<lambda>_ i. assert_exec (fs_count (xs ! i) \<le> fs_count (xs ! (i + 1)))) () [0 ..< n - 1])
           (\<lambda>_. exec_fold (\<lambda>_ (i, j).
             exec_bind (assert_exec (xs ! i \<noteq> xs ! j)) (\<lambda>_.
               exec_bind (are_contiguous p (xs ! i) (xs ! j)) (\<lambda>b. assert_exec (\<not> b))))
             () [(i, j). i \<leftarrow> [0 ..< n], j \<leftarrow> [i + 1 ..< n]]))"

end
