(* ===== verification/Chunks_Correct.thy ===== *)
theory Chunks_Correct
  imports Chunks
begin

text \<open>
  What the free-space manager guarantees. \<open>free_cells\<close> abstracts a free list to the set of free
  elementary chunks; \<open>well_formed\<close> is the representation invariant (intervals non-empty, in range,
  pairwise apart, so that nothing is left to merge). The operations are shown to act on the set
  as an allocator should, never to panic, and to keep the invariant; the list is canonical
  for its set.
\<close>

section \<open>The abstraction\<close>

definition free_cells :: "free_space list \<Rightarrow> nat set" where
  "free_cells xs = (\<Union>f \<in> set xs. cells f)"

definition well_formed :: "nat \<Rightarrow> free_space list \<Rightarrow> bool" where
  "well_formed n xs \<longleftrightarrow> distinct xs \<and> (\<forall>f \<in> set xs. 0 < fs_count f \<and> fs_end f \<le> n) \<and>
     pairwise apart (set xs)"

lemma free_cells_simps [simp]:
  "free_cells [] = {}" "free_cells (f # xs) = cells f \<union> free_cells xs"
  "free_cells (insort f xs) = cells f \<union> free_cells xs"
  by (auto simp: free_cells_def set_insort_key)

lemma finite_free_cells [simp]: "finite (free_cells xs)"
  by (simp add: free_cells_def)

lemma free_cells_mset: "mset xs = mset ys \<Longrightarrow> free_cells xs = free_cells ys"
  by (metis free_cells_def set_mset_mset)

lemma well_formed_mset: "mset xs = mset ys \<Longrightarrow> well_formed n xs = well_formed n ys"
  by (metis well_formed_def mset_eq_setD mset_eq_imp_distinct_iff)

lemma well_formed_Nil [simp]: "well_formed n []"
  by (simp add: well_formed_def)

lemma well_formed_Cons:
  "well_formed n (f # xs) \<longleftrightarrow>
     0 < fs_count f \<and> fs_end f \<le> n \<and> (\<forall>g \<in> set xs. apart g f) \<and> well_formed n xs"
proof -
  have "f \<notin> set xs" if "0 < fs_count f" "\<forall>g \<in> set xs. apart g f"
    using that by (auto simp: apart_def)
  then show ?thesis
    by (auto simp: well_formed_def pairwise_insert apart_sym)
qed

lemma well_formed_insort [simp]: "well_formed n (insort f xs) = well_formed n (f # xs)"
  by (rule well_formed_mset) simp

lemma well_formed_remove:
  assumes "well_formed n xs" "i < length xs"
  shows "well_formed n (xs ! i # list_remove_at xs i)"
  using assms mset_list_remove_at [OF assms(2)] by (subst well_formed_mset [of _ xs]) auto

lemma free_cells_remove:
  "i < length xs \<Longrightarrow> free_cells (xs ! i # list_remove_at xs i) = free_cells xs"
  by (rule free_cells_mset) (simp add: mset_list_remove_at)

lemma apart_free_cells: "\<forall>g \<in> set xs. apart g f \<Longrightarrow> cells f \<inter> free_cells xs = {}"
  using apart_disjoint by (fastforce simp: free_cells_def apart_sym)

lemma well_formed_bounds: "well_formed n xs \<Longrightarrow> free_cells xs \<subseteq> {0 ..< n}"
  by (fastforce simp: well_formed_def free_cells_def)

text \<open>Each interval holds at least one chunk, so there are at most as many intervals as free chunks.\<close>

lemma length_le_card: "well_formed n xs \<Longrightarrow> length xs \<le> card (free_cells xs)"
proof (induction xs)
  case (Cons f xs)
  then have "card (cells f \<union> free_cells xs) = fs_count f + card (free_cells xs)"
    using apart_free_cells [of xs f] by (subst card_Un_disjoint) (auto simp: well_formed_Cons)
  with Cons show ?case by (simp add: well_formed_Cons)
qed simp

lemma room_for_one_more:
  assumes "well_formed n xs" "0 < fs_count f" "fs_end f \<le> n" "cells f \<inter> free_cells xs = {}"
  shows "length xs < n"
proof -
  have "card (cells f \<union> free_cells xs) = fs_count f + card (free_cells xs)"
    using assms(4) by (subst card_Un_disjoint) auto
  moreover have "cells f \<union> free_cells xs \<subseteq> {0 ..< n}"
    using well_formed_bounds [OF assms(1)] assms(3) by auto
  then have "card (cells f \<union> free_cells xs) \<le> n"
    using card_mono [of "{0 ..< n}"] by fastforce
  ultimately show ?thesis using length_le_card [OF assms(1)] assms(2) by simp
qed

section \<open>A free run lies in one interval\<close>

lemma run_in_one_interval:
  assumes wf: "well_formed n xs" and "0 < k" "{s ..< s + k} \<subseteq> free_cells xs"
  shows "\<exists>f \<in> set xs. {s ..< s + k} \<subseteq> cells f"
  using assms(2,3)
proof (induction k)
  case (Suc k)
  have "s + k \<in> free_cells xs" using Suc.prems(2) by auto
  then obtain g where g: "g \<in> set xs" "s + k \<in> cells g"
    unfolding free_cells_def by blast
  show ?case
  proof (cases "k = 0")
    case True
    with g show ?thesis by (auto intro!: bexI [of _ g])
  next
    case False
    with Suc obtain f where f: "f \<in> set xs" "{s ..< s + k} \<subseteq> cells f" by fastforce
    then have "s + k - 1 \<in> cells f" using False by fastforce
    with g f(1) wf False have "f = g"
      by (force simp: well_formed_def pairwise_def apart_def)
    with f g show ?thesis
      by (intro bexI [of _ g]) (auto simp: less_Suc_eq)
  qed
qed simp

text \<open>The sorted list of intervals is determined by the set of free chunks.\<close>

lemma interval_maximal:
  assumes "well_formed n xs" "well_formed m ys" "free_cells xs = free_cells ys" "f \<in> set xs"
  shows "f \<in> set ys"
proof -
  have sub: "\<exists>g \<in> set vs. cells h \<subseteq> cells g"
    if "well_formed k us" "well_formed l vs" "free_cells us = free_cells vs" "h \<in> set us" for k l us vs h
  proof -
    have "cells h \<subseteq> free_cells vs" using that(3,4) by (auto simp: free_cells_def)
    with that show ?thesis
      using run_in_one_interval [of l vs "fs_count h" "fs_begin h"]
      by (auto simp: well_formed_def cells_def)
  qed
  obtain g where g: "g \<in> set ys" "cells f \<subseteq> cells g"
    using sub [OF assms] by blast
  obtain h where h: "h \<in> set xs" "cells g \<subseteq> cells h"
    using sub [OF assms(2,1) assms(3) [symmetric] g(1)] by blast
  have pos: "fs_begin f \<in> cells f" using assms(1,4) by (simp add: well_formed_def)
  then have "cells f \<inter> cells h \<noteq> {}" using g h by blast
  then have "f = h"
    using assms(1,4) h(1) apart_disjoint [of f h] unfolding well_formed_def pairwise_def by blast
  with g h have "cells f = cells g" by blast
  moreover have "0 < fs_count f" using assms(1,4) by (simp add: well_formed_def)
  ultimately have "f = g" by (rule cells_inj [rotated])
  with g show ?thesis by simp
qed

lemma free_list_canonical:
  assumes "sorted xs" "sorted ys" "well_formed n xs" "well_formed m ys" "free_cells xs = free_cells ys"
  shows "xs = ys"
proof (rule sorted_distinct_set_unique)
  show "set xs = set ys"
    using interval_maximal [OF assms(3,4,5)] interval_maximal [OF assms(4,3) assms(5) [symmetric]] by blast
qed (use assms in \<open>auto simp: well_formed_def\<close>)

section \<open>Finding an adjacent interval\<close>

definition adjacent :: "free_space \<Rightarrow> free_space \<Rightarrow> bool" where
  "adjacent a b \<longleftrightarrow> fs_end a = fs_begin b \<or> fs_end b = fs_begin a"

lemma not_adjacent_apart:
  "0 < fs_count a \<Longrightarrow> 0 < fs_count b \<Longrightarrow> cells a \<inter> cells b = {} \<Longrightarrow> \<not> adjacent a b \<Longrightarrow> apart a b"
  by (auto simp: cells_disjoint_iff adjacent_def apart_def)

lemma find_from_cases:
  assumes "\<forall>f \<in> set xs. 0 < fs_count f \<and> fs_end f < usize_bound"
    and "0 < fs_count c" "fs_end c < usize_bound"
  shows "(find_from p i xs c = Done None \<and> (\<forall>f \<in> set xs. \<not> adjacent f c)) \<or>
    (\<exists>k < length xs. adjacent (xs ! k) c \<and> find_from p i xs c = Done (Some (i + k, joined (xs ! k) c)))"
  using assms(1)
proof (induction xs arbitrary: i)
  case (Cons f xs)
  have m: "free_space_merge p f c = Done (if adjacent f c then Some (joined f c) else None)"
    using Cons.prems assms(2,3) by (simp add: free_space_merge_eq adjacent_def)
  show ?case
  proof (cases "adjacent f c")
    case True
    with m show ?thesis by (intro disjI2 exI [of _ 0]) simp
  next
    case False
    with m have step: "find_from p i (f # xs) c = find_from p (Suc i) xs c" by simp
    have "\<forall>f \<in> set xs. 0 < fs_count f \<and> fs_end f < usize_bound" using Cons.prems by simp
    from Cons.IH [OF this, of "Suc i"] show ?thesis
    proof
      assume "\<exists>k < length xs. adjacent (xs ! k) c \<and>
        find_from p (Suc i) xs c = Done (Some (Suc i + k, joined (xs ! k) c))"
      then obtain k where "k < length xs" "adjacent (xs ! k) c"
        "find_from p (Suc i) xs c = Done (Some (Suc i + k, joined (xs ! k) c))" by blast
      with step show ?thesis by (intro disjI2 exI [of _ "Suc k"]) simp
    qed (use step False in simp)
  qed
qed simp

section \<open>The merging loop\<close>

text \<open>
  Started on an interval disjoint from the free list, the loop returns: what it took out of the
  list and joined to the interval covers the same chunks, and nothing left in the list touches it.
\<close>

lemma merge_loop_returns:
  assumes "fsv_inv L v" "well_formed n (vec_slice L v)" "n < usize_bound"
    and "0 < fs_count c" "fs_end c \<le> n" "cells c \<inter> free_cells (vec_slice L v) = {}"
  shows "\<exists>v' c'. merge_loop p L v c = Some (Done (v', c')) \<and> fsv_inv L v' \<and>
    vec_capacity L v' = vec_capacity L v \<and> well_formed n (c' # vec_slice L v') \<and>
    free_cells (c' # vec_slice L v') = cells c \<union> free_cells (vec_slice L v)"
  using assms
proof (induction "length (vec_slice L v)" arbitrary: v c rule: less_induct)
  case less
  let ?xs = "vec_slice L v"
  have pos: "\<forall>f \<in> set ?xs. 0 < fs_count f \<and> fs_end f < usize_bound" "fs_end c < usize_bound"
    using less.prems by (auto simp: well_formed_def)
  show ?case
  proof (cases "\<forall>f \<in> set ?xs. \<not> adjacent f c")
    case True
    then have "find_and_merge p L v c = Done None"
      using find_from_cases [OF pos(1) less.prems(4) pos(2), of p 0] by (auto simp: find_and_merge_def)
    moreover have "\<forall>f \<in> set ?xs. apart f c"
      using True less.prems pos by (auto intro!: not_adjacent_apart simp: free_cells_def)
    ultimately show ?thesis
      using less.prems by (simp add: merge_loop.simps well_formed_Cons)
  next
    case False
    then obtain k where k: "k < length ?xs" "adjacent (?xs ! k) c"
      "find_and_merge p L v c = Done (Some (k, joined (?xs ! k) c))"
      using find_from_cases [OF pos(1) less.prems(4) pos(2), of p 0] by (auto simp: find_and_merge_def)
    let ?f = "?xs ! k" and ?ys = "list_remove_at ?xs k"
    obtain v1 where v1: "fsv_pop L v k = Done (?f, v1)" "fsv_inv L v1"
      "vec_capacity L v1 = vec_capacity L v" "vec_slice L v1 = ?ys"
      using less.prems(1) k(1) by (rule fsv.pop_ok)
    have wf: "well_formed n (?f # ?ys)" using less.prems(2) k(1) by (rule well_formed_remove)
    have fc: "cells ?f \<union> free_cells ?ys = free_cells ?xs" using free_cells_remove [OF k(1)] by simp
    have cj: "cells (joined ?f c) = cells ?f \<union> cells c"
      using k(2) by (simp add: cells_joined adjacent_def)
    have "cells ?f \<inter> free_cells ?ys = {}"
      using wf by (intro apart_free_cells) (simp add: well_formed_Cons)
    then have "cells (joined ?f c) \<inter> free_cells ?ys = {}"
      using less.prems(6) fc cj by blast
    moreover have "fs_end (joined ?f c) \<le> n"
      using k(2) less.prems(5) wf by (auto simp: adjacent_def well_formed_Cons)
    ultimately obtain v' c' where r: "merge_loop p L v1 (joined ?f c) = Some (Done (v', c'))"
      "fsv_inv L v'" "vec_capacity L v' = vec_capacity L v1" "well_formed n (c' # vec_slice L v')"
      "free_cells (c' # vec_slice L v') = cells (joined ?f c) \<union> free_cells ?ys"
      using less.hyps [of v1 "joined ?f c"] v1 wf less.prems(3,4) length_list_remove_at [OF k(1)]
      by (fastforce simp: well_formed_Cons)
    have "merge_loop p L v c = merge_loop p L v1 (joined ?f c)"
      by (subst merge_loop.simps) (simp add: k(3) v1(1))
    moreover have "free_cells (c' # vec_slice L v') = cells c \<union> free_cells ?xs"
      using r(5) fc cj by auto
    ultimately show ?thesis using r v1(3) by auto
  qed
qed

section \<open>The invariant and the operations\<close>

definition free_set :: "(free_space, 'v, 'e) vec_lib \<Rightarrow> 'v chunks \<Rightarrow> nat set" where
  "free_set L c = free_cells (vec_slice L (free_chunks c))"

definition chunks_inv :: "(free_space, 'v, 'e) vec_lib \<Rightarrow> nat \<Rightarrow> 'v chunks \<Rightarrow> bool" where
  "chunks_inv L n c \<longleftrightarrow> fsv_inv L (free_chunks c) \<and> n \<le> vec_capacity L (free_chunks c) \<and>
     n < usize_bound \<and> well_formed n (vec_slice L (free_chunks c))"

text \<open>Bytes to chunks, rounding up.\<close>

definition chunks_of :: "nat \<Rightarrow> nat" where
  "chunks_of sz = (sz + (CHUNK_SIZE - 1)) div CHUNK_SIZE"

lemma CHUNK_SIZE_8: "CHUNK_SIZE = 8"
  by (simp add: CHUNK_SIZE_def ALIGNMENT_def)

lemma chunks_of_pos [simp]: "0 < chunks_of sz \<longleftrightarrow> 0 < sz"
  by (auto simp: chunks_of_def CHUNK_SIZE_8)

lemma chunks_of_enough: "sz \<le> chunks_of sz * CHUNK_SIZE" "chunks_of sz * CHUNK_SIZE < sz + CHUNK_SIZE"
  by (simp_all add: chunks_of_def CHUNK_SIZE_8)

lemma required_chunks_eq:
  assumes "sz < usize_bound"
  shows "required_chunks sz = Some (chunks_of sz)"
proof -
  have split: "(sz + 7) div 8 = sz div 8 + (sz mod 8 + 7) div 8"
    using div_add1_eq [of sz 7 8] by simp
  have "(sz mod 8 + 7) div 8 = 1" if "sz mod 8 \<noteq> 0"
    by (rule div_nat_eqI) (use that in simp_all)
  with split have "chunks_of sz = (if sz mod 8 = 0 then sz div 8 else sz div 8 + 1)"
    by (simp add: chunks_of_def CHUNK_SIZE_8)
  moreover have "sz div 8 + 1 < usize_bound" if "sz mod 8 \<noteq> 0"
  proof -
    have "sz div 8 + 1 \<le> sz" using that mult_div_mod_eq [of 8 sz] by linarith
    with assms show ?thesis by simp
  qed
  ultimately show ?thesis by (simp add: required_chunks_def usize_checked_add_def CHUNK_SIZE_8)
qed

lemma insert_chunk_and_merge_ok:
  assumes inv: "chunks_inv L n c" and f: "0 < fs_count f" "fs_end f \<le> n" "cells f \<inter> free_set L c = {}"
  shows "\<exists>c'. insert_chunk_and_merge p L c f = Done c' \<and> chunks_inv L n c' \<and>
    free_set L c' = cells f \<union> free_set L c"
proof -
  let ?v = "free_chunks c"
  let ?xs = "vec_slice L ?v"
  have i: "fsv_inv L ?v" "n \<le> vec_capacity L ?v" "n < usize_bound" "well_formed n ?xs"
    using inv by (simp_all add: chunks_inv_def)
  have f3: "cells f \<inter> free_cells ?xs = {}" using f(3) by (simp add: free_set_def)
  obtain v' f' where r: "merge_loop p L ?v f = Some (Done (v', f'))" "fsv_inv L v'"
    "vec_capacity L v' = vec_capacity L ?v" "well_formed n (f' # vec_slice L v')"
    "free_cells (f' # vec_slice L v') = cells f \<union> free_cells ?xs"
    using merge_loop_returns [OF i(1,4,3) f(1,2) f3] by blast
  have skip: "?xs = [] \<Longrightarrow> v' = ?v \<and> f' = f"
    using r(1) by (simp add: merge_loop.simps find_and_merge_def)
  have wf: "well_formed n (vec_slice L v')" "0 < fs_count f'" "fs_end f' \<le> n"
    "cells f' \<inter> free_cells (vec_slice L v') = {}"
    using r(4) by (auto simp: well_formed_Cons intro!: apart_free_cells)
  have "length (vec_slice L v') < vec_capacity L v'"
    using room_for_one_more [OF wf] i(2) r(3) by simp
  with r(2) obtain v2 where v2: "fsv_push L v' f' = Done v2" "fsv_inv L v2"
    "vec_capacity L v2 = vec_capacity L v'" "vec_slice L v2 = insort f' (vec_slice L v')"
    by (rule fsv.push_ok)
  have "insert_chunk_and_merge p L c f = Done (c\<lparr>free_chunks := v2\<rparr>)"
    using skip r(1) v2(1) by (auto simp: insert_chunk_and_merge_def)
  moreover have "chunks_inv L n (c\<lparr>free_chunks := v2\<rparr>)"
    using i r(3,4) v2 by (simp add: chunks_inv_def)
  moreover have "free_set L (c\<lparr>free_chunks := v2\<rparr>) = cells f \<union> free_set L c"
    using r(5) v2(4) by (simp add: free_set_def)
  ultimately show ?thesis by blast
qed

lemma chunks_new_ok:
  assumes "vec_laws L" "0 < n" "n < usize_bound"
  shows "(\<exists>e. vec_with_capacity_in L n = Inl e \<and> chunks_new p L n = Done (Inl e)) \<or>
    (\<exists>c. chunks_new p L n = Done (Inr c) \<and> chunks_inv L n c \<and>
      vec_slice L (free_chunks c) = [FreeSpace rb_zero n])"
proof (cases "fsv_new L n")
  case (Inl e)
  then show ?thesis by (simp add: chunks_new_def fsv_new_def)
next
  case (Inr v)
  with assms(1) have v: "fsv_inv L v" "vec_slice L v = []" "n \<le> vec_capacity L v"
    by (auto dest: fsv_new_inv)
  let ?f = "FreeSpace rb_zero n"
  obtain v' where v': "fsv_push L v ?f = Done v'" "fsv_inv L v'" "vec_capacity L v' = vec_capacity L v"
    "vec_slice L v' = insort ?f (vec_slice L v)"
    using v assms(2) by (auto elim: fsv.push_ok [where x = ?f])
  have "chunks_new p L n = Done (Inr \<lparr>free_chunks = v'\<rparr>)"
    using Inr v' assms(2) by (simp add: chunks_new_def)
  moreover have "chunks_inv L n \<lparr>free_chunks = v'\<rparr>"
    using v v' assms by (simp add: chunks_inv_def well_formed_Cons rb_zero_def)
  ultimately show ?thesis using v v' by simp
qed

lemma free_set_new: "free_cells [FreeSpace rb_zero n] = {0 ..< n}"
  by (auto simp: rb_zero_def)

section \<open>Taking space\<close>

lemma ordered_by_count:
  assumes "sorted xs"
  shows "ordered_by (\<lambda>f. usize_cmp (fs_count f) m) xs"
  unfolding ordered_by_def usize_cmp_iff
proof (intro allI impI)
  fix i j assume *: "i \<le> j \<and> j < length xs \<and> fs_count (xs ! j) < m"
  then have "fs_count (xs ! i) \<le> fs_count (xs ! j)"
    using assms by (intro fs_count_mono sorted_nth_mono) simp_all
  with * show "fs_count (xs ! i) < m" by simp
qed

text \<open>The smallest interval that is large enough.\<close>

definition best_fit :: "free_space list \<Rightarrow> nat \<Rightarrow> free_space \<Rightarrow> bool" where
  "best_fit xs m g \<longleftrightarrow> g \<in> set xs \<and> m \<le> fs_count g \<and>
     (\<forall>h \<in> set xs. m \<le> fs_count h \<longrightarrow> fs_count g \<le> fs_count h)"

text \<open>The interval \<open>get\<close> selects: the least one that is large enough.\<close>

lemma lower_bound_selects:
  fixes m :: nat
  assumes "vec_laws L" "sorted xs"
  defines "i \<equiv> slice_lower_bound_by L xs (\<lambda>f. usize_cmp (fs_count f) m)"
  shows "length xs \<le> i \<Longrightarrow> \<forall>f \<in> set xs. fs_count f < m"
    and "i < length xs \<Longrightarrow> best_fit xs m (xs ! i)"
proof -
  have law: "i \<le> length xs" "\<forall>j < i. fs_count (xs ! j) < m"
    "\<forall>j. i \<le> j \<and> j < length xs \<longrightarrow> m \<le> fs_count (xs ! j)"
    using assms(1) ordered_by_count [OF assms(2), of m] usize_cmp_iff(1)
    unfolding vec_laws_def lower_bound_law_def i_def not_less [symmetric] by blast+
  show "length xs \<le> i \<Longrightarrow> \<forall>f \<in> set xs. fs_count f < m"
    using law(2) by (auto simp: in_set_conv_nth)
  show "best_fit xs m (xs ! i)" if i: "i < length xs"
    unfolding best_fit_def
  proof (intro conjI ballI impI)
    show "m \<le> fs_count (xs ! i)" "xs ! i \<in> set xs" using law(3) i by simp_all
    fix f assume "f \<in> set xs" and m: "m \<le> fs_count f"
    then obtain j where j: "j < length xs" "f = xs ! j" by (auto simp: in_set_conv_nth)
    with m law(2) have "i \<le> j" by (meson leD leI)
    with j assms(2) show "fs_count (xs ! i) \<le> fs_count f"
      by (simp add: fs_count_mono sorted_nth_mono)
  qed
qed

lemma cells_subset_free: "f \<in> set xs \<Longrightarrow> cells f \<subseteq> free_cells xs"
  by (auto simp only: free_cells_def)

lemma chunks_get_none:
  assumes inv: "chunks_inv L n c" and sz: "0 < sz" "sz < usize_bound"
    and none: "\<forall>b. \<not> {b ..< b + chunks_of sz} \<subseteq> free_set L c"
  shows "chunks_get p L c sz = Done (None, c)"
proof -
  let ?xs = "vec_slice L (free_chunks c)" and ?m = "chunks_of sz"
  let ?i = "slice_lower_bound_by L ?xs (\<lambda>f. usize_cmp (fs_count f) ?m)"
  have L: "vec_laws L" "sorted ?xs"
    using inv by (simp_all add: chunks_inv_def fsv_inv_def)
  have "length ?xs \<le> ?i"
  proof (rule ccontr)
    assume "\<not> ?thesis"
    then have i: "?i < length ?xs" by simp
    then have "?m \<le> fs_count (?xs ! ?i)"
      using lower_bound_selects(2) [OF L] by (simp add: best_fit_def)
    then have "{fs_begin (?xs ! ?i) ..< fs_begin (?xs ! ?i) + ?m} \<subseteq> cells (?xs ! ?i)" by auto
    also have "\<dots> \<subseteq> free_set L c" using i by (simp add: free_set_def cells_subset_free)
    finally show False using none by blast
  qed
  then show ?thesis by (simp add: chunks_get_def required_chunks_eq [OF sz(2)])
qed

lemma chunks_get_some:
  assumes inv: "chunks_inv L n c" and sz: "0 < sz" "sz < usize_bound"
    and run: "{b ..< b + chunks_of sz} \<subseteq> free_set L c"
  shows "\<exists>f c'. chunks_get p L c sz = Done (Some f, c') \<and> chunks_inv L n c' \<and>
    fs_count f = chunks_of sz \<and> cells f \<subseteq> free_set L c \<and> free_set L c' = free_set L c - cells f \<and>
    (\<exists>g. best_fit (vec_slice L (free_chunks c)) (chunks_of sz) g \<and> fs_begin f = fs_begin g)"
proof -
  let ?v = "free_chunks c" and ?m = "chunks_of sz"
  let ?xs = "vec_slice L ?v"
  let ?i = "slice_lower_bound_by L ?xs (\<lambda>f. usize_cmp (fs_count f) ?m)"
  let ?g = "?xs ! ?i" and ?ys = "list_remove_at ?xs ?i"
  have L: "vec_laws L" "sorted ?xs" and i: "fsv_inv L ?v" "n \<le> vec_capacity L ?v" "n < usize_bound" "well_formed n ?xs"
    using inv by (simp_all add: chunks_inv_def fsv_inv_def)
  obtain h where h: "h \<in> set ?xs" "{b ..< b + ?m} \<subseteq> cells h"
    using run_in_one_interval [OF i(4) _ run [unfolded free_set_def]] sz(1) by auto
  have "?m \<le> fs_count h" using card_mono [OF _ h(2)] by simp
  with h(1) have idx: "?i < length ?xs"
    using lower_bound_selects(1) [OF L, of ?m] by (meson leD leI)
  have best: "best_fit ?xs ?m ?g" using lower_bound_selects(2) [OF L idx] .
  then have g: "?m \<le> fs_count ?g" by (simp add: best_fit_def)
  obtain v1 where v1: "fsv_pop L ?v ?i = Done (?g, v1)" "fsv_inv L v1"
    "vec_capacity L v1 = vec_capacity L ?v" "vec_slice L v1 = ?ys"
    using i(1) idx by (rule fsv.pop_ok)
  have wf: "well_formed n (?g # ?ys)" using i(4) idx by (rule well_formed_remove)
  have fc: "free_set L c = cells ?g \<union> free_cells ?ys"
    using free_cells_remove [OF idx] by (simp add: free_set_def)
  have dis: "cells ?g \<inter> free_cells ?ys = {}"
    using wf by (intro apart_free_cells) (simp add: well_formed_Cons)
  have inv1: "chunks_inv L n (c\<lparr>free_chunks := v1\<rparr>)" and fs1: "free_set L (c\<lparr>free_chunks := v1\<rparr>) = free_cells ?ys"
    using i v1 wf by (simp_all add: chunks_inv_def well_formed_Cons free_set_def)
  have get: "chunks_get p L c sz = exec_bind (free_space_split p ?g ?m) (\<lambda>(space, unused).
      case unused of None \<Rightarrow> Done (Some space, c\<lparr>free_chunks := v1\<rparr>)
      | Some rest \<Rightarrow> exec_bind (insert_chunk_and_merge p L (c\<lparr>free_chunks := v1\<rparr>) rest)
          (\<lambda>c'. Done (Some space, c')))"
    using idx v1(1) by (simp add: chunks_get_def required_chunks_eq [OF sz(2)] not_le Let_def)
  show ?thesis
  proof (cases "?m = fs_count ?g")
    case True
    then have "chunks_get p L c sz = Done (Some ?g, c\<lparr>free_chunks := v1\<rparr>)"
      using get free_space_split_all [of p ?g] by simp
    moreover have "free_cells ?ys = free_set L c - cells ?g" using fc dis by blast
    ultimately show ?thesis using inv1 fs1 fc best True
      by (intro exI [of _ ?g] exI [of _ "c\<lparr>free_chunks := v1\<rparr>"]) auto
  next
    case False
    let ?f = "FreeSpace (relative_beginning ?g) ?m"
    let ?r = "FreeSpace (RelativeBeginning (fs_begin ?g + ?m)) (fs_count ?g - ?m)"
    have lt: "?m < fs_count ?g" "fs_end ?g < usize_bound" using False g wf i(3) by (auto simp: well_formed_Cons)
    have split: "cells ?g = cells ?f \<union> cells ?r" "cells ?f \<inter> cells ?r = {}" using lt(1) by auto
    have r: "0 < fs_count ?r" "fs_end ?r \<le> n" "cells ?r \<inter> free_set L (c\<lparr>free_chunks := v1\<rparr>) = {}"
      using lt wf dis split fs1 by (auto simp: well_formed_Cons)
    obtain c' where c': "insert_chunk_and_merge p L (c\<lparr>free_chunks := v1\<rparr>) ?r = Done c'" "chunks_inv L n c'"
      "free_set L c' = cells ?r \<union> free_cells ?ys"
      using insert_chunk_and_merge_ok [OF inv1 r] fs1 by metis
    have "chunks_get p L c sz = Done (Some ?f, c')"
      using get free_space_split_part [OF lt] c'(1) by simp
    moreover have "free_set L c' = free_set L c - cells ?f" "cells ?f \<subseteq> free_set L c"
      using c'(3) fc dis split by blast+
    ultimately show ?thesis using c'(2) best
      by (intro exI [of _ ?f] exI [of _ c'] conjI exI [of _ ?g]) simp_all
  qed
qed

section \<open>Giving space back\<close>

lemma chunks_return_back_ok:
  assumes inv: "chunks_inv L n c" and sz: "0 < sz" "sz < usize_bound"
    and r: "b + chunks_of sz \<le> n" "{b ..< b + chunks_of sz} \<inter> free_set L c = {}"
  shows "\<exists>c'. chunks_return_back p L c (b * CHUNK_SIZE) sz = Done c' \<and> chunks_inv L n c' \<and>
    free_set L c' = free_set L c \<union> {b ..< b + chunks_of sz}"
proof -
  let ?f = "FreeSpace (RelativeBeginning b) (chunks_of sz)"
  have "chunks_return_back p L c (b * CHUNK_SIZE) sz = insert_chunk_and_merge p L c ?f"
    using sz by (simp add: chunks_return_back_def required_chunks_eq rb_from_bytes_def CHUNK_SIZE_8)
  moreover have "cells ?f = {b ..< b + chunks_of sz}" by (simp add: cells_def)
  moreover obtain c' where "insert_chunk_and_merge p L c ?f = Done c'" "chunks_inv L n c'"
    "free_set L c' = cells ?f \<union> free_set L c"
    using insert_chunk_and_merge_ok [OF inv, of ?f p] r sz by (auto simp: cells_def)
  ultimately show ?thesis by (simp add: Un_commute)
qed

lemma chunks_return_back_unaligned:
  "shift mod CHUNK_SIZE \<noteq> 0 \<Longrightarrow> sz < usize_bound \<Longrightarrow>
     chunks_return_back p L c shift sz = Panicked Assertion_failed"
  by (simp add: chunks_return_back_def required_chunks_eq)

section \<open>The test-only observers\<close>

lemma chunks_self_check_ok:
  assumes "chunks_inv L n c"
  shows "chunks_self_check p L c = Done ()"
proof -
  let ?xs = "vec_slice L (free_chunks c)"
  have s: "sorted ?xs" and wf: "well_formed n ?xs" "n < usize_bound"
    using assms by (simp_all add: chunks_inv_def fsv_inv_def)
  have "\<forall>i \<in> set [0 ..< length ?xs - 1]. assert_exec (fs_count (?xs ! i) \<le> fs_count (?xs ! (i + 1))) = Done ()"
    using s by (auto simp: assert_exec_def intro!: fs_count_mono sorted_nth_mono)
  moreover have "exec_bind (assert_exec (?xs ! i \<noteq> ?xs ! j)) (\<lambda>_.
      exec_bind (are_contiguous p (?xs ! i) (?xs ! j)) (\<lambda>b. assert_exec (\<not> b))) = Done ()"
    if "i < j" "j < length ?xs" for i j
  proof -
    have ne: "?xs ! i \<noteq> ?xs ! j"
      using wf(1) that by (simp add: well_formed_def nth_eq_iff_index_eq)
    then have "apart (?xs ! i) (?xs ! j)"
      using wf(1) that by (simp add: well_formed_def pairwise_def)
    then have "fs_end (?xs ! i) \<noteq> fs_begin (?xs ! j)" by (auto simp: apart_def)
    moreover have "?xs ! i \<in> set ?xs" using that by simp
    then have "fs_end (?xs ! i) \<le> n" using wf(1) unfolding well_formed_def by blast
    then have "fs_end (?xs ! i) < usize_bound" using wf(2) by simp
    ultimately show ?thesis using ne by (simp add: assert_exec_def)
  qed
  ultimately show ?thesis
    by (simp add: chunks_self_check_def Let_def exec_fold_unit)
qed

lemma chunks_free_space_eq:
  assumes "chunks_inv L n c" "n * CHUNK_SIZE < usize_bound"
  obtains m where "chunks_free_space p L c = Done (m * CHUNK_SIZE)"
    "\<forall>f \<in> set (vec_slice L (free_chunks c)). fs_count f \<le> m"
    "0 < m \<Longrightarrow> \<exists>f \<in> set (vec_slice L (free_chunks c)). fs_count f = m"
proof -
  let ?xs = "vec_slice L (free_chunks c)"
  have s: "sorted ?xs" and wf: "well_formed n ?xs"
    using assms by (simp_all add: chunks_inv_def fsv_inv_def)
  show thesis
  proof (cases "?xs = []")
    case True
    then show thesis by (intro that [of 0]) (simp_all add: chunks_free_space_def CHUNK_SIZE_8 usize_bound_def)
  next
    case False
    then have "fs_count (last ?xs) \<le> n" using wf by (auto simp: well_formed_def dest!: bspec [OF _ last_in_set])
    then have "fs_count (last ?xs) * CHUNK_SIZE < usize_bound"
      using assms(2) by (meson le_less_trans mult_le_mono1)
    moreover have "\<forall>f \<in> set ?xs. f \<le> last ?xs"
      using s False by (metis append_butlast_last_id in_set_conv_decomp sorted_append order.refl last_snoc
          in_set_butlastD list.set_intros(1) rotate1.simps(2) set_rotate1 set_ConsD)
    ultimately show thesis using False
      by (intro that [of "fs_count (last ?xs)"]) (auto simp: chunks_free_space_def fs_count_mono)
  qed
qed

section \<open>The contract of the manager\<close>

text \<open>
  What a user of the manager sees: a set of free chunks of which \<open>get\<close> hands out intervals and
  to which \<open>give\<close> returns them; \<open>contents\<close> is the concrete free list.
\<close>

locale space_manager =
  fixes contents :: "'s \<Rightarrow> free_space list"
    and free :: "'s \<Rightarrow> nat set"
    and invar :: "'s \<Rightarrow> bool"
    and limit :: nat
    and get :: "'s \<Rightarrow> nat \<Rightarrow> (free_space option \<times> 's) exec"
    and give :: "'s \<Rightarrow> nat \<Rightarrow> nat \<Rightarrow> 's exec"
  assumes free_limit: "invar s \<Longrightarrow> free s \<subseteq> {0 ..< limit}"
    and canonical: "invar s \<Longrightarrow> invar s' \<Longrightarrow> free s = free s' \<Longrightarrow> contents s = contents s'"
    and get_none: "invar s \<Longrightarrow> 0 < sz \<Longrightarrow> sz < usize_bound \<Longrightarrow>
      \<forall>b. \<not> {b ..< b + chunks_of sz} \<subseteq> free s \<Longrightarrow> get s sz = Done (None, s)"
    and get_some: "invar s \<Longrightarrow> 0 < sz \<Longrightarrow> sz < usize_bound \<Longrightarrow> {b ..< b + chunks_of sz} \<subseteq> free s \<Longrightarrow>
      \<exists>f s'. get s sz = Done (Some f, s') \<and> invar s' \<and> fs_count f = chunks_of sz \<and>
        cells f \<subseteq> free s \<and> free s' = free s - cells f"
    and give_law: "invar s \<Longrightarrow> 0 < sz \<Longrightarrow> sz < usize_bound \<Longrightarrow> b + chunks_of sz \<le> limit \<Longrightarrow>
      {b ..< b + chunks_of sz} \<inter> free s = {} \<Longrightarrow>
      \<exists>s'. give s (b * CHUNK_SIZE) sz = Done s' \<and> invar s' \<and> free s' = free s \<union> {b ..< b + chunks_of sz}"
begin

lemma get_total:
  assumes "invar s" "0 < sz" "sz < usize_bound"
  obtains (full) "get s sz = Done (None, s)" "\<forall>b. \<not> {b ..< b + chunks_of sz} \<subseteq> free s"
  | (taken) f s' where "get s sz = Done (Some f, s')" "invar s'" "fs_count f = chunks_of sz"
    "cells f \<subseteq> free s" "free s' = free s - cells f"
proof (cases "\<exists>b. {b ..< b + chunks_of sz} \<subseteq> free s")
  case True
  with get_some [OF assms] show thesis by (blast intro: taken)
next
  case False
  with get_none [OF assms] show thesis by (blast intro: full)
qed

lemma get_in_range:
  assumes "invar s" "0 < sz" "sz < usize_bound" "get s sz = Done (Some f, s')"
  shows "invar s'" "fs_count f = chunks_of sz" "fs_end f \<le> limit" "cells f \<subseteq> free s" "free s' = free s - cells f"
proof -
  show 1: "invar s'" "fs_count f = chunks_of sz" "cells f \<subseteq> free s" "free s' = free s - cells f"
    by (rule get_total [OF assms(1-3)]; use assms(4) in simp)+
  have "0 < chunks_of sz" using assms(2) by simp
  then have "fs_end f - 1 \<in> cells f" unfolding mem_cells 1(2) by linarith
  then have "fs_end f - 1 \<in> {0 ..< limit}" using 1(3) free_limit [OF assms(1)] by blast
  then show "fs_end f \<le> limit" by simp
qed

text \<open>Returning what was just taken restores the free list itself, not only the free set.\<close>

lemma get_give:
  assumes "invar s" "0 < sz" "sz < usize_bound" "get s sz = Done (Some f, s')"
  shows "\<exists>s''. give s' (fs_begin f * CHUNK_SIZE) sz = Done s'' \<and> invar s'' \<and> contents s'' = contents s"
proof -
  note g = get_in_range [OF assms]
  have c: "cells f = {fs_begin f ..< fs_begin f + chunks_of sz}" using g(2) by (simp add: cells_def)
  obtain s'' where s'': "give s' (fs_begin f * CHUNK_SIZE) sz = Done s''" "invar s''" "free s'' = free s' \<union> cells f"
    using give_law [OF g(1) assms(2,3), of "fs_begin f"] g c by fastforce
  then have "free s'' = free s" using g(4,5) by blast
  with s'' assms(1) show ?thesis using canonical by blast
qed

lemma two_gets_disjoint:
  assumes "invar s" "0 < sz1" "sz1 < usize_bound" "0 < sz2" "sz2 < usize_bound"
    and "get s sz1 = Done (Some f1, s1)" "get s1 sz2 = Done (Some f2, s2)"
  shows "cells f1 \<inter> cells f2 = {}"
  using get_in_range [OF assms(1-3,6)] get_in_range(4) [OF _ assms(4,5,7)] by blast

end

interpretation cm: space_manager "\<lambda>c. vec_slice L (free_chunks c)" "free_set L" "chunks_inv L n" n
  "chunks_get p L" "chunks_return_back p L"
  for L :: "(free_space, 'v, 'e) vec_lib" and n p
proof unfold_locales
  fix c c' sz b
  show "chunks_inv L n c \<Longrightarrow> free_set L c \<subseteq> {0 ..< n}"
    by (simp add: chunks_inv_def free_set_def well_formed_bounds)
  show "chunks_inv L n c \<Longrightarrow> chunks_inv L n c' \<Longrightarrow> free_set L c = free_set L c' \<Longrightarrow>
      vec_slice L (free_chunks c) = vec_slice L (free_chunks c')"
    by (auto simp: chunks_inv_def free_set_def fsv_inv_def intro: free_list_canonical)
  show "chunks_inv L n c \<Longrightarrow> 0 < sz \<Longrightarrow> sz < usize_bound \<Longrightarrow>
      \<forall>b. \<not> {b ..< b + chunks_of sz} \<subseteq> free_set L c \<Longrightarrow> chunks_get p L c sz = Done (None, c)"
    by (rule chunks_get_none)
  show "chunks_inv L n c \<Longrightarrow> 0 < sz \<Longrightarrow> sz < usize_bound \<Longrightarrow> {b ..< b + chunks_of sz} \<subseteq> free_set L c \<Longrightarrow>
      \<exists>f c'. chunks_get p L c sz = Done (Some f, c') \<and> chunks_inv L n c' \<and> fs_count f = chunks_of sz \<and>
        cells f \<subseteq> free_set L c \<and> free_set L c' = free_set L c - cells f"
    using chunks_get_some by blast
  show "chunks_inv L n c \<Longrightarrow> 0 < sz \<Longrightarrow> sz < usize_bound \<Longrightarrow> b + chunks_of sz \<le> n \<Longrightarrow>
      {b ..< b + chunks_of sz} \<inter> free_set L c = {} \<Longrightarrow>
      \<exists>c'. chunks_return_back p L c (b * CHUNK_SIZE) sz = Done c' \<and> chunks_inv L n c' \<and>
        free_set L c' = free_set L c \<union> {b ..< b + chunks_of sz}"
    by (rule chunks_return_back_ok)
qed

end
