(* ===== verification/Unix_Time.thy ===== *)
theory Unix_Time
  imports Prelude
begin

text \<open>
  \<open>src/time.rs\<close>: the absolute deadlines handed to the pthread calls. \<open>UnixClock\<close> is a libc
  \<open>timespec\<close> (two \<open>i64\<close>, kept at their width), with addition and subtraction of a
  \<open>Duration\<close>, the conversion of an \<open>Instant\<close> and the comparison.
  \<open>clock_gettime\<close> is a parameter (its return code, the structure it fills, \<open>errno\<close>); an
  \<open>Instant\<close> is a reading of the monotonic clock in nanoseconds.
  The lemmas compare every operation with exact arithmetic on nanoseconds (\<open>total_ns\<close>), also
  where the code deviates from it: \<open>sub\<close> is exact only when no borrow is needed.
\<close>

section \<open>Signed 64-bit arithmetic\<close>

definition in_i64 :: "int \<Rightarrow> bool" where
  "in_i64 x \<longleftrightarrow> - (2 ^ 63) \<le> x \<and> x < 2 ^ 63"

definition wrap_i64 :: "int \<Rightarrow> int" where
  "wrap_i64 x = (x + 2 ^ 63) mod 2 ^ 64 - 2 ^ 63"

definition i64_result :: "profile \<Rightarrow> int \<Rightarrow> int exec" where
  "i64_result p x =
     (if in_i64 x then Done x
      else if overflow_checks p then Panicked Arithmetic_overflow else Done (wrap_i64 x))"

definition i64_add :: "profile \<Rightarrow> int \<Rightarrow> int \<Rightarrow> int exec" where
  "i64_add p a b = i64_result p (a + b)"

definition i64_sub :: "profile \<Rightarrow> int \<Rightarrow> int \<Rightarrow> int exec" where
  "i64_sub p a b = i64_result p (a - b)"

text \<open>\<open>i64::try_from(u128)\<close> and \<open>as i64\<close>.\<close>

definition i64_try_from :: "nat \<Rightarrow> int option" where
  "i64_try_from n = (if n < 2 ^ 63 then Some (int n) else None)"

definition as_i64 :: "nat \<Rightarrow> int" where
  "as_i64 n = wrap_i64 (int n)"

definition i64_cmp :: "int \<Rightarrow> int \<Rightarrow> ordering" where
  "i64_cmp a b = (if a < b then Less else if a = b then Equal else Greater)"

lemma i64_ops [simp]:
  "in_i64 (a + b) \<Longrightarrow> i64_add p a b = Done (a + b)"
  "in_i64 (a - b) \<Longrightarrow> i64_sub p a b = Done (a - b)"
  by (simp_all add: i64_add_def i64_sub_def i64_result_def)

lemma wrap_i64_id: "in_i64 x \<Longrightarrow> wrap_i64 x = x"
  by (simp add: wrap_i64_def in_i64_def)

section \<open>Durations, instants and timespecs\<close>

abbreviation giga :: nat where
  "giga \<equiv> 1000000000"

record duration =
  dur_secs :: nat
  dur_nanos :: nat

definition as_nanos :: "duration \<Rightarrow> nat" where
  "as_nanos d = dur_secs d * giga + dur_nanos d"

definition duration_of_nanos :: "nat \<Rightarrow> duration" where
  "duration_of_nanos n = \<lparr>dur_secs = n div giga, dur_nanos = n mod giga\<rparr>"

lemma as_nanos_of_nanos [simp]: "as_nanos (duration_of_nanos n) = n"
  by (simp add: as_nanos_def duration_of_nanos_def)

type_synonym instant = nat

definition checked_duration_since :: "instant \<Rightarrow> instant \<Rightarrow> duration option" where
  "checked_duration_since self earlier =
     (if earlier \<le> self then Some (duration_of_nanos (self - earlier)) else None)"

record timespec =
  tv_sec :: int
  tv_nsec :: int

type_synonym unix_clock = timespec

datatype clock_id = CLOCK_MONOTONIC | CLOCK_REALTIME

section \<open>UnixClock\<close>

text \<open>\<open>clock_gettime\<close> yields its return code, the filled structure and \<open>errno\<close>.\<close>

type_synonym gettime = "clock_id \<Rightarrow> int \<times> timespec \<times> int"

definition with_clock_id :: "gettime \<Rightarrow> clock_id \<Rightarrow> unix_clock exec" where
  "with_clock_id gettime clock =
     (case gettime clock of (res, ts, errno) \<Rightarrow>
        if res = -1 then Panicked (Os_failure errno) else Done ts)"

definition unix_monotonic :: "gettime \<Rightarrow> unix_clock exec" where
  "unix_monotonic gettime = with_clock_id gettime CLOCK_MONOTONIC"

definition unix_realtime :: "gettime \<Rightarrow> unix_clock exec" where
  "unix_realtime gettime = with_clock_id gettime CLOCK_REALTIME"

definition unix_add :: "profile \<Rightarrow> unix_clock \<Rightarrow> duration \<Rightarrow> unix_clock exec" where
  "unix_add p self d =
     (let seconds = tv_sec self; nanos = tv_nsec self in
      exec_bind (debug_assert p (0 \<le> seconds \<and> 0 \<le> nanos)) (\<lambda>_.
        let n = as_nanos d; secs = n div giga; add_nanos = as_i64 (n - secs * giga) in
        exec_bind (expect (i64_try_from secs)) (\<lambda>add_secs.
        exec_bind (i64_add p nanos add_nanos) (\<lambda>sum.
          if int giga \<le> sum then
            exec_bind (i64_add p add_secs 1) (\<lambda>carry.
            exec_bind (i64_add p seconds carry) (\<lambda>seconds'.
            exec_bind (i64_add p nanos add_nanos) (\<lambda>nanos'.
            exec_bind (i64_sub p nanos' (int giga)) (\<lambda>nanos''.
              Done \<lparr>tv_sec = seconds', tv_nsec = nanos''\<rparr>))))
          else
            exec_bind (i64_add p seconds add_secs) (\<lambda>seconds'.
            exec_bind (i64_add p nanos add_nanos) (\<lambda>nanos'.
              Done \<lparr>tv_sec = seconds', tv_nsec = nanos'\<rparr>))))))"

definition unix_sub :: "profile \<Rightarrow> unix_clock \<Rightarrow> duration \<Rightarrow> unix_clock exec" where
  "unix_sub p self d =
     (let seconds = tv_sec self; nanos = tv_nsec self in
      exec_bind (debug_assert p (0 \<le> seconds \<and> 0 \<le> nanos)) (\<lambda>_.
        let n = as_nanos d; secs = n div giga; sub_nanos = as_i64 (n - secs * giga) in
        exec_bind (expect (i64_try_from secs)) (\<lambda>sub_secs.
        exec_bind
          (if nanos \<le> sub_nanos then
             exec_bind (i64_sub p seconds 1) (\<lambda>seconds'.
             exec_bind (i64_sub p (int giga) sub_nanos) (\<lambda>sub_nanos'. Done (seconds', sub_nanos')))
           else Done (seconds, sub_nanos))
          (\<lambda>(seconds, sub_nanos).
            exec_bind (i64_sub p seconds sub_secs) (\<lambda>seconds'.
            exec_bind (i64_sub p nanos sub_nanos) (\<lambda>nanos'.
              Done \<lparr>tv_sec = seconds', tv_nsec = nanos'\<rparr>))))))"

text \<open>\<open>From<Instant>\<close>: \<open>std_now\<close> is what \<open>Instant::now()\<close> returns in the call.\<close>

definition unix_from_instant :: "profile \<Rightarrow> gettime \<Rightarrow> instant \<Rightarrow> instant \<Rightarrow> unix_clock exec" where
  "unix_from_instant p gettime std_now value =
     exec_bind (unix_monotonic gettime) (\<lambda>monotonic_now.
       case checked_duration_since value std_now of
         Some d \<Rightarrow> unix_add p monotonic_now d
       | None \<Rightarrow>
           exec_bind (expect (checked_duration_since std_now value)) (\<lambda>d. unix_sub p monotonic_now d))"

definition unix_cmp :: "unix_clock \<Rightarrow> unix_clock \<Rightarrow> ordering" where
  "unix_cmp a b = then_with (i64_cmp (tv_sec a) (tv_sec b)) (i64_cmp (tv_nsec a) (tv_nsec b))"

section \<open>Exact arithmetic\<close>

definition total_ns :: "timespec \<Rightarrow> int" where
  "total_ns t = tv_sec t * int giga + tv_nsec t"

text \<open>What POSIX accepts as a \<open>timespec\<close>, and what the clocks return.\<close>

definition valid_nsec :: "timespec \<Rightarrow> bool" where
  "valid_nsec t \<longleftrightarrow> 0 \<le> tv_nsec t \<and> tv_nsec t < int giga"

definition valid_timespec :: "timespec \<Rightarrow> bool" where
  "valid_timespec t \<longleftrightarrow> 0 \<le> tv_sec t \<and> tv_sec t < 2 ^ 63 \<and> valid_nsec t"

lemma sub_second_part:
  "n - n div giga * giga = n mod giga" "as_i64 (n mod giga) = int (n mod giga)"
proof -
  show "n - n div giga * giga = n mod giga" by (simp add: minus_div_mult_eq_mod)
  have "in_i64 (int (n mod giga))" by (simp add: in_i64_def)
  then show "as_i64 (n mod giga) = int (n mod giga)" by (simp add: as_i64_def wrap_i64_id)
qed

lemma debug_assert_valid [simp]: "valid_timespec t \<Longrightarrow> debug_assert p (0 \<le> tv_sec t \<and> 0 \<le> tv_nsec t) = Done ()"
  by (simp add: valid_timespec_def valid_nsec_def)

text \<open>\<open>total_ns\<close> of a sum or difference, in seconds and a rest below one second.\<close>

lemma total_ns_split: "int (as_nanos d) = int (as_nanos d div giga) * int giga + int (as_nanos d mod giga)"
  by (simp add: zdiv_int zmod_int)

lemma unix_add_exact:
  assumes t: "valid_timespec t" and fits: "tv_sec t + int (as_nanos d div giga) + 1 < 2 ^ 63"
  shows "\<exists>t'. unix_add p t d = Done t' \<and> valid_timespec t' \<and> total_ns t' = total_ns t + int (as_nanos d)"
proof -
  let ?s = "as_nanos d div giga" and ?n = "as_nanos d mod giga"
  have b: "0 \<le> tv_sec t" "0 \<le> tv_nsec t" "tv_nsec t < int giga"
    using t by (simp_all add: valid_timespec_def valid_nsec_def)
  have n: "int ?n < int giga" by simp
  have conv: "i64_try_from ?s = Some (int ?s)" using b fits by (simp add: i64_try_from_def)
  have i64: "in_i64 (tv_nsec t + int ?n)" "in_i64 (int ?s + 1)" "in_i64 (tv_sec t + (int ?s + 1))"
    "in_i64 (tv_sec t + int ?s)" "in_i64 (tv_nsec t + int ?n - int giga)"
    using b n fits by (simp_all add: in_i64_def)
  show ?thesis
  proof (cases "int giga \<le> tv_nsec t + int ?n")
    case True
    let ?t = "\<lparr>tv_sec = tv_sec t + (int ?s + 1), tv_nsec = tv_nsec t + int ?n - int giga\<rparr>"
    have "unix_add p t d = Done ?t"
      using t True i64 conv by (simp add: unix_add_def Let_def sub_second_part del: of_nat_numeral)
    moreover have "valid_timespec ?t" using b n True fits by (simp add: valid_timespec_def valid_nsec_def)
    ultimately show ?thesis by (simp add: total_ns_def total_ns_split [of d])
  next
    case False
    let ?t = "\<lparr>tv_sec = tv_sec t + int ?s, tv_nsec = tv_nsec t + int ?n\<rparr>"
    have "unix_add p t d = Done ?t"
      using t False i64 conv by (simp add: unix_add_def Let_def sub_second_part del: of_nat_numeral)
    moreover have "valid_timespec ?t" using b n False fits by (simp add: valid_timespec_def valid_nsec_def)
    ultimately show ?thesis by (simp add: total_ns_def total_ns_split [of d])
  qed
qed

lemma unix_add_too_large:
  assumes "valid_timespec t" "2 ^ 63 \<le> as_nanos d div giga"
  shows "unix_add p t d = Panicked Expect_failed"
  using assms by (simp add: unix_add_def Let_def i64_try_from_def)

section \<open>Subtraction\<close>

text \<open>Without a borrow the difference is exact.\<close>

lemma unix_sub_no_borrow:
  assumes t: "valid_timespec t" and fits: "as_nanos d div giga < 2 ^ 63"
    and nb: "int (as_nanos d mod giga) < tv_nsec t"
  shows "\<exists>t'. unix_sub p t d = Done t' \<and> valid_nsec t' \<and> total_ns t' = total_ns t - int (as_nanos d)"
proof -
  let ?s = "as_nanos d div giga" and ?n = "as_nanos d mod giga"
  let ?t = "\<lparr>tv_sec = tv_sec t - int ?s, tv_nsec = tv_nsec t - int ?n\<rparr>"
  have b: "0 \<le> tv_sec t" "tv_sec t < 2 ^ 63" "0 \<le> tv_nsec t" "tv_nsec t < int giga"
    using t by (simp_all add: valid_timespec_def valid_nsec_def)
  have n: "0 \<le> int ?n" "int ?s < 2 ^ 63" using fits by simp_all
  have conv: "i64_try_from ?s = Some (int ?s)" using fits by (simp add: i64_try_from_def)
  have i64: "in_i64 (tv_sec t - int ?s)" "in_i64 (tv_nsec t - int ?n)"
    using b n nb by (simp_all add: in_i64_def)
  have "unix_sub p t d = Done ?t"
    using b i64 conv nb by (simp add: unix_sub_def Let_def sub_second_part del: of_nat_numeral)
  moreover have "valid_nsec ?t" using b n nb by (simp add: valid_nsec_def)
  ultimately show ?thesis by (simp add: total_ns_def total_ns_split [of d])
qed

text \<open>
  With a borrow the code complements the subtrahend (\<open>10^9 - sub_nanos\<close>) but then subtracts it,
  where the borrow would have to be added: the result is too small by twice the complement,
  and its nanoseconds are negative unless the two parts add up to a second.
\<close>

lemma unix_sub_borrow:
  assumes t: "valid_timespec t" and fits: "as_nanos d div giga < 2 ^ 63"
    and borrow: "tv_nsec t \<le> int (as_nanos d mod giga)"
  shows "\<exists>t'. unix_sub p t d = Done t' \<and>
    total_ns t' = total_ns t - int (as_nanos d) - 2 * (int giga - int (as_nanos d mod giga)) \<and>
    (valid_nsec t' \<longleftrightarrow> int giga \<le> tv_nsec t + int (as_nanos d mod giga))"
proof -
  let ?s = "as_nanos d div giga" and ?n = "as_nanos d mod giga"
  let ?t = "\<lparr>tv_sec = tv_sec t - 1 - int ?s, tv_nsec = tv_nsec t - (int giga - int ?n)\<rparr>"
  have b: "0 \<le> tv_sec t" "tv_sec t < 2 ^ 63" "0 \<le> tv_nsec t" "tv_nsec t < int giga"
    using t by (simp_all add: valid_timespec_def valid_nsec_def)
  have n: "0 \<le> int ?n" "int ?n < int giga" "int ?s < 2 ^ 63" using fits by simp_all
  have conv: "i64_try_from ?s = Some (int ?s)" using fits by (simp add: i64_try_from_def)
  have i64: "in_i64 (tv_sec t - 1)" "in_i64 (int giga - int ?n)" "in_i64 (tv_sec t - 1 - int ?s)"
    "in_i64 (tv_nsec t - (int giga - int ?n))"
    using b n by (simp_all add: in_i64_def)
  have "unix_sub p t d = Done ?t"
    using b i64 conv borrow by (simp add: unix_sub_def Let_def sub_second_part del: of_nat_numeral)
  moreover have "valid_nsec ?t \<longleftrightarrow> int giga \<le> tv_nsec t + int ?n"
    using b n by (auto simp: valid_nsec_def)
  ultimately show ?thesis by (simp add: total_ns_def total_ns_split [of d])
qed

section \<open>Comparison and conversion\<close>

lemma unix_cmp_total:
  assumes "valid_nsec a" "valid_nsec b"
  shows "unix_cmp a b = i64_cmp (total_ns a) (total_ns b)" and "unix_cmp a b = Equal \<longleftrightarrow> a = b"
proof -
  have *: "total_ns a < total_ns b \<longleftrightarrow> tv_sec a < tv_sec b \<or> tv_sec a = tv_sec b \<and> tv_nsec a < tv_nsec b"
    if "valid_nsec a" "valid_nsec b" for a b
  proof (cases "tv_sec a" "tv_sec b" rule: linorder_cases)
    case less
    then have "tv_sec a + 1 \<le> tv_sec b" by simp
    then have "(tv_sec a + 1) * int giga \<le> tv_sec b * int giga" by (rule mult_right_mono) simp
    then have "total_ns a < total_ns b" using that by (simp add: total_ns_def valid_nsec_def)
    with less show ?thesis by simp
  next
    case equal
    then show ?thesis by (simp add: total_ns_def)
  next
    case greater
    then have "tv_sec b + 1 \<le> tv_sec a" by simp
    then have "(tv_sec b + 1) * int giga \<le> tv_sec a * int giga" by (rule mult_right_mono) simp
    then have "total_ns b < total_ns a" using that by (simp add: total_ns_def valid_nsec_def)
    with greater show ?thesis by simp
  qed
  show "unix_cmp a b = i64_cmp (total_ns a) (total_ns b)"
  proof (cases "total_ns a" "total_ns b" rule: linorder_cases)
    case less
    with *[OF assms] have "tv_sec a < tv_sec b \<or> tv_sec a = tv_sec b \<and> tv_nsec a < tv_nsec b" by blast
    with less show ?thesis by (auto simp: unix_cmp_def i64_cmp_def then_with_def)
  next
    case equal
    then have "\<not> total_ns a < total_ns b" "\<not> total_ns b < total_ns a" by simp_all
    with *[OF assms] *[OF assms(2,1)] have "tv_sec a = tv_sec b" "tv_nsec a = tv_nsec b" by linarith+
    with equal show ?thesis by (simp add: unix_cmp_def i64_cmp_def then_with_def)
  next
    case greater
    with *[OF assms(2,1)] have "tv_sec b < tv_sec a \<or> tv_sec b = tv_sec a \<and> tv_nsec b < tv_nsec a" by blast
    with greater show ?thesis by (auto simp: unix_cmp_def i64_cmp_def then_with_def)
  qed
  show "unix_cmp a b = Equal \<longleftrightarrow> a = b"
    by (auto simp: unix_cmp_def i64_cmp_def then_with_def)
qed

lemma unix_from_future:
  assumes "unix_monotonic gettime = Done now" "valid_timespec now" "std_now \<le> value"
    and "tv_sec now + int ((value - std_now) div giga) + 1 < 2 ^ 63"
  shows "\<exists>t. unix_from_instant p gettime std_now value = Done t \<and> valid_timespec t \<and>
    total_ns t = total_ns now + (int value - int std_now)"
  using unix_add_exact [OF assms(2), of "duration_of_nanos (value - std_now)" p] assms
  by (simp add: unix_from_instant_def checked_duration_since_def)

lemma unix_from_past:
  assumes "unix_monotonic gettime = Done now" "value < std_now"
  shows "unix_from_instant p gettime std_now value = unix_sub p now (duration_of_nanos (std_now - value))"
  using assms by (simp add: unix_from_instant_def checked_duration_since_def)

section \<open>Kinds of panics\<close>

text \<open>None of this code asserts anything: its panics are overflows, failed \<open>expect\<close>s and failed calls.\<close>

definition asserts :: "'a exec \<Rightarrow> bool" where
  "asserts e \<longleftrightarrow> e = Panicked Assertion_failed"

lemma asserts_simps [simp]:
  "\<not> asserts (Done x)" "asserts (Panicked q) \<longleftrightarrow> q = Assertion_failed"
  by (simp_all add: asserts_def)

lemma asserts_bind [simp]: "asserts (exec_bind m f) \<longleftrightarrow> asserts m \<or> (\<exists>x. m = Done x \<and> asserts (f x))"
  by (cases m) (auto simp: asserts_def)

lemma asserts_primitives [simp]:
  "\<not> asserts (debug_assert p b)" "\<not> asserts (expect r)" "\<not> asserts (i64_add p x y)" "\<not> asserts (i64_sub p x y)"
  by (auto simp: asserts_def debug_assert_def expect_def i64_add_def i64_sub_def i64_result_def split: option.split)

lemma clock_never_asserts:
  "\<not> asserts (unix_monotonic g)" "\<not> asserts (unix_realtime g)" "\<not> asserts (unix_add p t d)" "\<not> asserts (unix_sub p t d)"
  by (auto simp: unix_monotonic_def unix_realtime_def with_clock_id_def unix_add_def unix_sub_def Let_def split: prod.splits)

lemma unix_from_never_asserts: "\<not> asserts (unix_from_instant p g now target)"
  by (auto simp: unix_from_instant_def clock_never_asserts Let_def split: option.splits)

end
