(* ===== verification/Program.thy ===== *)
theory Program
  imports Unix_Time
begin

text \<open>
  Code that blocks, reads the clock or touches memory shared with other threads and processes.
  Such code is a \<open>prog\<close>: a tree of the calls it makes, each with a continuation for every
  answer, so that the caller's environment stays a parameter. A node is one atomic interaction:
  a call into pthread (answered by its return code), a clock reading, a process id, an access to
  the data a \<open>Mutex<T>\<close> protects (type \<open>'d\<close>), an access to atomic variables (type \<open>'s\<close>).
  \<open>Loop b n\<close> is Rust's \<open>loop { b }\<close> with one local variable \<open>n\<close> that lives across the rounds:
  \<open>Continue m\<close> inside \<open>b n\<close> starts the next round with \<open>m\<close>, and leaving the loop is going on
  with the code after it, which is part of \<open>b\<close>. \<open>Weak\<close> asks whether a weak compare-and-exchange
  fails although the values agree.
  The functions of the source are written in continuation-passing style over these nodes.

  \<open>pstep\<close> is the labelled transition of one thread under arbitrary answers, \<open>feed\<close> a run of
  it; \<open>solo\<close> is the run of one thread in a fixed environment where nothing else writes.
\<close>

section \<open>Calls and programs\<close>

text \<open>Attribute objects of the pthread library, as far as the crate sets them.\<close>

record mutex_attr =
  ma_pshared :: bool

record cond_attr =
  ca_pshared :: bool
  ca_clock :: clock_id

type_synonym cond_id = nat

datatype pcall =
    Mutexattr_init | Mutexattr_setpshared | Mutexattr_destroy
  | Pmutex_init mutex_attr | Pmutex_lock | Pmutex_trylock | Pmutex_timedlock timespec
  | Pmutex_unlock | Pmutex_destroy
  | Condattr_init | Condattr_setpshared | Condattr_setclock clock_id | Condattr_destroy
  | Pcond_init cond_attr | Pcond_signal cond_id | Pcond_broadcast cond_id
  | Pcond_wait cond_id | Pcond_timedwait cond_id timespec | Pcond_destroy cond_id

text \<open>The two error codes the source compares with (Linux values in the \<open>libc\<close> crate).\<close>

definition EBUSY :: int where
  "EBUSY = 16"

definition ETIMEDOUT :: int where
  "ETIMEDOUT = 110"

datatype ('d, 's, 'r) prog =
    Return 'r
  | Panic panic
  | Continue nat
  | Loop "nat \<Rightarrow> ('d, 's, 'r) prog" nat
  | Weak "bool \<Rightarrow> ('d, 's, 'r) prog"
  | Access "'d \<Rightarrow> 'd" "'d \<Rightarrow> ('d, 's, 'r) prog"
  | Exclusive "'d \<Rightarrow> 'd" "'d \<Rightarrow> ('d, 's, 'r) prog"
  | Atomic "'s \<Rightarrow> 's" "'s \<Rightarrow> ('d, 's, 'r) prog"
  | Pthread pcall "int \<Rightarrow> ('d, 's, 'r) prog"
  | Gettime clock_id "int \<times> timespec \<times> int \<Rightarrow> ('d, 's, 'r) prog"
  | Instant_now "instant \<Rightarrow> ('d, 's, 'r) prog"
  | Getpid "int \<Rightarrow> ('d, 's, 'r) prog"

text \<open>
  \<open>Access u k\<close> is an access through a lock guard, \<open>Exclusive u k\<close> one through \<open>&mut self\<close>
  (in a destructor): the data becomes \<open>u d\<close> and the code goes on as \<open>k d\<close>.
\<close>

primrec plug :: "('d, 's, 'r) prog \<Rightarrow> (nat \<Rightarrow> ('d, 's, 'r) prog) \<Rightarrow> ('d, 's, 'r) prog" where
  "plug (Return r) q = Return r"
| "plug (Panic e) q = Panic e"
| "plug (Continue m) q = q m"
| "plug (Loop b n) q = Loop b n"
| "plug (Weak k) q = Weak (\<lambda>b. plug (k b) q)"
| "plug (Access u k) q = Access u (\<lambda>d. plug (k d) q)"
| "plug (Exclusive u k) q = Exclusive u (\<lambda>d. plug (k d) q)"
| "plug (Atomic u k) q = Atomic u (\<lambda>s. plug (k s) q)"
| "plug (Pthread c k) q = Pthread c (\<lambda>e. plug (k e) q)"
| "plug (Gettime c k) q = Gettime c (\<lambda>r. plug (k r) q)"
| "plug (Instant_now k) q = Instant_now (\<lambda>i. plug (k i) q)"
| "plug (Getpid k) q = Getpid (\<lambda>i. plug (k i) q)"

definition unroll :: "(nat \<Rightarrow> ('d, 's, 'r) prog) \<Rightarrow> nat \<Rightarrow> ('d, 's, 'r) prog" where
  "unroll b n = plug (b n) (Loop b)"

text \<open>A pure computation inside a program; \<open>unwind\<close> is what a panic runs before it leaves.\<close>

definition lift_exec :: "(panic \<Rightarrow> ('d, 's, 'r) prog) \<Rightarrow> 'x exec \<Rightarrow> ('x \<Rightarrow> ('d, 's, 'r) prog) \<Rightarrow> ('d, 's, 'r) prog" where
  "lift_exec unwind e k =
     (case e of Done x \<Rightarrow> k x | Panicked q \<Rightarrow> unwind q | Diverges \<Rightarrow> Loop Continue 0)"

text \<open>Running an operation on the protected data, e.g. \<open>free_chunks.get(..)\<close> through a guard.\<close>

definition access_exec :: "(panic \<Rightarrow> ('d, 's, 'r) prog) \<Rightarrow> ('d \<Rightarrow> ('x \<times> 'd) exec) \<Rightarrow>
    ('x \<Rightarrow> ('d, 's, 'r) prog) \<Rightarrow> ('d, 's, 'r) prog" where
  "access_exec unwind f k =
     Access (\<lambda>d. case f d of Done (_, d') \<Rightarrow> d' | _ \<Rightarrow> d)
            (\<lambda>d. lift_exec unwind (f d) (\<lambda>(x, _). k x))"

lemma lift_exec_simps [simp]:
  "lift_exec u (Done x) k = k x"
  "lift_exec u (Panicked q) k = u q"
  "lift_exec u Diverges k = Loop Continue 0"
  by (simp_all add: lift_exec_def)

section \<open>One thread under arbitrary answers\<close>

datatype ('d, 's) obs =
    O_loop
  | O_weak bool
  | O_access 'd
  | O_exclusive 'd
  | O_atomic 's
  | O_call pcall int
  | O_time clock_id "int \<times> timespec \<times> int"
  | O_now instant
  | O_pid int

definition pstep :: "('d, 's, 'r) prog \<Rightarrow> ('d, 's) obs \<Rightarrow> ('d, 's, 'r) prog option" where
  "pstep p x = (case p of
     Return r \<Rightarrow> None | Panic q \<Rightarrow> None | Continue m \<Rightarrow> None
   | Loop b n \<Rightarrow> (case x of O_loop \<Rightarrow> Some (unroll b n) | _ \<Rightarrow> None)
   | Weak k \<Rightarrow> (case x of O_weak b \<Rightarrow> Some (k b) | _ \<Rightarrow> None)
   | Access u k \<Rightarrow> (case x of O_access d \<Rightarrow> Some (k d) | _ \<Rightarrow> None)
   | Exclusive u k \<Rightarrow> (case x of O_exclusive d \<Rightarrow> Some (k d) | _ \<Rightarrow> None)
   | Atomic u k \<Rightarrow> (case x of O_atomic s \<Rightarrow> Some (k s) | _ \<Rightarrow> None)
   | Pthread c k \<Rightarrow> (case x of O_call c' e \<Rightarrow> if c = c' then Some (k e) else None | _ \<Rightarrow> None)
   | Gettime c k \<Rightarrow> (case x of O_time c' r \<Rightarrow> if c = c' then Some (k r) else None | _ \<Rightarrow> None)
   | Instant_now k \<Rightarrow> (case x of O_now i \<Rightarrow> Some (k i) | _ \<Rightarrow> None)
   | Getpid k \<Rightarrow> (case x of O_pid i \<Rightarrow> Some (k i) | _ \<Rightarrow> None))"

lemma pstep_simps [simp]:
  "pstep (Loop b n) O_loop = Some (unroll b n)"
  "pstep (Weak kw) (O_weak w) = Some (kw w)"
  "pstep (Access u ka) (O_access d) = Some (ka d)"
  "pstep (Exclusive u ka) (O_exclusive d) = Some (ka d)"
  "pstep (Atomic us ks) (O_atomic s) = Some (ks s)"
  "pstep (Pthread c kc) (O_call c' e) = (if c = c' then Some (kc e) else None)"
  "pstep (Gettime g kg) (O_time g' r) = (if g = g' then Some (kg r) else None)"
  "pstep (Instant_now ki) (O_now t) = Some (ki t)"
  "pstep (Getpid kp) (O_pid i) = Some (kp i)"
  by (simp_all add: pstep_def)

fun feed :: "('d, 's, 'r) prog \<Rightarrow> ('d, 's) obs list \<Rightarrow> ('d, 's, 'r) prog option" where
  "feed p [] = Some p"
| "feed p (x # xs) = (case pstep p x of None \<Rightarrow> None | Some p' \<Rightarrow> feed p' xs)"

lemma feed_append: "feed p (xs @ ys) = (case feed p xs of None \<Rightarrow> None | Some q \<Rightarrow> feed q ys)"
  by (induction xs arbitrary: p) (auto split: option.splits)

section \<open>One thread alone\<close>

text \<open>Fixed answers to the calls; the shared state changes only by the thread's own steps.\<close>

record env =
  env_errno :: "pcall \<Rightarrow> int"
  env_time :: gettime
  env_now :: instant
  env_pid :: int
  env_weak :: bool

inductive solo :: "env \<Rightarrow> ('d, 's, 'r) prog \<Rightarrow> 'd \<Rightarrow> 's \<Rightarrow> 'r exec \<Rightarrow> 'd \<Rightarrow> 's \<Rightarrow> bool" for E where
  "solo E (Return r) d s (Done r) d s"
| "solo E (Panic q) d s (Panicked q) d s"
| "solo E (unroll b n) d s r d' s' \<Longrightarrow> solo E (Loop b n) d s r d' s'"
| "solo E (k (env_weak E)) d s r d' s' \<Longrightarrow> solo E (Weak k) d s r d' s'"
| "solo E (k d) (u d) s r d' s' \<Longrightarrow> solo E (Access u k) d s r d' s'"
| "solo E (k d) (u d) s r d' s' \<Longrightarrow> solo E (Exclusive u k) d s r d' s'"
| "solo E (k s) d (u s) r d' s' \<Longrightarrow> solo E (Atomic u k) d s r d' s'"
| "solo E (k (env_errno E c)) d s r d' s' \<Longrightarrow> solo E (Pthread c k) d s r d' s'"
| "solo E (k (env_time E c)) d s r d' s' \<Longrightarrow> solo E (Gettime c k) d s r d' s'"
| "solo E (k (env_now E)) d s r d' s' \<Longrightarrow> solo E (Instant_now k) d s r d' s'"
| "solo E (k (env_pid E)) d s r d' s' \<Longrightarrow> solo E (Getpid k) d s r d' s'"

inductive_simps solo_simps [simp]:
  "solo E (Return r) d s r' d' s'"
  "solo E (Panic q) d s r' d' s'"
  "solo E (Continue m) d s r' d' s'"
  "solo E (Weak k) d s r' d' s'"
  "solo E (Access u k) d s r' d' s'"
  "solo E (Exclusive u k) d s r' d' s'"
  "solo E (Atomic u k) d s r' d' s'"
  "solo E (Pthread c k) d s r' d' s'"
  "solo E (Gettime c k) d s r' d' s'"
  "solo E (Instant_now k) d s r' d' s'"
  "solo E (Getpid k) d s r' d' s'"

inductive_simps solo_Loop: "solo E (Loop b n) d s r' d' s'"

lemma solo_deterministic:
  "solo E p d s r d1 s1 \<Longrightarrow> solo E p d s r' d2 s2 \<Longrightarrow> r = r' \<and> d1 = d2 \<and> s1 = s2"
  by (induction arbitrary: r' d2 s2 rule: solo.induct) (auto simp: solo_Loop)

section \<open>Kinds of calls\<close>

definition takes_lock :: "pcall \<Rightarrow> bool" where
  "takes_lock c \<longleftrightarrow> (case c of Pmutex_lock \<Rightarrow> True | Pmutex_trylock \<Rightarrow> True | Pmutex_timedlock _ \<Rightarrow> True | _ \<Rightarrow> False)"

definition waits :: "pcall \<Rightarrow> bool" where
  "waits c \<longleftrightarrow> (case c of Pcond_wait _ \<Rightarrow> True | Pcond_timedwait _ _ \<Rightarrow> True | _ \<Rightarrow> False)"

lemma call_kinds [simp]:
  "takes_lock Pmutex_lock" "takes_lock Pmutex_trylock" "takes_lock (Pmutex_timedlock t)"
  "\<not> takes_lock Pmutex_unlock" "\<not> takes_lock (Pcond_wait c)" "\<not> takes_lock (Pcond_timedwait c t)"
  "\<not> takes_lock (Pcond_signal c)" "\<not> takes_lock (Pcond_broadcast c)"
  "waits (Pcond_wait c)" "waits (Pcond_timedwait c t)"
  "\<not> waits Pmutex_lock" "\<not> waits Pmutex_trylock" "\<not> waits (Pmutex_timedlock t)"
  "\<not> waits Pmutex_unlock" "\<not> waits (Pcond_signal c)" "\<not> waits (Pcond_broadcast c)"
  by (simp_all add: takes_lock_def waits_def)

lemma takes_lock_not [simp]: "takes_lock c \<Longrightarrow> \<not> waits c" "takes_lock c \<Longrightarrow> c \<noteq> Pmutex_unlock" "waits c \<Longrightarrow> c \<noteq> Pmutex_unlock"
  by (auto simp: takes_lock_def waits_def split: pcall.splits)

end
