(* ===== verification/Interleaving.thy ===== *)
theory Interleaving
  imports Program
begin

text \<open>
  Many threads (of any number of processes) around one mutex-protected value.
  \<open>safe\<close> is a per-thread judgement, checked over all answers of the environment: with a resource
  invariant of the protected value and one of the atomics, the program keeps the latter with every step, locks before it accesses, re-establishes \<open>I\<close>
  before it unlocks or waits, and everything it does to the value is an event: \<open>G d e d'\<close> says that
  event \<open>e\<close> takes \<open>d\<close> to \<open>d'\<close>. The judgement carries the thread's events: all its histories satisfy
  \<open>history\<close>, and its postcondition can say what an operation's result means. \<open>sys_step\<close> interleaves threads over a
  pthread library given by its documented behaviour (\<open>pthread_laws\<close>). The soundness theorem
  gives one order of all events that explains the value and every thread's result.
\<close>

section \<open>One thread in any environment\<close>

datatype 'd view = Free | Held 'd

record ('d, 's, 'ev, 'r) contract =
  atomics :: "'s \<Rightarrow> bool"
  res_inv :: "'d \<Rightarrow> bool"
  effect :: "'d \<Rightarrow> 'ev \<Rightarrow> 'd \<Rightarrow> bool"
  history :: "'ev list \<Rightarrow> bool"
  post :: "'r \<Rightarrow> 'ev list \<Rightarrow> bool"
  fault :: "panic \<Rightarrow> 'ev list \<Rightarrow> bool"

primrec safe :: "('d, 's, 'ev, 'r) contract \<Rightarrow> ('d, 's, 'r) prog \<Rightarrow> 'd view \<Rightarrow> 'ev list \<Rightarrow>
    (nat \<Rightarrow> 'd view \<Rightarrow> 'ev list \<Rightarrow> bool) \<Rightarrow> bool" where
  "safe C (Return r) v h J \<longleftrightarrow> v = Free \<and> post C r h"
| "safe C (Panic q) v h J \<longleftrightarrow> v = Free \<and> fault C q h"
| "safe C (Continue m) v h J \<longleftrightarrow> J m v h"
| "safe C (Loop b n) v h J \<longleftrightarrow>
     (\<exists>J'. J' n v h \<and> (\<forall>m v' h'. J' m v' h' \<longrightarrow> safe C (b m) v' h' J'))"
| "safe C (Weak k) v h J \<longleftrightarrow> (\<forall>b. safe C (k b) v h J)"
| "safe C (Access u k) v h J \<longleftrightarrow> (\<exists>d. v = Held d \<and>
     (u d = d \<and> safe C (k d) v h J \<or> (\<exists>e. effect C d e (u d) \<and> history C (h @ [e]) \<and> safe C (k d) (Held (u d)) (h @ [e]) J)))"
| "safe C (Exclusive u k) v h J \<longleftrightarrow> False"
| "safe C (Atomic u k) v h J \<longleftrightarrow> (\<forall>s. atomics C s \<longrightarrow> atomics C (u s) \<and> safe C (k s) v h J)"
| "safe C (Pthread c k) v h J \<longleftrightarrow>
     (if takes_lock c then v = Free \<and> (\<forall>d. res_inv C d \<longrightarrow> safe C (k 0) (Held d) h J) \<and>
        (\<forall>e. e \<noteq> 0 \<longrightarrow> safe C (k e) Free h J)
      else if waits c then (\<exists>d. v = Held d \<and> res_inv C d) \<and>
        (\<forall>e d. res_inv C d \<longrightarrow> safe C (k e) (Held d) h J)
      else if c = Pmutex_unlock then (\<exists>d. v = Held d \<and> res_inv C d) \<and> (\<forall>e. safe C (k e) Free h J)
      else c \<noteq> Pmutex_destroy \<and> (\<forall>e. safe C (k e) v h J))"
| "safe C (Gettime c k) v h J \<longleftrightarrow> (\<forall>r. safe C (k r) v h J)"
| "safe C (Instant_now k) v h J \<longleftrightarrow> (\<forall>i. safe C (k i) v h J)"
| "safe C (Getpid k) v h J \<longleftrightarrow> (\<forall>i. safe C (k i) v h J)"

text \<open>No loop around: \<open>Continue\<close> does not occur.\<close>

abbreviation safe_top :: "('d, 's, 'ev, 'r) contract \<Rightarrow> ('d, 's, 'r) prog \<Rightarrow> 'd view \<Rightarrow> 'ev list \<Rightarrow> bool" where
  "safe_top C p v h \<equiv> safe C p v h (\<lambda>_ _ _. False)"

text \<open>The clauses of a call and an access are monotone in what holds of the continuation.\<close>

lemma safe_call_mono:
  assumes "safe C (Pthread c k) v h J" "\<And>e v h. safe C (k e) v h J \<Longrightarrow> safe C (k' e) v h J'"
  shows "safe C (Pthread c k') v h J'"
  using assms(1) by (simp split: if_split_asm) (blast intro: assms(2))+

lemma safe_access_mono:
  assumes "safe C (Access u k) v h J" "\<And>e v h. safe C (k e) v h J \<Longrightarrow> safe C (k' e) v h J'"
  shows "safe C (Access u k') v h J'"
  using assms(1) by simp (blast intro: assms(2))

lemma safe_mono:
  assumes mono: "\<And>m v h. J m v h \<Longrightarrow> J' m v h"
  shows "safe C p v h J \<Longrightarrow> safe C p v h J'"
proof (induction p arbitrary: v h)
  case (Pthread c k)
  show ?case using Pthread.prems by (rule safe_call_mono) (rule Pthread.IH [OF rangeI])
next
  case (Access u k)
  show ?case using Access.prems by (rule safe_access_mono) (rule Access.IH [OF rangeI])
qed (auto intro: mono)

lemma safe_from_top: "safe_top C p v h \<Longrightarrow> safe C p v h J"
  by (erule safe_mono [rotated]) simp

lemma safe_plug:
  assumes after: "\<And>m v h. J' m v h \<Longrightarrow> safe C (q m) v h J"
  shows "safe C p v h J' \<Longrightarrow> safe C (plug p q) v h J"
proof (induction p arbitrary: v h)
  case (Pthread c k)
  show ?case unfolding plug.simps
    using Pthread.prems by (rule safe_call_mono) (rule Pthread.IH [OF rangeI])
next
  case (Access u k)
  show ?case unfolding plug.simps
    using Access.prems by (rule safe_access_mono) (rule Access.IH [OF rangeI])
qed (auto intro: after)

lemma safe_unroll:
  assumes "safe C (Loop b n) v h J"
  shows "safe C (unroll b n) v h J"
proof -
  obtain J' where J': "J' n v h" "\<forall>m v' h'. J' m v' h' \<longrightarrow> safe C (b m) v' h' J'" using assms by auto
  then have "safe C (b n) v h J'" by blast
  moreover have "safe C (Loop b m) v' h' J" if "J' m v' h'" for m v' h' using J'(2) that by auto
  ultimately show ?thesis unfolding unroll_def by (rule safe_plug [rotated])
qed

section \<open>The pthread library\<close>

text \<open>
  The library's own state \<open>'l\<close> is opaque. \<open>call_ans\<close> completes a call with a return code;
  a wait on a condition variable is two steps, of which the first gives the mutex up and the second
  has it again. \<open>pthread_laws\<close> is what POSIX says of the mutex's holder, and no more: wake-ups may be
  spurious or missing, timed calls may expire at any time, any call may fail.
\<close>

type_synonym tid = nat

record 'l pthread =
  holder :: "'l \<Rightarrow> tid option"
  call_ans :: "'l \<Rightarrow> tid \<Rightarrow> pcall \<Rightarrow> int \<Rightarrow> 'l \<Rightarrow> bool"
  wait_begin :: "'l \<Rightarrow> tid \<Rightarrow> pcall \<Rightarrow> 'l \<Rightarrow> bool"
  wait_end :: "'l \<Rightarrow> tid \<Rightarrow> pcall \<Rightarrow> int \<Rightarrow> 'l \<Rightarrow> bool"

definition pthread_laws :: "'l pthread \<Rightarrow> bool" where
  "pthread_laws P \<longleftrightarrow>
     (\<forall>l t c e l'. call_ans P l t c e l' \<longrightarrow>
        (if takes_lock c then
           (if e = 0 then holder P l = None \<and> holder P l' = Some t else holder P l' = holder P l)
         else if c = Pmutex_unlock then (holder P l = Some t \<longrightarrow> holder P l' = None)
         else holder P l' = holder P l)) \<and>
     (\<forall>l t c l'. wait_begin P l t c l' \<longrightarrow> holder P l = Some t \<longrightarrow> holder P l' = None) \<and>
     (\<forall>l t c e l'. wait_end P l t c e l' \<longrightarrow> holder P l = None \<and> holder P l' = Some t)"

lemma pthread_laws_rules:
  assumes "pthread_laws P"
  shows "call_ans P l t c 0 l' \<Longrightarrow> takes_lock c \<Longrightarrow> holder P l = None \<and> holder P l' = Some t"
    and "call_ans P l t c e l' \<Longrightarrow> takes_lock c \<Longrightarrow> e \<noteq> 0 \<Longrightarrow> holder P l' = holder P l"
    and "call_ans P l t Pmutex_unlock e l' \<Longrightarrow> holder P l = Some t \<Longrightarrow> holder P l' = None"
    and "call_ans P l t c e l' \<Longrightarrow> \<not> takes_lock c \<Longrightarrow> c \<noteq> Pmutex_unlock \<Longrightarrow> holder P l' = holder P l"
    and "wait_begin P l t c l' \<Longrightarrow> holder P l = Some t \<Longrightarrow> holder P l' = None"
    and "wait_end P l t c e l' \<Longrightarrow> holder P l = None \<and> holder P l' = Some t"
  using assms unfolding pthread_laws_def by (auto split: if_split_asm)

section \<open>Threads interleaved\<close>

record ('d, 's, 'r, 'l) sys =
  threads :: "tid \<Rightarrow> ('d, 's, 'r) prog"
  asleep :: "tid \<Rightarrow> bool"
  cell :: 'd
  shared :: 's
  lib :: 'l

inductive sys_step :: "'l pthread \<Rightarrow> ('d, 's, 'r, 'l) sys \<Rightarrow> ('d, 's, 'r, 'l) sys \<Rightarrow> bool" for P where
  step_loop: "threads s t = Loop b n \<Longrightarrow> sys_step P s (s\<lparr>threads := (threads s)(t := unroll b n)\<rparr>)"
| step_weak: "threads s t = Weak k \<Longrightarrow> sys_step P s (s\<lparr>threads := (threads s)(t := k b)\<rparr>)"
| step_access: "threads s t = Access u k \<Longrightarrow>
     sys_step P s (s\<lparr>threads := (threads s)(t := k (cell s)), cell := u (cell s)\<rparr>)"
| step_exclusive: "threads s t = Exclusive u k \<Longrightarrow>
     sys_step P s (s\<lparr>threads := (threads s)(t := k (cell s)), cell := u (cell s)\<rparr>)"
| step_atomic: "threads s t = Atomic w k \<Longrightarrow>
     sys_step P s (s\<lparr>threads := (threads s)(t := k (shared s)), shared := w (shared s)\<rparr>)"
| step_time: "threads s t = Gettime c k \<Longrightarrow> sys_step P s (s\<lparr>threads := (threads s)(t := k r)\<rparr>)"
| step_now: "threads s t = Instant_now k \<Longrightarrow> sys_step P s (s\<lparr>threads := (threads s)(t := k i)\<rparr>)"
| step_pid: "threads s t = Getpid k \<Longrightarrow> sys_step P s (s\<lparr>threads := (threads s)(t := k j)\<rparr>)"
| step_call: "threads s t = Pthread c k \<Longrightarrow> \<not> waits c \<Longrightarrow> call_ans P (lib s) t c e l' \<Longrightarrow>
     sys_step P s (s\<lparr>threads := (threads s)(t := k e), lib := l'\<rparr>)"
| step_sleep: "threads s t = Pthread c k \<Longrightarrow> waits c \<Longrightarrow> \<not> asleep s t \<Longrightarrow> wait_begin P (lib s) t c l' \<Longrightarrow>
     sys_step P s (s\<lparr>asleep := (asleep s)(t := True), lib := l'\<rparr>)"
| step_wake: "threads s t = Pthread c k \<Longrightarrow> waits c \<Longrightarrow> asleep s t \<Longrightarrow> wait_end P (lib s) t c e l' \<Longrightarrow>
     sys_step P s (s\<lparr>threads := (threads s)(t := k e), asleep := (asleep s)(t := False), lib := l'\<rparr>)"

inductive sys_reach :: "'l pthread \<Rightarrow> ('d, 's, 'r, 'l) sys \<Rightarrow> ('d, 's, 'r, 'l) sys \<Rightarrow> bool" for P s0 where
  reach_start: "sys_reach P s0 s0"
| reach_step: "sys_reach P s0 s \<Longrightarrow> sys_step P s s' \<Longrightarrow> sys_reach P s0 s'"

section \<open>One order of events\<close>

fun event_chain :: "('d \<Rightarrow> 'ev \<Rightarrow> 'd \<Rightarrow> bool) \<Rightarrow> 'd \<Rightarrow> 'ev list \<Rightarrow> 'd \<Rightarrow> bool" where
  "event_chain G d [] d' \<longleftrightarrow> d = d'"
| "event_chain G d (e # es) d' \<longleftrightarrow> (\<exists>d1. G d e d1 \<and> event_chain G d1 es d')"

lemma event_chain_snoc: "event_chain G d es d1 \<Longrightarrow> G d1 e d2 \<Longrightarrow> event_chain G d (es @ [e]) d2"
  by (induction es arbitrary: d) auto

definition of_thread :: "tid \<Rightarrow> (tid \<times> 'ev) list \<Rightarrow> 'ev list" where
  "of_thread t log = map snd (filter (\<lambda>x. fst x = t) log)"

lemma of_thread_simps [simp]:
  "of_thread t [] = []" "of_thread t (log @ [(t', e)]) = of_thread t log @ (if t' = t then [e] else [])"
  by (simp_all add: of_thread_def)

text \<open>What only one thread does on an object is known from its own events.\<close>

lemma only_thread:
  assumes "f [] = []" "\<And>a b. f (a @ b) = f a @ f b" "\<And>t'. t' \<noteq> t \<Longrightarrow> f (of_thread t' log) = []"
  shows "f (map snd log) = f (of_thread t log)"
  using assms(3)
proof (induction log rule: rev_induct)
  case (snoc x log)
  obtain t1 e where x: "x = (t1, e)" by (cases x)
  have "f (map snd log) = f (of_thread t log)"
    by (rule snoc.IH) (use snoc.prems x in \<open>simp add: assms(2) split: if_splits\<close>)
  moreover have "t1 \<noteq> t \<Longrightarrow> f [e] = []" using snoc.prems [of t1] x by (simp add: assms(2))
  ultimately show ?case using x by (auto simp: assms(1,2))
qed (simp add: assms(1))

text \<open>
  Every thread \<open>t\<close> has a contract \<open>C t\<close> of its own: what it may do to the value, what its result
  means, when it may panic. They share the resource invariant \<open>R\<close>, and the log says whose event
  each one is.
\<close>

definition view_of :: "'l pthread \<Rightarrow> ('d, 's, 'r, 'l) sys \<Rightarrow> tid \<Rightarrow> 'd view" where
  "view_of P s t = (if holder P (lib s) = Some t then Held (cell s) else Free)"

definition thread_ok :: "('d, 's, 'ev, 'r) contract \<Rightarrow> 'l pthread \<Rightarrow> ('d, 's, 'r, 'l) sys \<Rightarrow> 'ev list \<Rightarrow> tid \<Rightarrow> bool" where
  "thread_ok C P s h t \<longleftrightarrow>
     (if asleep s t then holder P (lib s) \<noteq> Some t \<and> (\<exists>c k. threads s t = Pthread c k \<and> waits c \<and>
        (\<forall>e d. res_inv C d \<longrightarrow> safe_top C (k e) (Held d) h))
      else safe_top C (threads s t) (view_of P s t) h)"

definition owned_effect :: "(tid \<Rightarrow> ('d, 's, 'ev, 'r) contract) \<Rightarrow> 'd \<Rightarrow> tid \<times> 'ev \<Rightarrow> 'd \<Rightarrow> bool" where
  "owned_effect C d x d' \<longleftrightarrow> effect (C (fst x)) d (snd x) d'"

definition sys_inv :: "('d \<Rightarrow> bool) \<Rightarrow> (tid \<Rightarrow> ('d, 's, 'ev, 'r) contract) \<Rightarrow> 'l pthread \<Rightarrow> 'd \<Rightarrow> ('d, 's, 'r, 'l) sys \<Rightarrow> (tid \<times> 'ev) list \<Rightarrow> bool" where
  "sys_inv R C P d0 s log \<longleftrightarrow> (\<forall>t. res_inv (C t) = R) \<and>
     (\<forall>t. atomics (C t) = atomics (C 0)) \<and> atomics (C 0) (shared s) \<and> event_chain (owned_effect C) d0 log (cell s) \<and>
     (holder P (lib s) = None \<longrightarrow> R (cell s)) \<and> (\<forall>t. history (C t) (of_thread t log) \<and> thread_ok (C t) P s (of_thread t log) t)"

lemma owned_effect_shared:
  assumes "\<And>t. effect (C t) = G"
  shows "event_chain (owned_effect C) d log d' = event_chain G d (map snd log) d'"
  by (induction log arbitrary: d) (simp_all add: owned_effect_def assms)

text \<open>
  A step of thread \<open>t\<close> leaves the other threads as they are, if what they see stays the same.
  A thread that does not hold the mutex sees nothing.
\<close>

lemma thread_ok_frame:
  assumes "threads s' t = threads s t" "asleep s' t = asleep s t"
    and "holder P (lib s') = Some t \<longleftrightarrow> holder P (lib s) = Some t" "holder P (lib s) = Some t \<Longrightarrow> cell s' = cell s"
  shows "thread_ok (C t) P s' h t = thread_ok (C t) P s h t"
  using assms by (auto simp: thread_ok_def view_of_def)

lemma sys_inv_step:
  assumes "sys_inv R C P d0 s log" "event_chain (owned_effect C) d0 log' (cell s')"
    and "holder P (lib s') = None \<Longrightarrow> R (cell s')" "thread_ok (C t) P s' (of_thread t log') t" "history (C t) (of_thread t log')"
    and "shared s' = shared s \<or> atomics (C t) (shared s')"
    and "\<And>t'. t' \<noteq> t \<Longrightarrow> of_thread t' log' = of_thread t' log \<and> threads s' t' = threads s t' \<and> asleep s' t' = asleep s t' \<and>
      (holder P (lib s') = Some t' \<longleftrightarrow> holder P (lib s) = Some t') \<and> (holder P (lib s) = Some t' \<longrightarrow> cell s' = cell s)"
  shows "sys_inv R C P d0 s' log'"
proof -
  have "history (C t') (of_thread t' log') \<and> thread_ok (C t') P s' (of_thread t' log') t'" for t'
  proof (cases "t' = t")
    case False
    then have "thread_ok (C t') P s' (of_thread t' log') t' = thread_ok (C t') P s (of_thread t' log) t'"
      using thread_ok_frame [of s' t' s P C] assms(7) [OF False] by simp
    then show ?thesis using assms(1,7) False by (simp add: sys_inv_def)
  qed (use assms(4,5) in simp)
  moreover have "res_inv (C t') = R" "atomics (C t') = atomics (C 0)" for t' using assms(1) by (simp_all add: sys_inv_def)
  moreover have "atomics (C 0) (shared s')" using assms(1,6) calculation(3) [of t] by (auto simp: sys_inv_def)
  ultimately show ?thesis using assms(2,3) by (simp add: sys_inv_def)
qed

lemma sys_inv_res: "sys_inv R C P d0 s log \<Longrightarrow> res_inv (C t) = R"
  by (simp add: sys_inv_def)

lemma sys_inv_atomics: "sys_inv R C P d0 s log \<Longrightarrow> atomics (C t) (shared s)"
  unfolding sys_inv_def by metis

lemma sys_inv_history: "sys_inv R C P d0 s log \<Longrightarrow> history (C t) (of_thread t log)"
  by (simp add: sys_inv_def)

lemma sys_inv_awake:
  "sys_inv R C P d0 s log \<Longrightarrow> \<not> asleep s t \<Longrightarrow> safe_top (C t) (threads s t) (view_of P s t) (of_thread t log)"
  by (auto simp: sys_inv_def thread_ok_def)

text \<open>A step that leaves the value and the holder alone.\<close>

lemma sys_inv_local:
  assumes "sys_inv R C P d0 s log" "\<not> asleep s t" "holder P l' = holder P (lib s)"
    and "safe_top (C t) q (view_of P s t) (of_thread t log)" "atomics (C t) w"
  shows "sys_inv R C P d0 (s\<lparr>threads := (threads s)(t := q), shared := w, lib := l'\<rparr>) log"
  by (rule sys_inv_step [OF assms(1), where t = t])
    (use assms in \<open>auto simp: sys_inv_def thread_ok_def view_of_def\<close>)

text \<open>An access: the thread holds the mutex.\<close>

lemma sys_inv_access:
  assumes "sys_inv R C P d0 s log" "threads s t = Access u k" "\<not> asleep s t"
  shows "\<exists>log'. sys_inv R C P d0 (s\<lparr>threads := (threads s)(t := k (cell s)), cell := u (cell s)\<rparr>) log'"
proof -
  let ?s = "s\<lparr>threads := (threads s)(t := k (cell s)), cell := u (cell s)\<rparr>"
  have ok: "safe_top (C t) (Access u k) (view_of P s t) (of_thread t log)"
    using sys_inv_awake [OF assms(1,3)] assms(2) by simp
  have chain: "event_chain (owned_effect C) d0 log (cell s)" using assms(1) by (simp add: sys_inv_def)
  have h: "holder P (lib s) = Some t" using ok by (auto simp: view_of_def split: if_splits)
  consider "u (cell s) = cell s" "safe_top (C t) (k (cell s)) (Held (cell s)) (of_thread t log)"
    | e where "effect (C t) (cell s) e (u (cell s))" "history (C t) (of_thread t log @ [e])"
      "safe_top (C t) (k (cell s)) (Held (u (cell s))) (of_thread t log @ [e])"
    using ok h by (auto simp: view_of_def)
  then show ?thesis
  proof cases
    case 1
    have "sys_inv R C P d0 ?s log"
      by (rule sys_inv_step [OF assms(1), where t = t])
        (use 1 h chain assms(3) in \<open>simp_all add: thread_ok_def view_of_def sys_inv_history [OF assms(1)]\<close>)
    then show ?thesis by blast
  next
    case 2
    have "sys_inv R C P d0 ?s (log @ [(t, e)])"
      by (rule sys_inv_step [OF assms(1), where t = t])
        (use 2 h event_chain_snoc [OF chain, of "(t, e)"] 2(1) assms(3) in \<open>simp_all add: owned_effect_def thread_ok_def view_of_def\<close>)
    then show ?thesis by blast
  qed
qed

lemma sys_inv_call:
  assumes "sys_inv R C P d0 s log" "threads s t = Pthread c k" "\<not> asleep s t" "\<not> waits c"
    and "pthread_laws P" "call_ans P (lib s) t c e l'"
  shows "sys_inv R C P d0 (s\<lparr>threads := (threads s)(t := k e), lib := l'\<rparr>) log"
proof -
  note laws = pthread_laws_rules [OF assms(5)] and R = sys_inv_res [OF assms(1)]
  have ok: "safe_top (C t) (Pthread c k) (view_of P s t) (of_thread t log)"
    using sys_inv_awake [OF assms(1,3)] assms(2) by simp
  have chain: "event_chain (owned_effect C) d0 log (cell s)"
    and idle: "holder P (lib s) = None \<Longrightarrow> R (cell s)" using assms(1) by (simp_all add: sys_inv_def)
  consider (take) "takes_lock c" "e = 0" | (other) "holder P l' = holder P (lib s)"
      "safe_top (C t) (k e) (view_of P s t) (of_thread t log)"
    | (release) "c = Pmutex_unlock" "holder P (lib s) = Some t" "R (cell s)"
      "safe_top (C t) (k e) Free (of_thread t log)"
  proof (cases "takes_lock c")
    case True
    with ok laws(2) [OF assms(6)] that show thesis by (cases "e = 0") auto
  next
    case False
    show thesis
    proof (cases "c = Pmutex_unlock")
      case True
      with ok R have "holder P (lib s) = Some t" "R (cell s)" "safe_top (C t) (k e) Free (of_thread t log)"
        by (auto simp: view_of_def split: if_splits)
      with True that show thesis by blast
    next
      case False
      with ok \<open>\<not> takes_lock c\<close> assms(4) have "safe_top (C t) (k e) (view_of P s t) (of_thread t log)" by simp
      with laws(4) [OF assms(6) \<open>\<not> takes_lock c\<close> False] that show thesis by blast
    qed
  qed
  then show ?thesis
  proof cases
    case take
    have l: "holder P (lib s) = None" "holder P l' = Some t" using laws(1) take assms(6) by auto
    with ok take idle R have "safe_top (C t) (k 0) (Held (cell s)) (of_thread t log)" by simp
    then show ?thesis using take l chain assms(3)
      by (intro sys_inv_step [OF assms(1), where t = t]) (simp_all add: thread_ok_def view_of_def sys_inv_history [OF assms(1)])
  next
    case other
    then show ?thesis
      using sys_inv_local [OF assms(1,3) other(1), of "k e" "shared s"] sys_inv_atomics [OF assms(1)] by simp
  next
    case release
    then have l: "holder P l' = None" using laws(3) assms(6) by blast
    then show ?thesis using release chain assms(3)
      by (intro sys_inv_step [OF assms(1), where t = t]) (simp_all add: thread_ok_def view_of_def sys_inv_history [OF assms(1)])
  qed
qed

text \<open>Going to sleep gives the mutex up; waking up has it again, with whatever the others left.\<close>

lemma sys_inv_sleep:
  assumes "sys_inv R C P d0 s log" "threads s t = Pthread c k" "waits c" "\<not> asleep s t"
    and "pthread_laws P" "wait_begin P (lib s) t c l'"
  shows "sys_inv R C P d0 (s\<lparr>asleep := (asleep s)(t := True), lib := l'\<rparr>) log"
proof -
  have ok: "safe_top (C t) (Pthread c k) (view_of P s t) (of_thread t log)"
    using sys_inv_awake [OF assms(1,4)] assms(2) by simp
  then have r: "holder P (lib s) = Some t" "R (cell s)"
    "\<forall>e d. R d \<longrightarrow> safe_top (C t) (k e) (Held d) (of_thread t log)"
    using assms(3) sys_inv_res [OF assms(1)] by (auto simp: view_of_def split: if_splits)
  have l: "holder P l' = None" using pthread_laws_rules(5) [OF assms(5,6) r(1)] .
  have "event_chain (owned_effect C) d0 log (cell s)" using assms(1) by (simp add: sys_inv_def)
  then show ?thesis using r l assms(2,3)
    by (intro sys_inv_step [OF assms(1), where t = t]) (simp_all add: thread_ok_def sys_inv_res [OF assms(1)] sys_inv_history [OF assms(1)])
qed

lemma sys_inv_wake:
  assumes "sys_inv R C P d0 s log" "threads s t = Pthread c k" "asleep s t"
    and "pthread_laws P" "wait_end P (lib s) t c e l'"
  shows "sys_inv R C P d0 (s\<lparr>threads := (threads s)(t := k e), asleep := (asleep s)(t := False), lib := l'\<rparr>) log"
proof -
  have l: "holder P (lib s) = None" "holder P l' = Some t" using pthread_laws_rules(6) [OF assms(4,5)] by auto
  have "thread_ok (C t) P s (of_thread t log) t" and chain: "event_chain (owned_effect C) d0 log (cell s)"
    and inv: "R (cell s)" using assms(1) l(1) by (simp_all add: sys_inv_def)
  then have "safe_top (C t) (k e) (Held (cell s)) (of_thread t log)"
    using assms(2,3) sys_inv_res [OF assms(1)] by (auto simp: thread_ok_def)
  then show ?thesis using l chain
    by (intro sys_inv_step [OF assms(1), where t = t]) (simp_all add: thread_ok_def view_of_def sys_inv_history [OF assms(1)])
qed

lemma asleep_waits: "sys_inv R C P d0 s log \<Longrightarrow> asleep s t \<Longrightarrow> \<exists>c k. threads s t = Pthread c k \<and> waits c"
proof -
  assume "sys_inv R C P d0 s log" "asleep s t"
  then have "thread_ok (C t) P s (of_thread t log) t" by (simp add: sys_inv_def)
  with \<open>asleep s t\<close> show ?thesis by (auto simp: thread_ok_def)
qed

lemma sys_inv_preserved:
  assumes "pthread_laws P"
  shows "sys_step P s s' \<Longrightarrow> sys_inv R C P d0 s log \<Longrightarrow> \<exists>log'. sys_inv R C P d0 s' log'"
proof (induction rule: sys_step.induct)
  case (step_loop s t b n)
  then have a: "\<not> asleep s t" using asleep_waits by fastforce
  have "safe_top (C t) (unroll b n) (view_of P s t) (of_thread t log)"
    using sys_inv_awake [OF step_loop(2) a] step_loop(1) by (intro safe_unroll) simp
  with sys_inv_atomics [OF step_loop(2), of t] sys_inv_local [OF step_loop(2) a, of "lib s" _ "shared s"] show ?case by auto
next
  case (step_weak s t k b)
  then have a: "\<not> asleep s t" using asleep_waits by fastforce
  with sys_inv_atomics [OF step_weak(2), of t] sys_inv_local [OF step_weak(2) a, of "lib s" "k b" "shared s"] sys_inv_awake [OF step_weak(2) a] step_weak(1)
  show ?case by auto
next
  case (step_access s t u k)
  then have a: "\<not> asleep s t" using asleep_waits by fastforce
  show ?case by (rule sys_inv_access [OF step_access(2,1) a])
next
  case (step_exclusive s t u k)
  then have "\<not> asleep s t" using asleep_waits by fastforce
  from sys_inv_awake [OF step_exclusive(2) this] step_exclusive(1) show ?case by simp
next
  case (step_atomic s t w k)
  then have a: "\<not> asleep s t" using asleep_waits by fastforce
  with sys_inv_atomics [OF step_atomic(2), of t] sys_inv_local [OF step_atomic(2) a, of "lib s" "k (shared s)" "w (shared s)"] sys_inv_awake [OF step_atomic(2) a] step_atomic(1)
  show ?case by auto
next
  case (step_time s t c k r)
  then have a: "\<not> asleep s t" using asleep_waits by fastforce
  with sys_inv_atomics [OF step_time(2), of t] sys_inv_local [OF step_time(2) a, of "lib s" "k r" "shared s"] sys_inv_awake [OF step_time(2) a] step_time(1)
  show ?case by (cases r) auto
next
  case (step_now s t k i)
  then have a: "\<not> asleep s t" using asleep_waits by fastforce
  with sys_inv_atomics [OF step_now(2), of t] sys_inv_local [OF step_now(2) a, of "lib s" "k i" "shared s"] sys_inv_awake [OF step_now(2) a] step_now(1)
  show ?case by auto
next
  case (step_pid s t k j)
  then have a: "\<not> asleep s t" using asleep_waits by fastforce
  with sys_inv_atomics [OF step_pid(2), of t] sys_inv_local [OF step_pid(2) a, of "lib s" "k j" "shared s"] sys_inv_awake [OF step_pid(2) a] step_pid(1)
  show ?case by auto
next
  case (step_call s t c k e l')
  then have a: "\<not> asleep s t" using asleep_waits by fastforce
  show ?case using sys_inv_call [OF step_call(4,1) a step_call(2) assms step_call(3)] by blast
next
  case (step_sleep s t c k l')
  show ?case using sys_inv_sleep [OF step_sleep(5,1-3) assms step_sleep(4)] by blast
next
  case (step_wake s t c k e l')
  show ?case using sys_inv_wake [OF step_wake(5,1,3) assms step_wake(4)] by blast
qed

text \<open>
  Soundness: started with every thread safe, nobody holding the mutex and nobody asleep, in every
  reachable state some order of the events so far leads from the initial value to the present
  one, and every thread is where its own events allow it to be.
\<close>

lemma sys_inv_start:
  assumes "\<And>t. res_inv (C t) = R \<and> atomics (C t) = A" "A (shared s)" "holder P (lib s) = None" "R (cell s)" "\<And>t. \<not> asleep s t" "\<And>t. history (C t) []" "\<And>t. safe_top (C t) (threads s t) Free []"
  shows "sys_inv R C P (cell s) s []"
  using assms by (simp add: sys_inv_def thread_ok_def view_of_def)

lemma interleaving_sound:
  assumes "pthread_laws P" "sys_inv R C P (cell s0) s0 []"
  shows "sys_reach P s0 s \<Longrightarrow> \<exists>log. sys_inv R C P (cell s0) s log"
proof (induction rule: sys_reach.induct)
  case reach_start
  then show ?case using assms(2) by blast
next
  case (reach_step s s')
  then obtain log where "sys_inv R C P (cell s0) s log" by blast
  then show ?case by (rule sys_inv_preserved [OF assms(1) reach_step(2)])
qed

lemma sys_inv_returned:
  "sys_inv R C P d0 s log \<Longrightarrow> threads s t = Return r \<Longrightarrow> post (C t) r (of_thread t log)"
  using asleep_waits [of R C P d0 s log t] sys_inv_awake [of R C P d0 s log t] by fastforce

lemma sys_inv_panicked:
  "sys_inv R C P d0 s log \<Longrightarrow> threads s t = Panic q \<Longrightarrow> fault (C t) q (of_thread t log)"
  using asleep_waits [of R C P d0 s log t] sys_inv_awake [of R C P d0 s log t] by fastforce

lemma sys_inv_waiting:
  "sys_inv R C P d0 s log \<Longrightarrow> threads s t = Access u k \<Longrightarrow> holder P (lib s) = Some t"
  using asleep_waits [of R C P d0 s log t] sys_inv_awake [of R C P d0 s log t]
  by (fastforce simp: view_of_def split: if_splits)

end
