(* ===== verification/Mutex.thy ===== *)
theory Mutex
  imports Interleaving
begin

text \<open>
  \<open>src/mutex.rs\<close>: the process-shared mutex. \<open>mutex_attr_*\<close> are the methods of \<open>MutexAttr\<close>,
  \<open>mutex_*\<close> those of \<open>Mutex\<close>, \<open>guard_drop\<close> the destructor of the guard. A guard is the
  fact that the lock is held: dereferencing it is an \<open>Access\<close> node of the caller. Where the
  source panics, the destructors of the live values run first.
  A function takes as its last argument what its caller does with the result.
\<close>

section \<open>Attributes\<close>

definition mutex_attr_drop :: "('d, 's, 'r) prog \<Rightarrow> ('d, 's, 'r) prog" where
  "mutex_attr_drop k = Pthread Mutexattr_destroy (\<lambda>errno. k)"

definition mutex_attr_new :: "(mutex_attr \<Rightarrow> ('d, 's, 'r) prog) \<Rightarrow> ('d, 's, 'r) prog" where
  "mutex_attr_new k = Pthread Mutexattr_init (\<lambda>errno.
     if errno \<noteq> 0 then Panic (Os_failure errno) else k \<lparr>ma_pshared = False\<rparr>)"

definition mutex_attr_set_shared :: "mutex_attr \<Rightarrow> (mutex_attr \<Rightarrow> ('d, 's, 'r) prog) \<Rightarrow> ('d, 's, 'r) prog" where
  "mutex_attr_set_shared attr k = Pthread Mutexattr_setpshared (\<lambda>errno.
     if errno \<noteq> 0 then mutex_attr_drop (Panic (Os_failure errno)) else k (attr\<lparr>ma_pshared := True\<rparr>))"

section \<open>The mutex\<close>

record 't mutex =
  mutex_data :: 't
  mutex_creator_pid :: int

definition mutex_new :: "'t \<Rightarrow> ('t mutex \<Rightarrow> ('d, 's, 'r) prog) \<Rightarrow> ('d, 's, 'r) prog" where
  "mutex_new contents k =
     mutex_attr_new (\<lambda>attr0. mutex_attr_set_shared attr0 (\<lambda>attr.
       Pthread (Pmutex_init attr) (\<lambda>errno.
         if errno \<noteq> 0 then mutex_attr_drop (Panic (Os_failure errno))
         else Getpid (\<lambda>pid.
           mutex_attr_drop (k \<lparr>mutex_data = contents, mutex_creator_pid = pid\<rparr>)))))"

definition guard_drop :: "('d, 's, 'r) prog \<Rightarrow> ('d, 's, 'r) prog" where
  "guard_drop k = Pthread Pmutex_unlock (\<lambda>errno. k)"

definition mutex_lock :: "('d, 's, 'r) prog \<Rightarrow> ('d, 's, 'r) prog" where
  "mutex_lock k = Pthread Pmutex_lock (\<lambda>errno.
     if errno \<noteq> 0 then Panic (Os_failure errno) else k)"

text \<open>\<open>Option<MutexGuard>\<close>: whether there is a guard.\<close>

definition mutex_try_lock :: "(bool \<Rightarrow> ('d, 's, 'r) prog) \<Rightarrow> ('d, 's, 'r) prog" where
  "mutex_try_lock k = Pthread Pmutex_trylock (\<lambda>errno.
     if errno = EBUSY then k False
     else if errno \<noteq> 0 then Panic (Os_failure errno) else k True)"

definition mutex_try_lock_until_internal :: "unix_clock \<Rightarrow> (bool \<Rightarrow> ('d, 's, 'r) prog) \<Rightarrow> ('d, 's, 'r) prog" where
  "mutex_try_lock_until_internal until k = Pthread (Pmutex_timedlock until) (\<lambda>errno.
     if errno = ETIMEDOUT then k False
     else if errno \<noteq> 0 then Panic (Os_failure errno) else k True)"

definition mutex_try_lock_for :: "profile \<Rightarrow> duration \<Rightarrow> (bool \<Rightarrow> ('d, 's, 'r) prog) \<Rightarrow> ('d, 's, 'r) prog" where
  "mutex_try_lock_for p d k = Gettime CLOCK_REALTIME (\<lambda>r.
     lift_exec Panic (exec_bind (unix_realtime (\<lambda>_. r)) (\<lambda>now. unix_add p now d))
       (\<lambda>until. mutex_try_lock_until_internal until k))"

text \<open>\<open>UnixClock::from(Instant)\<close> as a program: it reads \<open>Instant::now()\<close> and the monotonic clock.\<close>

definition unix_from :: "profile \<Rightarrow> instant \<Rightarrow> (panic \<Rightarrow> ('d, 's, 'r) prog) \<Rightarrow>
    (unix_clock \<Rightarrow> ('d, 's, 'r) prog) \<Rightarrow> ('d, 's, 'r) prog" where
  "unix_from p value unwind k = Instant_now (\<lambda>std_now. Gettime CLOCK_MONOTONIC (\<lambda>r.
     lift_exec unwind (unix_from_instant p (\<lambda>_. r) std_now value) k))"

definition mutex_try_lock_until :: "profile \<Rightarrow> instant \<Rightarrow> (bool \<Rightarrow> ('d, 's, 'r) prog) \<Rightarrow> ('d, 's, 'r) prog" where
  "mutex_try_lock_until p until k =
     unix_from p until Panic (\<lambda>until. mutex_try_lock_until_internal until k)"

text \<open>\<open>drop_data\<close> is the destructor of the protected value.\<close>

definition mutex_drop :: "int \<Rightarrow> ('d \<Rightarrow> 'd) \<Rightarrow> ('d, 's, 'r) prog \<Rightarrow> ('d, 's, 'r) prog" where
  "mutex_drop creator drop_data k = Getpid (\<lambda>pid.
     if creator \<noteq> pid then k
     else Pthread Pmutex_destroy (\<lambda>errno.
       if errno \<noteq> 0 then k else Exclusive drop_data (\<lambda>_. k)))"

section \<open>The operations in the thread logic\<close>

named_theorems safe_rules \<open>what a call needs of the code after it\<close>

lemma error_codes [simp]: "EBUSY \<noteq> 0" "ETIMEDOUT \<noteq> 0"
  by (simp_all add: EBUSY_def ETIMEDOUT_def)

lemma safe_guard_drop [safe_rules]:
  "res_inv C d \<Longrightarrow> safe C k Free h J \<Longrightarrow> safe C (guard_drop k) (Held d) h J"
  by (simp add: guard_drop_def)

lemma safe_lock [safe_rules]:
  "(\<And>d. res_inv C d \<Longrightarrow> safe C k (Held d) h J) \<Longrightarrow> (\<And>e. fault C (Os_failure e) h) \<Longrightarrow> safe C (mutex_lock k) Free h J"
  by (simp add: mutex_lock_def)

lemma safe_try_lock [safe_rules]:
  "(\<And>d. res_inv C d \<Longrightarrow> safe C (k True) (Held d) h J) \<Longrightarrow> safe C (k False) Free h J \<Longrightarrow> (\<And>e. fault C (Os_failure e) h) \<Longrightarrow>
     safe C (mutex_try_lock k) Free h J"
  by (simp add: mutex_try_lock_def)

lemma safe_timedlock [safe_rules]:
  "(\<And>d. res_inv C d \<Longrightarrow> safe C (k True) (Held d) h J) \<Longrightarrow> safe C (k False) Free h J \<Longrightarrow> (\<And>e. fault C (Os_failure e) h) \<Longrightarrow>
     safe C (mutex_try_lock_until_internal t k) Free h J"
  by (simp add: mutex_try_lock_until_internal_def)

text \<open>The code of the crate asserts nothing: a failed assertion is always one of the caller's.\<close>

lemma safe_lift_exec [safe_rules]:
  "(\<And>q. e = Panicked q \<Longrightarrow> safe C (unwind q) v h J) \<Longrightarrow> (\<And>x. e = Done x \<Longrightarrow> safe C (k x) v h J) \<Longrightarrow>
     safe C (lift_exec unwind e k) v h J"
  by (cases e) (auto intro!: exI [of _ "\<lambda>_ _ _. True"])

lemma safe_unix_from [safe_rules]:
  assumes "\<And>q. q \<noteq> Assertion_failed \<Longrightarrow> safe C (unwind q) v h J" "\<And>t. safe C (k t) v h J"
  shows "safe C (unix_from p value unwind k) v h J"
  unfolding unix_from_def safe.simps
proof (intro allI safe_lift_exec assms)
  fix now r q assume "unix_from_instant p (\<lambda>_. r) now value = Panicked q"
  then show "q \<noteq> Assertion_failed" by (metis unix_from_never_asserts asserts_simps(2))
qed

lemma safe_try_lock_for [safe_rules]:
  assumes "\<And>d. res_inv C d \<Longrightarrow> safe C (k True) (Held d) h J" "safe C (k False) Free h J"
    and "\<And>q. q \<noteq> Assertion_failed \<Longrightarrow> fault C q h"
  shows "safe C (mutex_try_lock_for p d k) Free h J"
  unfolding mutex_try_lock_for_def safe.simps
proof (intro allI safe_lift_exec)
  fix r q assume "exec_bind (unix_realtime (\<lambda>_. r)) (\<lambda>now. unix_add p now d) = Panicked q"
  moreover have "\<not> asserts (exec_bind (unix_realtime (\<lambda>_. r)) (\<lambda>now. unix_add p now d))"
    by (simp add: clock_never_asserts)
  ultimately show "safe C (Panic q) Free h J" using assms(3) by auto
qed (use assms in \<open>simp add: safe_timedlock\<close>)

lemma safe_try_lock_until [safe_rules]:
  "(\<And>d. res_inv C d \<Longrightarrow> safe C (k True) (Held d) h J) \<Longrightarrow> safe C (k False) Free h J \<Longrightarrow>
     (\<And>q. q \<noteq> Assertion_failed \<Longrightarrow> fault C q h) \<Longrightarrow> safe C (mutex_try_lock_until p t k) Free h J"
  by (simp add: mutex_try_lock_until_def safe_unix_from safe_timedlock)

section \<open>Deadlines of the timed locks\<close>

text \<open>
  \<open>pthread_mutex_timedlock\<close> measures its deadline on \<open>CLOCK_REALTIME\<close>. \<open>try_lock_for\<close> hands it
  a realtime deadline; \<open>try_lock_until\<close> hands it a reading of the monotonic clock.
\<close>

lemma try_lock_for_deadline:
  assumes "valid_timespec now" "tv_sec now + int (as_nanos d div giga) + 1 < 2 ^ 63"
  shows "\<exists>t k'. feed (mutex_try_lock_for p d k) [O_time CLOCK_REALTIME (0, now, 0)] =
      Some (Pthread (Pmutex_timedlock t) k') \<and> total_ns t = total_ns now + int (as_nanos d)"
  using unix_add_exact [OF assms, of p]
  by (auto simp: mutex_try_lock_for_def unix_realtime_def with_clock_id_def mutex_try_lock_until_internal_def)

lemma try_lock_until_monotonic:
  assumes "valid_timespec mnow" "std_now \<le> until" "tv_sec mnow + int ((until - std_now) div giga) + 1 < 2 ^ 63"
  shows "\<exists>t k'. feed (mutex_try_lock_until p until k) [O_now std_now, O_time CLOCK_MONOTONIC (0, mnow, 0)] =
      Some (Pthread (Pmutex_timedlock t) k') \<and> total_ns t = total_ns mnow + (int until - int std_now)"
  using unix_from_future [of "\<lambda>_. (0, mnow, 0)" mnow std_now until p] assms
  by (auto simp: mutex_try_lock_until_def unix_from_def unix_monotonic_def with_clock_id_def
      mutex_try_lock_until_internal_def)

section \<open>Destruction\<close>

lemma mutex_drop_other_process:
  "env_pid E \<noteq> creator \<Longrightarrow> solo E (mutex_drop creator f k) d s r d' s' \<longleftrightarrow> solo E k d s r d' s'"
  by (simp add: mutex_drop_def)

lemma mutex_drop_creator:
  "env_pid E = creator \<Longrightarrow> solo E (mutex_drop creator f k) d s r d' s' \<longleftrightarrow>
     solo E k (if env_errno E Pmutex_destroy = 0 then f d else d) s r d' s'"
  by (simp add: mutex_drop_def)

text \<open>A new mutex is process-shared, belongs to the calling process, and leaves no attribute behind.\<close>

lemma mutex_new_shared:
  "feed (mutex_new x k) [O_call Mutexattr_init 0, O_call Mutexattr_setpshared 0,
      O_call (Pmutex_init \<lparr>ma_pshared = True\<rparr>) 0, O_pid i, O_call Mutexattr_destroy e] =
    Some (k \<lparr>mutex_data = x, mutex_creator_pid = i\<rparr>)"
  by (simp add: mutex_new_def mutex_attr_new_def mutex_attr_set_shared_def mutex_attr_drop_def)

end
