(* ===== verification/Condvar.thy ===== *)
theory Condvar
  imports Mutex
begin

text \<open>
  \<open>src/condvar.rs\<close>: the process-shared condition variable. A wait takes the predicate \<open>is_ready\<close>
  as a program with a boolean result, evaluated under the guard, and \<open>unwind\<close>, what a panic
  inside the wait runs (the destructor of the caller's guard).
  The rules in the thread logic give the contract of the waits: whatever the environment answers,
  the code after a successful wait runs with the lock held, right after the predicate has returned
  true on the value it now sees.
\<close>

section \<open>Attributes\<close>

definition cond_attr_drop :: "('d, 's, 'r) prog \<Rightarrow> ('d, 's, 'r) prog" where
  "cond_attr_drop k = Pthread Condattr_destroy (\<lambda>errno. k)"

text \<open>POSIX: a fresh attribute is not shared and uses the realtime clock.\<close>

definition cond_attr_new :: "(cond_attr \<Rightarrow> ('d, 's, 'r) prog) \<Rightarrow> ('d, 's, 'r) prog" where
  "cond_attr_new k = Pthread Condattr_init (\<lambda>errno.
     if errno \<noteq> 0 then Panic (Os_failure errno)
     else k \<lparr>ca_pshared = False, ca_clock = CLOCK_REALTIME\<rparr>)"

definition cond_attr_set_shared :: "cond_attr \<Rightarrow> (cond_attr \<Rightarrow> ('d, 's, 'r) prog) \<Rightarrow> ('d, 's, 'r) prog" where
  "cond_attr_set_shared attr k = Pthread Condattr_setpshared (\<lambda>errno.
     if errno \<noteq> 0 then cond_attr_drop (Panic (Os_failure errno)) else k (attr\<lparr>ca_pshared := True\<rparr>))"

definition cond_attr_set_monotonic_clock :: "cond_attr \<Rightarrow> (cond_attr \<Rightarrow> ('d, 's, 'r) prog) \<Rightarrow> ('d, 's, 'r) prog" where
  "cond_attr_set_monotonic_clock attr k = Pthread (Condattr_setclock CLOCK_MONOTONIC) (\<lambda>errno.
     if errno \<noteq> 0 then cond_attr_drop (Panic (Os_failure errno))
     else k (attr\<lparr>ca_clock := CLOCK_MONOTONIC\<rparr>))"

section \<open>The condition variable\<close>

record condvar =
  raw_condvar :: cond_id
  cond_creator_pid :: int

definition condvar_new :: "cond_id \<Rightarrow> (condvar \<Rightarrow> ('d, 's, 'r) prog) \<Rightarrow> ('d, 's, 'r) prog" where
  "condvar_new c k =
     cond_attr_new (\<lambda>attr0. cond_attr_set_shared attr0 (\<lambda>attr1.
       cond_attr_set_monotonic_clock attr1 (\<lambda>attr.
         Pthread (Pcond_init attr) (\<lambda>errno.
           if errno \<noteq> 0 then cond_attr_drop (Panic (Os_failure errno))
           else Getpid (\<lambda>pid. cond_attr_drop (k \<lparr>raw_condvar = c, cond_creator_pid = pid\<rparr>))))))"

definition condvar_signal :: "cond_id \<Rightarrow> (panic \<Rightarrow> ('d, 's, 'r) prog) \<Rightarrow> ('d, 's, 'r) prog \<Rightarrow> ('d, 's, 'r) prog" where
  "condvar_signal c unwind k = Pthread (Pcond_signal c) (\<lambda>errno.
     if errno \<noteq> 0 then unwind (Os_failure errno) else k)"

definition condvar_broadcast :: "cond_id \<Rightarrow> (panic \<Rightarrow> ('d, 's, 'r) prog) \<Rightarrow> ('d, 's, 'r) prog \<Rightarrow> ('d, 's, 'r) prog" where
  "condvar_broadcast c unwind k = Pthread (Pcond_broadcast c) (\<lambda>errno.
     if errno \<noteq> 0 then unwind (Os_failure errno) else k)"

definition condvar_wait :: "cond_id \<Rightarrow> ((bool \<Rightarrow> ('d, 's, 'r) prog) \<Rightarrow> ('d, 's, 'r) prog) \<Rightarrow>
    (panic \<Rightarrow> ('d, 's, 'r) prog) \<Rightarrow> ('d, 's, 'r) prog \<Rightarrow> ('d, 's, 'r) prog" where
  "condvar_wait c is_ready unwind k =
     Loop (\<lambda>_. is_ready (\<lambda>ready.
       if ready then k
       else Pthread (Pcond_wait c) (\<lambda>errno.
         if errno \<noteq> 0 then unwind (Os_failure errno) else Continue 0))) 0"

text \<open>\<open>Result<(), ()>\<close>: whether the predicate held before the deadline.\<close>

definition condvar_wait_until_internal :: "cond_id \<Rightarrow> unix_clock \<Rightarrow>
    ((bool \<Rightarrow> ('d, 's, 'r) prog) \<Rightarrow> ('d, 's, 'r) prog) \<Rightarrow> (panic \<Rightarrow> ('d, 's, 'r) prog) \<Rightarrow>
    (bool \<Rightarrow> ('d, 's, 'r) prog) \<Rightarrow> ('d, 's, 'r) prog" where
  "condvar_wait_until_internal c until is_ready unwind k =
     Loop (\<lambda>_. is_ready (\<lambda>ready.
       if ready then k True
       else Pthread (Pcond_timedwait c until) (\<lambda>errno.
         if errno = ETIMEDOUT then is_ready (\<lambda>ready. if ready then k True else k False)
         else if errno \<noteq> 0 then unwind (Os_failure errno)
         else Continue 0))) 0"

definition condvar_wait_for :: "profile \<Rightarrow> cond_id \<Rightarrow> duration \<Rightarrow>
    ((bool \<Rightarrow> ('d, 's, 'r) prog) \<Rightarrow> ('d, 's, 'r) prog) \<Rightarrow> (panic \<Rightarrow> ('d, 's, 'r) prog) \<Rightarrow>
    (bool \<Rightarrow> ('d, 's, 'r) prog) \<Rightarrow> ('d, 's, 'r) prog" where
  "condvar_wait_for p c timeout is_ready unwind k = Gettime CLOCK_MONOTONIC (\<lambda>r.
     lift_exec unwind (exec_bind (unix_monotonic (\<lambda>_. r)) (\<lambda>now. unix_add p now timeout))
       (\<lambda>until. condvar_wait_until_internal c until is_ready unwind k))"

definition condvar_wait_until :: "profile \<Rightarrow> cond_id \<Rightarrow> instant \<Rightarrow>
    ((bool \<Rightarrow> ('d, 's, 'r) prog) \<Rightarrow> ('d, 's, 'r) prog) \<Rightarrow> (panic \<Rightarrow> ('d, 's, 'r) prog) \<Rightarrow>
    (bool \<Rightarrow> ('d, 's, 'r) prog) \<Rightarrow> ('d, 's, 'r) prog" where
  "condvar_wait_until p c until is_ready unwind k =
     unix_from p until unwind (\<lambda>until. condvar_wait_until_internal c until is_ready unwind k)"

definition condvar_drop :: "cond_id \<Rightarrow> int \<Rightarrow> ('d, 's, 'r) prog \<Rightarrow> ('d, 's, 'r) prog" where
  "condvar_drop c creator k = Getpid (\<lambda>pid.
     if creator \<noteq> pid then k else Pthread (Pcond_destroy c) (\<lambda>errno. k))"

section \<open>The operations in the thread logic\<close>

text \<open>
  \<open>pred_safe C is_ready R\<close>: evaluated under the lock, the predicate changes nothing, and its
  answer \<open>b\<close> on the value \<open>d\<close> satisfies \<open>R d b\<close>.
\<close>

definition pred_safe :: "('d, 's, 'ev, 'r) contract \<Rightarrow> ((bool \<Rightarrow> ('d, 's, 'r) prog) \<Rightarrow> ('d, 's, 'r) prog) \<Rightarrow>
    ('d \<Rightarrow> bool \<Rightarrow> bool) \<Rightarrow> bool" where
  "pred_safe C is_ready R \<longleftrightarrow> (\<forall>k d h J. (\<forall>b. R d b \<longrightarrow> safe C (k b) (Held d) h J) \<longrightarrow> safe C (is_ready k) (Held d) h J)"

lemma pred_safeD:
  "pred_safe C is_ready R \<Longrightarrow> (\<And>b. R d b \<Longrightarrow> safe C (k b) (Held d) h J) \<Longrightarrow> safe C (is_ready k) (Held d) h J"
  by (simp add: pred_safe_def)

lemma safe_signal [safe_rules]:
  "(\<And>e. safe C (unwind (Os_failure e)) v h J) \<Longrightarrow> safe C k v h J \<Longrightarrow> safe C (condvar_signal c unwind k) v h J"
  by (simp add: condvar_signal_def)

lemma safe_broadcast [safe_rules]:
  "(\<And>e. safe C (unwind (Os_failure e)) v h J) \<Longrightarrow> safe C k v h J \<Longrightarrow> safe C (condvar_broadcast c unwind k) v h J"
  by (simp add: condvar_broadcast_def)

lemma safe_wait [safe_rules]:
  assumes "pred_safe C is_ready R" "res_inv C d"
    and "\<And>q d. q \<noteq> Assertion_failed \<Longrightarrow> res_inv C d \<Longrightarrow> safe_top C (unwind q) (Held d) h"
    and "\<And>d. res_inv C d \<Longrightarrow> R d True \<Longrightarrow> safe_top C k (Held d) h"
  shows "safe C (condvar_wait c is_ready unwind k) (Held d) h J"
proof -
  let ?J = "\<lambda>(_::nat) v h'. h' = h \<and> (\<exists>d. v = Held d \<and> res_inv C d)"
  have u: "safe C (unwind (Os_failure e)) (Held d) h ?J" if "res_inv C d" for e d
    by (rule safe_from_top [OF assms(3) [OF _ that]]) simp
  have "safe C (is_ready (\<lambda>ready. if ready then k else Pthread (Pcond_wait c) (\<lambda>errno.
      if errno \<noteq> 0 then unwind (Os_failure errno) else Continue 0))) (Held d) h ?J" if d: "res_inv C d" for d
  proof (rule pred_safeD [OF assms(1)])
    fix b assume "R d b"
    with d safe_from_top [OF assms(4) [OF d], of ?J] u
    show "safe C (if b then k else Pthread (Pcond_wait c) (\<lambda>errno.
        if errno \<noteq> 0 then unwind (Os_failure errno) else Continue 0)) (Held d) h ?J"
      by (cases b) simp_all
  qed
  then show ?thesis using assms(2) unfolding condvar_wait_def safe.simps
    by (intro exI [of _ ?J]) auto
qed

lemma safe_wait_until_internal [safe_rules]:
  assumes "pred_safe C is_ready R" "res_inv C d"
    and "\<And>q d. q \<noteq> Assertion_failed \<Longrightarrow> res_inv C d \<Longrightarrow> safe_top C (unwind q) (Held d) h"
    and "\<And>b d. res_inv C d \<Longrightarrow> R d b \<Longrightarrow> safe_top C (k b) (Held d) h"
  shows "safe C (condvar_wait_until_internal c t is_ready unwind k) (Held d) h J"
proof -
  let ?J = "\<lambda>(_::nat) v h'. h' = h \<and> (\<exists>d. v = Held d \<and> res_inv C d)"
  have u: "safe C (unwind (Os_failure e)) (Held d) h ?J" if "res_inv C d" for e d
    by (rule safe_from_top [OF assms(3) [OF _ that]]) simp
  have k: "safe C (k b) (Held d) h ?J" if "res_inv C d" "R d b" for b d by (rule safe_from_top [OF assms(4) [OF that]])
  have again: "safe C (is_ready (\<lambda>ready. if ready then k True else k False)) (Held d) h ?J" if d: "res_inv C d" for d
  proof (rule pred_safeD [OF assms(1)])
    show "R d b \<Longrightarrow> safe C (if b then k True else k False) (Held d) h ?J" for b using k [OF d] by (cases b) simp_all
  qed
  have "safe C (is_ready (\<lambda>ready. if ready then k True else Pthread (Pcond_timedwait c t) (\<lambda>errno.
      if errno = ETIMEDOUT then is_ready (\<lambda>ready. if ready then k True else k False)
      else if errno \<noteq> 0 then unwind (Os_failure errno) else Continue 0))) (Held d) h ?J" if d: "res_inv C d" for d
  proof (rule pred_safeD [OF assms(1)])
    fix b assume "R d b"
    with d k [OF d] u again
    show "safe C (if b then k True else Pthread (Pcond_timedwait c t) (\<lambda>errno.
      if errno = ETIMEDOUT then is_ready (\<lambda>ready. if ready then k True else k False)
      else if errno \<noteq> 0 then unwind (Os_failure errno) else Continue 0)) (Held d) h ?J"
      by (cases b) simp_all
  qed
  then show ?thesis using assms(2) unfolding condvar_wait_until_internal_def safe.simps
    by (intro exI [of _ ?J]) auto
qed

lemma safe_wait_until [safe_rules]:
  assumes "pred_safe C is_ready R" "res_inv C d"
    and "\<And>q d. q \<noteq> Assertion_failed \<Longrightarrow> res_inv C d \<Longrightarrow> safe_top C (unwind q) (Held d) h"
    and "\<And>b d. res_inv C d \<Longrightarrow> R d b \<Longrightarrow> safe_top C (k b) (Held d) h"
  shows "safe C (condvar_wait_until p c t is_ready unwind k) (Held d) h J"
  unfolding condvar_wait_until_def
proof (rule safe_unix_from)
  show "q \<noteq> Assertion_failed \<Longrightarrow> safe C (unwind q) (Held d) h J" for q by (rule safe_from_top [OF assms(3) [OF _ assms(2)]])
  show "safe C (condvar_wait_until_internal c t' is_ready unwind k) (Held d) h J" for t'
    using assms by (rule safe_wait_until_internal)
qed

lemma safe_wait_for [safe_rules]:
  assumes "pred_safe C is_ready R" "res_inv C d"
    and "\<And>q d. q \<noteq> Assertion_failed \<Longrightarrow> res_inv C d \<Longrightarrow> safe_top C (unwind q) (Held d) h"
    and "\<And>b d. res_inv C d \<Longrightarrow> R d b \<Longrightarrow> safe_top C (k b) (Held d) h"
  shows "safe C (condvar_wait_for p c t is_ready unwind k) (Held d) h J"
  unfolding condvar_wait_for_def safe.simps
proof (intro allI, rule safe_lift_exec)
  fix r q assume "exec_bind (unix_monotonic (\<lambda>_. r)) (\<lambda>now. unix_add p now t) = Panicked q"
  moreover have "\<not> asserts (exec_bind (unix_monotonic (\<lambda>_. r)) (\<lambda>now. unix_add p now t))"
    by (simp add: clock_never_asserts)
  ultimately have "q \<noteq> Assertion_failed" by auto
  then show "safe C (unwind q) (Held d) h J" by (rule safe_from_top [OF assms(3) [OF _ assms(2)]])
next
  show "safe C (condvar_wait_until_internal c t' is_ready unwind k) (Held d) h J" for t'
    using assms by (rule safe_wait_until_internal)
qed

section \<open>Construction\<close>

text \<open>A new condition variable is shared between processes and measures deadlines on the
  monotonic clock, the clock \<open>wait_for\<close> and \<open>wait_until\<close> compute them on.\<close>

lemma condvar_new_monotonic:
  "feed (condvar_new c k) [O_call Condattr_init 0, O_call Condattr_setpshared 0,
      O_call (Condattr_setclock CLOCK_MONOTONIC) 0,
      O_call (Pcond_init \<lparr>ca_pshared = True, ca_clock = CLOCK_MONOTONIC\<rparr>) 0, O_pid i, O_call Condattr_destroy e] =
    Some (k \<lparr>raw_condvar = c, cond_creator_pid = i\<rparr>)"
  by (simp add: condvar_new_def cond_attr_new_def cond_attr_set_shared_def
      cond_attr_set_monotonic_clock_def cond_attr_drop_def)

end
