(* ===== verification/Memmap.thy ===== *)
theory Memmap
  imports Prelude
begin

text \<open>
  \<open>src/memmap.rs\<close>: the allocator that maps fresh shared pages for every request, and the
  \<open>Layout\<close> of a request. \<open>mmap\<close> and \<open>munmap\<close> are parameters over an opaque operating-system
  state \<open>'os\<close>; \<open>os_mappings\<close> observes which mappings are alive. \<open>mman_laws\<close> states their
  documented effect on them, \<open>bump_mman\<close> is a lawful instance.
\<close>

section \<open>Layouts and errors\<close>

record layout =
  l_size :: nat
  l_align :: nat

datatype alloc_error = AllocationError layout

text \<open>\<open>Layout::from_size_align\<close>: a power of two, and a size that rounded up stays below \<open>isize::MAX\<close>.\<close>

definition is_power_of_two :: "nat \<Rightarrow> bool" where
  "is_power_of_two n \<longleftrightarrow> list_ex (\<lambda>i. n = 2 ^ i) [0 ..< 64]"

definition layout_from_size_align :: "nat \<Rightarrow> nat \<Rightarrow> layout option" where
  "layout_from_size_align sz al =
     (if is_power_of_two al \<and> sz + (al - 1) < 2 ^ 63 then Some \<lparr>l_size = sz, l_align = al\<rparr> else None)"

section \<open>The mapping calls\<close>

record 'os mman =
  os_mmap :: "'os \<Rightarrow> nat \<Rightarrow> (int + nat) \<times> 'os"
  os_munmap :: "'os \<Rightarrow> nat \<Rightarrow> nat \<Rightarrow> (int + unit) \<times> 'os"
  os_mappings :: "'os \<Rightarrow> (nat \<times> nat) set"

definition memmap_alloc :: "'os mman \<Rightarrow> layout \<Rightarrow> 'os \<Rightarrow> (alloc_error + nat) \<times> 'os" where
  "memmap_alloc M layout os =
     (case os_mmap M os (l_size layout) of
        (Inr raw_ptr, os') \<Rightarrow>
          if raw_ptr = 0 then (Inl (AllocationError layout), os')
          else if raw_ptr mod l_align layout \<noteq> 0 then (Inl (AllocationError layout), os')
          else (Inr raw_ptr, os')
      | (Inl e, os') \<Rightarrow> (Inl (AllocationError layout), os'))"

definition memmap_dealloc :: "'os mman \<Rightarrow> nat \<Rightarrow> layout \<Rightarrow> 'os \<Rightarrow> 'os" where
  "memmap_dealloc M ptr layout os =
     (case os_munmap M os ptr (l_size layout) of (Inl e, os') \<Rightarrow> os' | (Inr _, os') \<Rightarrow> os')"

section \<open>What the calls promise\<close>

definition regions_apart :: "nat \<times> nat \<Rightarrow> nat \<times> nat \<Rightarrow> bool" where
  "regions_apart a b \<longleftrightarrow> fst a + snd a \<le> fst b \<or> fst b + snd b \<le> fst a"

definition mman_laws :: "'os mman \<Rightarrow> bool" where
  "mman_laws M \<longleftrightarrow>
     (\<forall>os len e os'. os_mmap M os len = (Inl e, os') \<longrightarrow> os_mappings M os' = os_mappings M os) \<and>
     (\<forall>os len ptr os'. os_mmap M os len = (Inr ptr, os') \<longrightarrow>
        (ptr, len) \<notin> os_mappings M os \<and> (\<forall>r \<in> os_mappings M os. regions_apart (ptr, len) r) \<and>
        os_mappings M os' = insert (ptr, len) (os_mappings M os)) \<and>
     (\<forall>os ptr len. (ptr, len) \<in> os_mappings M os \<longrightarrow>
        (\<exists>os'. os_munmap M os ptr len = (Inr (), os') \<and> os_mappings M os' = os_mappings M os - {(ptr, len)}))"

lemma memmap_alloc_ok:
  assumes "mman_laws M" "memmap_alloc M layout os = (Inr ptr, os')"
  shows "ptr \<noteq> 0" "ptr mod l_align layout = 0" "(ptr, l_size layout) \<notin> os_mappings M os"
    "\<forall>r \<in> os_mappings M os. regions_apart (ptr, l_size layout) r"
    "os_mappings M os' = insert (ptr, l_size layout) (os_mappings M os)"
  using assms by (auto simp: memmap_alloc_def mman_laws_def split: prod.splits sum.splits if_splits)

text \<open>A mapping that comes back misaligned (or null) is refused, but never unmapped.\<close>

lemma memmap_alloc_refused:
  assumes "mman_laws M" "os_mmap M os (l_size layout) = (Inr ptr, os')" "ptr = 0 \<or> ptr mod l_align layout \<noteq> 0"
  shows "memmap_alloc M layout os = (Inl (AllocationError layout), os')"
    "os_mappings M os' = insert (ptr, l_size layout) (os_mappings M os)"
    "(ptr, l_size layout) \<notin> os_mappings M os"
  using assms by (auto simp: memmap_alloc_def mman_laws_def)

lemma memmap_dealloc_alloc:
  assumes "mman_laws M" "memmap_alloc M layout os = (Inr ptr, os')"
  shows "os_mappings M (memmap_dealloc M ptr layout os') = os_mappings M os"
proof -
  note a = memmap_alloc_ok [OF assms]
  have "(ptr, l_size layout) \<in> os_mappings M os'" using a(5) by simp
  then obtain os'' where "os_munmap M os' ptr (l_size layout) = (Inr (), os'')"
    "os_mappings M os'' = os_mappings M os' - {(ptr, l_size layout)}"
    using assms(1) unfolding mman_laws_def by blast
  then show ?thesis using a by (simp add: memmap_dealloc_def)
qed

section \<open>A lawful instance\<close>

text \<open>
  The state is a step, the next free address and the live mappings. \<open>budget\<close> mappings succeed,
  each at the next multiple of the step; then \<open>mmap\<close> fails with \<open>ENOMEM\<close>.
\<close>

record bump =
  bump_step :: nat
  bump_next :: nat
  bump_budget :: nat
  bump_live :: "(nat \<times> nat) list"

definition bump_mman :: "bump mman" where
  "bump_mman = \<lparr>
     os_mmap = (\<lambda>os len.
       if bump_budget os = 0 \<or> list_ex (\<lambda>(a, l). bump_next os < a + l + 1) (bump_live os) then (Inl 12, os)
       else (Inr (bump_next os),
         os\<lparr>bump_next := bump_next os + bump_step os * Suc len, bump_budget := bump_budget os - 1,
            bump_live := (bump_next os, len) # bump_live os\<rparr>)),
     os_munmap = (\<lambda>os ptr len.
       if (ptr, len) \<in> set (bump_live os)
       then (Inr (), os\<lparr>bump_live := removeAll (ptr, len) (bump_live os)\<rparr>) else (Inl 22, os)),
     os_mappings = (\<lambda>os. set (bump_live os))\<rparr>"

lemma bump_mman_laws: "mman_laws bump_mman"
  by (auto simp: mman_laws_def bump_mman_def regions_apart_def list_ex_iff split: if_splits)

end
