(* ===== verification/Allocator.thy ===== *)
theory Allocator
  imports Chunks_Correct Condvar Memmap
begin

text \<open>
  \<open>src/allocator.rs\<close>: \<open>ShmemAlloc\<close>. The free list lives behind a process-shared mutex, so it is
  the protected data \<open>'d = 'v chunks\<close> of the programs below; \<open>'s\<close> is the rest of the shared
  world (operating-system state for \<open>new\<close>, memory contents for a client).
  \<open>CustomBox::new_in\<close> is third-party: a parameter that places the mutex in a fresh mapping.
  Pointers are addresses. \<open>Allocator_Correct\<close> holds the theorems.
\<close>

section \<open>The allocator and its construction\<close>

record shmem_alloc =
  free_chunks_ptr :: nat
  memory_buffer :: nat

datatype 'e initialization_error =
    ZeroCapacity
  | UnalignedCapacity nat
  | InternalVector nat 'e
  | InternalBuffer alloc_error
  | MemoryBuffer alloc_error

text \<open>A call into the allocator library, whose state is the shared world.\<close>

definition world_call :: "('s \<Rightarrow> 'x \<times> 's) \<Rightarrow> ('x \<Rightarrow> ('d, 's, 'r) prog) \<Rightarrow> ('d, 's, 'r) prog" where
  "world_call f k = Atomic (\<lambda>s. snd (f s)) (\<lambda>s. k (fst (f s)))"

definition shmem_alloc_new :: "profile \<Rightarrow> (free_space, 'v, 'e) vec_lib \<Rightarrow> 'os mman \<Rightarrow>
    ('os \<Rightarrow> (alloc_error + nat) \<times> 'os) \<Rightarrow> nat \<Rightarrow>
    ('d, 'os, 'e initialization_error + shmem_alloc \<times> 'v chunks mutex) prog" where
  "shmem_alloc_new p L M box_new_in capacity =
     (if capacity = 0 then Return (Inl ZeroCapacity)
      else if capacity mod ALIGNMENT \<noteq> 0 then Return (Inl (UnalignedCapacity capacity))
      else
        let max_chunks_count = capacity div ALIGNMENT in
        lift_exec Panic (chunks_new p L max_chunks_count) (\<lambda>r. case r of
          Inl e \<Rightarrow> Return (Inl (InternalVector max_chunks_count e))
        | Inr fc \<Rightarrow>
            mutex_new fc (\<lambda>m.
            world_call box_new_in (\<lambda>r. case r of
              Inl e \<Rightarrow> Return (Inl (InternalBuffer e))
            | Inr ptr \<Rightarrow>
                lift_exec Panic (expect (layout_from_size_align capacity ALIGNMENT)) (\<lambda>memory_layout.
                world_call (memmap_alloc M memory_layout) (\<lambda>r. case r of
                  Inl e \<Rightarrow> Return (Inl (MemoryBuffer e))
                | Inr buf \<Rightarrow> Return (Inr (\<lparr>free_chunks_ptr = ptr, memory_buffer = buf\<rparr>, m))))))))"

section \<open>Allocation\<close>

definition check_alignment :: "layout \<Rightarrow> alloc_error + unit" where
  "check_alignment layout =
     (if l_align layout = 0 \<or> l_size layout = 0 then Inr ()
      else if ALIGNMENT mod l_align layout \<noteq> 0 then Inl (AllocationError layout)
      else Inr ())"

text \<open>A panic between \<open>lock()\<close> and the end of the function drops the guard.\<close>

definition unlock_and_panic :: "panic \<Rightarrow> ('d, 's, 'r) prog" where
  "unlock_and_panic q = guard_drop (Panic q)"

definition alloc_excess :: "profile \<Rightarrow> (free_space, 'v, 'e) vec_lib \<Rightarrow> shmem_alloc \<Rightarrow> layout \<Rightarrow>
    (alloc_error + nat \<times> nat \<Rightarrow> ('v chunks, 's, 'r) prog) \<Rightarrow> ('v chunks, 's, 'r) prog" where
  "alloc_excess p L a layout k =
     (case check_alignment layout of
        Inl e \<Rightarrow> k (Inl e)
      | Inr _ \<Rightarrow>
          if l_size layout = 0 then k (Inr (l_align layout, 0))
          else mutex_lock (access_exec unlock_and_panic (\<lambda>c. chunks_get p L c (l_size layout)) (\<lambda>r.
            case r of
              Some chunk \<Rightarrow>
                lift_exec unlock_and_panic
                  (exec_bind (usize_mul p (fs_count chunk) CHUNK_SIZE) (\<lambda>usable_size.
                    exec_bind (rb_into_absolute p (relative_beginning chunk) (memory_buffer a)) (\<lambda>ptr.
                      Done (ptr, usable_size))))
                  (\<lambda>excess. guard_drop (k (Inr excess)))
            | None \<Rightarrow> guard_drop (k (Inl (AllocationError layout))))))"

definition shmem_alloc_alloc :: "profile \<Rightarrow> (free_space, 'v, 'e) vec_lib \<Rightarrow> shmem_alloc \<Rightarrow> layout \<Rightarrow>
    (alloc_error + nat \<Rightarrow> ('v chunks, 's, 'r) prog) \<Rightarrow> ('v chunks, 's, 'r) prog" where
  "shmem_alloc_alloc p L a layout k =
     (case check_alignment layout of
        Inl e \<Rightarrow> k (Inl e)
      | Inr _ \<Rightarrow> alloc_excess p L a layout (\<lambda>r. case r of
            Inl e \<Rightarrow> k (Inl e) | Inr (ptr, _) \<Rightarrow> k (Inr ptr)))"

definition alloc_zeroed :: "profile \<Rightarrow> (free_space, 'v, 'e) vec_lib \<Rightarrow> shmem_alloc \<Rightarrow> layout \<Rightarrow>
    (alloc_error + nat \<Rightarrow> ('v chunks, 's, 'r) prog) \<Rightarrow> ('v chunks, 's, 'r) prog" where
  "alloc_zeroed p L a layout k = shmem_alloc_alloc p L a layout k"

definition usable_size :: "profile \<Rightarrow> layout \<Rightarrow> (nat \<times> nat) exec" where
  "usable_size p layout =
     (case check_alignment layout of
        Inr _ \<Rightarrow>
          exec_bind
            (if l_size layout mod CHUNK_SIZE = 0 then Done (l_size layout)
             else usize_mul p (l_size layout div CHUNK_SIZE) (CHUNK_SIZE + 1))
            (\<lambda>sz. Done (sz, sz))
      | Inl _ \<Rightarrow> Done (0, 0))"

definition shmem_alloc_dealloc :: "profile \<Rightarrow> (free_space, 'v, 'e) vec_lib \<Rightarrow> shmem_alloc \<Rightarrow> nat \<Rightarrow> layout \<Rightarrow>
    ('v chunks, 's, 'r) prog \<Rightarrow> ('v chunks, 's, 'r) prog" where
  "shmem_alloc_dealloc p L a ptr layout k =
     (if l_align layout = ptr then k
      else case check_alignment layout of
        Inl e \<Rightarrow> k
      | Inr _ \<Rightarrow>
          (case usize_checked_sub ptr (memory_buffer a) of
             None \<Rightarrow> k
           | Some shift \<Rightarrow>
               mutex_lock (access_exec unlock_and_panic
                 (\<lambda>c. exec_bind (chunks_return_back p L c shift (l_size layout)) (\<lambda>c'. Done ((), c')))
                 (\<lambda>_. guard_drop k))))"

end
