(* ===== verification/Allocator_Correct.thy ===== *)
theory Allocator_Correct
  imports Allocator
begin

text \<open>
  What \<open>ShmemAlloc\<close> guarantees its users. First each operation in terms of the free list, then
  an arbitrary client: a sequence of allocations, releases of live blocks and writes inside them
  (\<open>client_step\<close>, each call run to its end under the mutex). The invariant says that every chunk
  of the buffer has exactly one owner, the free list or one live block.
\<close>

section \<open>One call\<close>

definition buffer_ok :: "nat \<Rightarrow> shmem_alloc \<Rightarrow> bool" where
  "buffer_ok n a \<longleftrightarrow> memory_buffer a mod CHUNK_SIZE = 0 \<and> CHUNK_SIZE < memory_buffer a \<and>
     memory_buffer a + n * CHUNK_SIZE < usize_bound"

definition supported :: "layout \<Rightarrow> bool" where
  "supported layout \<longleftrightarrow> 0 < l_size layout \<and> l_size layout < usize_bound \<and> ALIGNMENT mod l_align layout = 0"

text \<open>What \<open>Layout\<close> guarantees of its values.\<close>

definition valid_layout :: "layout \<Rightarrow> bool" where
  "valid_layout layout \<longleftrightarrow> layout_from_size_align (l_size layout) (l_align layout) = Some layout"

lemma valid_layout_bounds: "valid_layout layout \<Longrightarrow> l_size layout < usize_bound \<and> 0 < l_align layout"
  by (auto simp: valid_layout_def layout_from_size_align_def usize_bound_def is_power_of_two_def list_ex_iff
      split: if_splits)

text \<open>The address of a chunk.\<close>

definition chunk_addr :: "shmem_alloc \<Rightarrow> nat \<Rightarrow> nat" where
  "chunk_addr a i = memory_buffer a + i * CHUNK_SIZE"

lemma supported_align: "supported layout \<Longrightarrow> 0 < l_align layout \<and> l_align layout \<le> CHUNK_SIZE"
proof -
  assume "supported layout"
  then have "l_align layout dvd 8" by (simp add: supported_def ALIGNMENT_def dvd_eq_mod_eq_0)
  then show ?thesis by (auto simp: CHUNK_SIZE_8 intro: dvd_imp_le Nat.gr0I)
qed

lemma check_alignment_supported [simp]: "supported layout \<Longrightarrow> check_alignment layout = Inr ()"
  by (simp add: check_alignment_def supported_def)

lemma check_alignment_error:
  "check_alignment layout = Inl e \<longleftrightarrow>
     e = AllocationError layout \<and> l_align layout \<noteq> 0 \<and> l_size layout \<noteq> 0 \<and> ALIGNMENT mod l_align layout \<noteq> 0"
  by (auto simp: check_alignment_def)

lemma alloc_excess_full:
  assumes "env_errno E Pmutex_lock = 0" "supported layout" "chunks_get p L c (l_size layout) = Done (None, c)"
  shows "solo E (alloc_excess p L a layout k) c s r d' s' \<longleftrightarrow>
    solo E (k (Inl (AllocationError layout))) c s r d' s'"
  using assms by (simp add: alloc_excess_def mutex_lock_def access_exec_def guard_drop_def supported_def)

lemma alloc_excess_taken:
  assumes "env_errno E Pmutex_lock = 0" "supported layout" "buffer_ok n a" "fs_end f \<le> n"
    and "chunks_get p L c (l_size layout) = Done (Some f, c')"
  shows "solo E (alloc_excess p L a layout k) c s r d' s' \<longleftrightarrow>
    solo E (k (Inr (chunk_addr a (fs_begin f), fs_count f * CHUNK_SIZE))) c' s r d' s'"
proof -
  have "fs_begin f * CHUNK_SIZE \<le> n * CHUNK_SIZE" "fs_count f * CHUNK_SIZE \<le> n * CHUNK_SIZE"
    using assms(4) by (simp_all add: CHUNK_SIZE_8)
  with assms(3) have "fs_begin f * CHUNK_SIZE < usize_bound" "fs_count f * CHUNK_SIZE < usize_bound"
    "memory_buffer a + fs_begin f * CHUNK_SIZE < usize_bound"
    unfolding buffer_ok_def by linarith+
  then have "usize_mul p (fs_count f) CHUNK_SIZE = Done (fs_count f * CHUNK_SIZE)"
    and "rb_into_absolute p (relative_beginning f) (memory_buffer a) = Done (chunk_addr a (fs_begin f))"
    by (simp_all add: rb_into_absolute_def chunk_addr_def)
  then show ?thesis
    using assms(1,2,5) by (simp add: alloc_excess_def mutex_lock_def access_exec_def guard_drop_def supported_def)
qed

lemma alloc_excess_zero:
  "l_size layout = 0 \<Longrightarrow> alloc_excess p L a layout k = k (Inr (l_align layout, 0))"
  by (simp add: alloc_excess_def check_alignment_def)

lemma alloc_zero: "l_size layout = 0 \<Longrightarrow> shmem_alloc_alloc p L a layout k = k (Inr (l_align layout))"
  by (simp add: shmem_alloc_alloc_def alloc_excess_zero check_alignment_def)

lemma alloc_unsupported:
  "check_alignment layout = Inl e \<Longrightarrow> shmem_alloc_alloc p L a layout k = k (Inl e)"
  by (simp add: shmem_alloc_alloc_def)

lemma alloc_eq_excess:
  "supported layout \<Longrightarrow> shmem_alloc_alloc p L a layout k =
     alloc_excess p L a layout (\<lambda>r. case r of Inl e \<Rightarrow> k (Inl e) | Inr (ptr, _) \<Rightarrow> k (Inr ptr))"
  by (simp add: shmem_alloc_alloc_def)

lemma dealloc_zero: "l_align layout = ptr \<Longrightarrow> shmem_alloc_dealloc p L a ptr layout k = k"
  by (simp add: shmem_alloc_dealloc_def)

lemma dealloc_block:
  assumes "env_errno E Pmutex_lock = 0" "supported layout" "buffer_ok n a"
    and "chunks_return_back p L c (i * CHUNK_SIZE) (l_size layout) = Done c'"
  shows "solo E (shmem_alloc_dealloc p L a (chunk_addr a i) layout k) c s r d' s' \<longleftrightarrow> solo E k c' s r d' s'"
proof -
  have "l_align layout \<noteq> chunk_addr a i"
    using supported_align [OF assms(2)] assms(3) by (simp add: buffer_ok_def chunk_addr_def)
  then show ?thesis using assms
    by (simp add: shmem_alloc_dealloc_def chunk_addr_def usize_checked_sub_def mutex_lock_def
        access_exec_def guard_drop_def)
qed

section \<open>Clients\<close>

text \<open>A client starts on a fresh allocator, whose mapped memory is zero-filled.\<close>

record 'v client =
  cl_chunks :: "'v chunks"
  cl_live :: "(nat \<times> layout) list"
  cl_mem :: "nat \<Rightarrow> nat"

inductive client_step :: "profile \<Rightarrow> (free_space, 'v, 'e) vec_lib \<Rightarrow> shmem_alloc \<Rightarrow> env \<Rightarrow>
    'v client \<Rightarrow> 'v client \<Rightarrow> bool" for p L a E where
  client_alloc: "valid_layout layout \<Longrightarrow>
     solo E (shmem_alloc_alloc p L a layout Return) (cl_chunks s) (cl_mem s) (Done (Inr ptr)) c' m' \<Longrightarrow>
     client_step p L a E s \<lparr>cl_chunks = c', cl_live = (ptr, layout) # cl_live s, cl_mem = m'\<rparr>"
| client_refused: "valid_layout layout \<Longrightarrow>
     solo E (shmem_alloc_alloc p L a layout Return) (cl_chunks s) (cl_mem s) (Done (Inl e)) c' m' \<Longrightarrow>
     client_step p L a E s (s\<lparr>cl_chunks := c', cl_mem := m'\<rparr>)"
| client_dealloc: "(ptr, layout) \<in> set (cl_live s) \<Longrightarrow>
     solo E (shmem_alloc_dealloc p L a ptr layout (Return ())) (cl_chunks s) (cl_mem s) (Done ()) c' m' \<Longrightarrow>
     client_step p L a E s \<lparr>cl_chunks = c', cl_live = remove1 (ptr, layout) (cl_live s), cl_mem = m'\<rparr>"
| client_write: "(ptr, layout) \<in> set (cl_live s) \<Longrightarrow> ptr \<le> x \<Longrightarrow> x < ptr + l_size layout \<Longrightarrow>
     client_step p L a E s (s\<lparr>cl_mem := (cl_mem s)(x := v)\<rparr>)"

inductive client_reach :: "profile \<Rightarrow> (free_space, 'v, 'e) vec_lib \<Rightarrow> nat \<Rightarrow> shmem_alloc \<Rightarrow> env \<Rightarrow>
    'v client \<Rightarrow> bool" for p L n a E where
  client_start: "chunks_new p L n = Done (Inr c) \<Longrightarrow>
     client_reach p L n a E \<lparr>cl_chunks = c, cl_live = [], cl_mem = (\<lambda>_. 0)\<rparr>"
| client_more: "client_reach p L n a E s \<Longrightarrow> client_step p L a E s s' \<Longrightarrow> client_reach p L n a E s'"

section \<open>Every chunk has one owner\<close>

definition block_cells :: "shmem_alloc \<Rightarrow> nat \<times> layout \<Rightarrow> nat set" where
  "block_cells a b = (let i = (fst b - memory_buffer a) div CHUNK_SIZE
     in if l_size (snd b) = 0 then {} else {i ..< i + chunks_of (l_size (snd b))})"

definition block_ok :: "nat \<Rightarrow> shmem_alloc \<Rightarrow> nat \<times> layout \<Rightarrow> bool" where
  "block_ok n a b \<longleftrightarrow>
     (if l_size (snd b) = 0 then fst b = l_align (snd b)
      else supported (snd b) \<and> (\<exists>i. fst b = chunk_addr a i \<and> i + chunks_of (l_size (snd b)) \<le> n))"

definition owners :: "(free_space, 'v, 'e) vec_lib \<Rightarrow> shmem_alloc \<Rightarrow> 'v client \<Rightarrow> nat \<Rightarrow> nat" where
  "owners L a s x = length (filter (\<lambda>b. x \<in> block_cells a b) (cl_live s)) +
     (if x \<in> free_set L (cl_chunks s) then 1 else 0)"

definition client_inv :: "(free_space, 'v, 'e) vec_lib \<Rightarrow> nat \<Rightarrow> shmem_alloc \<Rightarrow> 'v client \<Rightarrow> bool" where
  "client_inv L n a s \<longleftrightarrow> chunks_inv L n (cl_chunks s) \<and> (\<forall>b \<in> set (cl_live s). block_ok n a b) \<and>
     (\<forall>x. owners L a s x = (if x < n then 1 else 0))"

lemma block_cells_at [simp]:
  "l_size layout \<noteq> 0 \<Longrightarrow> block_cells a (chunk_addr a i, layout) = {i ..< i + chunks_of (l_size layout)}"
  by (simp add: block_cells_def chunk_addr_def CHUNK_SIZE_8)

lemma length_filter_remove1:
  "b \<in> set xs \<Longrightarrow> length (filter P (remove1 b xs)) + (if P b then 1 else 0) = length (filter P xs)"
  by (induction xs) auto

text \<open>
  An allocation as a function of the free list: the reference the program is equal to.
\<close>

definition alloc_ref :: "profile \<Rightarrow> (free_space, 'v, 'e) vec_lib \<Rightarrow> shmem_alloc \<Rightarrow> 'v chunks \<Rightarrow> layout \<Rightarrow>
    (alloc_error + nat \<times> nat) \<times> 'v chunks" where
  "alloc_ref p L a c layout =
     (if l_size layout = 0 then (Inr (l_align layout, 0), c)
      else if \<not> supported layout then (Inl (AllocationError layout), c)
      else case chunks_get p L c (l_size layout) of
          Done (Some f, c') \<Rightarrow> (Inr (chunk_addr a (fs_begin f), fs_count f * CHUNK_SIZE), c')
        | _ \<Rightarrow> (Inl (AllocationError layout), c))"

lemma check_alignment_unsupported:
  "valid_layout layout \<Longrightarrow> l_size layout \<noteq> 0 \<Longrightarrow> \<not> supported layout \<Longrightarrow>
     check_alignment layout = Inl (AllocationError layout)"
  using valid_layout_bounds [of layout] by (auto simp: check_alignment_def supported_def)

lemma solo_alloc_excess:
  assumes "env_errno E Pmutex_lock = 0" "buffer_ok n a" "chunks_inv L n c" "valid_layout layout"
  shows "solo E (alloc_excess p L a layout k) c m r d' m' \<longleftrightarrow>
    solo E (k (fst (alloc_ref p L a c layout))) (snd (alloc_ref p L a c layout)) m r d' m'"
proof -
  consider "l_size layout = 0" | "l_size layout \<noteq> 0" "\<not> supported layout" | "supported layout" by blast
  then show ?thesis
  proof cases
    case 1
    then show ?thesis by (simp add: alloc_excess_zero alloc_ref_def)
  next
    case 2
    then show ?thesis
      using check_alignment_unsupported [OF assms(4)] by (simp add: alloc_ref_def alloc_excess_def)
  next
    case 3
    then have sz: "0 < l_size layout" "l_size layout < usize_bound" by (simp_all add: supported_def)
    show ?thesis
    proof (rule cm.get_total [OF assms(3) sz, of p])
      assume "chunks_get p L c (l_size layout) = Done (None, c)"
      then show ?thesis using 3 sz by (simp add: alloc_excess_full [OF assms(1)] alloc_ref_def)
    next
      fix f c' assume get: "chunks_get p L c (l_size layout) = Done (Some f, c')"
      then have "fs_end f \<le> n" by (rule cm.get_in_range(3) [OF assms(3) sz])
      from alloc_excess_taken [OF assms(1) 3 assms(2) this get] get 3 sz
      show ?thesis by (simp add: alloc_ref_def)
    qed
  qed
qed

lemma solo_alloc:
  assumes "env_errno E Pmutex_lock = 0" "buffer_ok n a" "chunks_inv L n c" "valid_layout layout"
  shows "solo E (shmem_alloc_alloc p L a layout k) c m r d' m' \<longleftrightarrow>
    solo E (k (map_sum id fst (fst (alloc_ref p L a c layout)))) (snd (alloc_ref p L a c layout)) m r d' m'"
proof (cases "check_alignment layout")
  case (Inl e)
  then have "\<not> supported layout" "l_size layout \<noteq> 0" "e = AllocationError layout"
    by (auto simp: check_alignment_error supported_def)
  with Inl show ?thesis by (simp add: alloc_unsupported alloc_ref_def)
next
  case (Inr _)
  then have "shmem_alloc_alloc p L a layout k =
      alloc_excess p L a layout (\<lambda>r. case r of Inl e \<Rightarrow> k (Inl e) | Inr (ptr, _) \<Rightarrow> k (Inr ptr))"
    by (simp add: shmem_alloc_alloc_def)
  then show ?thesis
    by (simp add: solo_alloc_excess [OF assms] split: sum.split prod.split)
qed

text \<open>The possible results.\<close>

lemma alloc_ref_cases:
  assumes "chunks_inv L n c" "valid_layout layout"
  obtains (zero) "l_size layout = 0" "alloc_ref p L a c layout = (Inr (l_align layout, 0), c)"
  | (refused) "l_size layout \<noteq> 0"
      "\<not> supported layout \<or> (\<forall>b. \<not> {b ..< b + chunks_of (l_size layout)} \<subseteq> free_set L c)"
      "alloc_ref p L a c layout = (Inl (AllocationError layout), c)"
  | (taken) i c' where "supported layout" "chunks_inv L n c'" "i + chunks_of (l_size layout) \<le> n"
      "{i ..< i + chunks_of (l_size layout)} \<subseteq> free_set L c"
      "free_set L c' = free_set L c - {i ..< i + chunks_of (l_size layout)}"
      "alloc_ref p L a c layout = (Inr (chunk_addr a i, chunks_of (l_size layout) * CHUNK_SIZE), c')"
proof -
  consider "l_size layout = 0" | "l_size layout \<noteq> 0" "\<not> supported layout" | "supported layout" by blast
  then show thesis
  proof cases
    case 1
    then show thesis by (intro zero) (simp_all add: alloc_ref_def)
  next
    case 2
    then show thesis by (intro refused) (simp_all add: alloc_ref_def)
  next
    case 3
    then have sz: "0 < l_size layout" "l_size layout < usize_bound" by (simp_all add: supported_def)
    show thesis
    proof (rule cm.get_total [OF assms(1) sz, of p])
      assume "chunks_get p L c (l_size layout) = Done (None, c)"
        "\<forall>b. \<not> {b ..< b + chunks_of (l_size layout)} \<subseteq> free_set L c"
      then show thesis using sz by (intro refused) (simp_all add: alloc_ref_def)
    next
      fix f c' assume get: "chunks_get p L c (l_size layout) = Done (Some f, c')"
      note g = cm.get_in_range [OF assms(1) sz get]
      have "cells f = {fs_begin f ..< fs_begin f + chunks_of (l_size layout)}"
        using g(2) by (simp add: cells_def)
      with g get 3 sz show thesis by (intro taken [of c' "fs_begin f"]) (simp_all add: alloc_ref_def)
    qed
  qed
qed

lemma client_inv_start:
  assumes "vec_laws L" "0 < n" "n < usize_bound" "chunks_new p L n = Done (Inr c)"
  shows "client_inv L n a \<lparr>cl_chunks = c, cl_live = [], cl_mem = m\<rparr>"
proof -
  have c: "chunks_inv L n c" "vec_slice L (free_chunks c) = [FreeSpace rb_zero n]"
    using chunks_new_ok [OF assms(1-3), of p] assms(4) by auto
  then have "free_set L c = {0 ..< n}" using free_set_new [of n] by (simp only: free_set_def)
  with c show ?thesis by (simp add: client_inv_def owners_def)
qed

lemma owners_alloc:
  assumes "client_inv L n a s" "l_size layout \<noteq> 0" "{i ..< i + chunks_of (l_size layout)} \<subseteq> free_set L (cl_chunks s)"
    and "free_set L c' = free_set L (cl_chunks s) - {i ..< i + chunks_of (l_size layout)}"
  shows "owners L a \<lparr>cl_chunks = c', cl_live = (chunk_addr a i, layout) # cl_live s, cl_mem = m'\<rparr> x = owners L a s x"
  using assms by (auto simp: owners_def subset_iff)

lemma client_inv_alloc:
  assumes ok: "env_errno E Pmutex_lock = 0" "buffer_ok n a" and inv: "client_inv L n a s" and lay: "valid_layout layout"
    and run: "solo E (shmem_alloc_alloc p L a layout Return) (cl_chunks s) (cl_mem s) (Done r) c' m'"
  shows "case r of
      Inr ptr \<Rightarrow> client_inv L n a \<lparr>cl_chunks = c', cl_live = (ptr, layout) # cl_live s, cl_mem = m'\<rparr>
    | Inl e \<Rightarrow> client_inv L n a (s\<lparr>cl_chunks := c', cl_mem := m'\<rparr>)"
proof -
  have c: "chunks_inv L n (cl_chunks s)" using inv by (simp add: client_inv_def)
  have r: "r = map_sum id fst (fst (alloc_ref p L a (cl_chunks s) layout))"
    "c' = snd (alloc_ref p L a (cl_chunks s) layout)" "m' = cl_mem s"
    using run by (simp_all add: solo_alloc [OF ok c lay])
  show ?thesis
  proof (cases rule: alloc_ref_cases [OF c lay, of p a, case_names zero refused taken])
    case zero
    then show ?thesis
      using r inv by (simp add: client_inv_def owners_def block_ok_def block_cells_def)
  next
    case refused
    then show ?thesis using r inv by (simp add: client_inv_def owners_def)
  next
    case (taken i c'')
    then have "l_size layout \<noteq> 0" by (simp add: supported_def)
    with taken r show ?thesis
      using inv owners_alloc [OF inv _ taken(4,5)] by (auto simp: client_inv_def block_ok_def)
  qed
qed

definition dealloc_ref :: "profile \<Rightarrow> (free_space, 'v, 'e) vec_lib \<Rightarrow> shmem_alloc \<Rightarrow> 'v chunks \<Rightarrow>
    nat \<times> layout \<Rightarrow> 'v chunks" where
  "dealloc_ref p L a c b =
     (if fst b = l_align (snd b) then c
      else case chunks_return_back p L c (fst b - memory_buffer a) (l_size (snd b)) of
          Done c' \<Rightarrow> c' | _ \<Rightarrow> c)"

lemma live_block_not_free:
  assumes "client_inv L n a s" "b \<in> set (cl_live s)"
  shows "block_cells a b \<inter> free_set L (cl_chunks s) = {}"
proof (rule ccontr)
  assume "\<not> ?thesis"
  then obtain x where x: "x \<in> block_cells a b" "x \<in> free_set L (cl_chunks s)" by blast
  have "b \<in> set (filter (\<lambda>b. x \<in> block_cells a b) (cl_live s))" using assms(2) x by simp
  then have "0 < length (filter (\<lambda>b. x \<in> block_cells a b) (cl_live s))"
    by (rule length_pos_if_in_set)
  then have "2 \<le> owners L a s x" using x(2) by (simp add: owners_def Suc_le_eq)
  moreover have "owners L a s x \<le> 1" using assms(1) by (simp add: client_inv_def)
  ultimately show False by simp
qed

lemma dealloc_returns:
  assumes inv: "client_inv L n a s" and live: "(ptr, layout) \<in> set (cl_live s)" and nz: "l_size layout \<noteq> 0"
    and buf: "buffer_ok n a"
  obtains i c' where "ptr = chunk_addr a i" "supported layout" "ptr \<noteq> l_align layout"
    "chunks_return_back p L (cl_chunks s) (i * CHUNK_SIZE) (l_size layout) = Done c'" "chunks_inv L n c'"
    "free_set L c' = free_set L (cl_chunks s) \<union> block_cells a (ptr, layout)"
proof -
  have c: "chunks_inv L n (cl_chunks s)" and b: "block_ok n a (ptr, layout)"
    using inv live by (auto simp: client_inv_def)
  then obtain i where i: "ptr = chunk_addr a i" "i + chunks_of (l_size layout) \<le> n" "supported layout"
    using nz by (auto simp: block_ok_def)
  have sz: "0 < l_size layout" "l_size layout < usize_bound" using i(3) by (simp_all add: supported_def)
  have cells: "block_cells a (ptr, layout) = {i ..< i + chunks_of (l_size layout)}" using nz i(1) by simp
  have "ptr \<noteq> l_align layout"
    using supported_align [OF i(3)] buf i(1) by (simp add: buffer_ok_def chunk_addr_def)
  with cm.give_law [OF c sz i(2), of p] live_block_not_free [OF inv live] cells i that show thesis
    by auto
qed

lemma solo_dealloc:
  assumes ok: "env_errno E Pmutex_lock = 0" "buffer_ok n a" and inv: "client_inv L n a s"
    and live: "(ptr, layout) \<in> set (cl_live s)"
  shows "solo E (shmem_alloc_dealloc p L a ptr layout k) (cl_chunks s) m r d' m' \<longleftrightarrow>
    solo E k (dealloc_ref p L a (cl_chunks s) (ptr, layout)) m r d' m'"
proof (cases "l_size layout = 0")
  case True
  have "block_ok n a (ptr, layout)" using inv live by (auto simp: client_inv_def)
  with True have "ptr = l_align layout" by (simp add: block_ok_def)
  then show ?thesis by (simp add: dealloc_zero dealloc_ref_def)
next
  case False
  then obtain i c' where i: "ptr = chunk_addr a i" "supported layout" "ptr \<noteq> l_align layout"
    "chunks_return_back p L (cl_chunks s) (i * CHUNK_SIZE) (l_size layout) = Done c'"
    using dealloc_returns [OF inv live _ ok(2), of p] by blast
  then have "dealloc_ref p L a (cl_chunks s) (ptr, layout) = c'"
    by (simp add: dealloc_ref_def chunk_addr_def)
  with dealloc_block [OF ok(1) i(2) ok(2) i(4)] i(1) show ?thesis by simp
qed

lemma dealloc_ref_props:
  assumes inv: "client_inv L n a s" and live: "(ptr, layout) \<in> set (cl_live s)" and buf: "buffer_ok n a"
  shows "chunks_inv L n (dealloc_ref p L a (cl_chunks s) (ptr, layout))"
    "free_set L (dealloc_ref p L a (cl_chunks s) (ptr, layout)) =
      free_set L (cl_chunks s) \<union> block_cells a (ptr, layout)"
proof -
  have "chunks_inv L n (dealloc_ref p L a (cl_chunks s) (ptr, layout)) \<and>
    free_set L (dealloc_ref p L a (cl_chunks s) (ptr, layout)) =
      free_set L (cl_chunks s) \<union> block_cells a (ptr, layout)"
  proof (cases "l_size layout = 0")
    case True
    have "block_ok n a (ptr, layout)" using inv live by (auto simp: client_inv_def)
    with True inv show ?thesis by (simp add: block_ok_def dealloc_ref_def client_inv_def block_cells_def)
  next
    case False
    then obtain i c' where "ptr = chunk_addr a i" "ptr \<noteq> l_align layout"
      "chunks_return_back p L (cl_chunks s) (i * CHUNK_SIZE) (l_size layout) = Done c'" "chunks_inv L n c'"
      "free_set L c' = free_set L (cl_chunks s) \<union> block_cells a (ptr, layout)"
      using dealloc_returns [OF inv live _ buf, of p] by blast
    then show ?thesis by (simp add: dealloc_ref_def chunk_addr_def)
  qed
  then show "chunks_inv L n (dealloc_ref p L a (cl_chunks s) (ptr, layout))"
    "free_set L (dealloc_ref p L a (cl_chunks s) (ptr, layout)) =
      free_set L (cl_chunks s) \<union> block_cells a (ptr, layout)" by simp_all
qed

lemma client_inv_dealloc:
  assumes ok: "env_errno E Pmutex_lock = 0" "buffer_ok n a" and inv: "client_inv L n a s"
    and live: "(ptr, layout) \<in> set (cl_live s)"
    and run: "solo E (shmem_alloc_dealloc p L a ptr layout (Return ())) (cl_chunks s) (cl_mem s) (Done ()) c' m'"
  shows "client_inv L n a \<lparr>cl_chunks = c', cl_live = remove1 (ptr, layout) (cl_live s), cl_mem = m'\<rparr>"
proof -
  let ?s = "\<lparr>cl_chunks = c', cl_live = remove1 (ptr, layout) (cl_live s), cl_mem = m'\<rparr>"
  have c': "c' = dealloc_ref p L a (cl_chunks s) (ptr, layout)"
    using run by (simp add: solo_dealloc [OF ok inv live])
  note props = dealloc_ref_props [OF inv live ok(2), of p, folded c']
  have "owners L a ?s x = owners L a s x" for x
  proof -
    have "x \<in> block_cells a (ptr, layout) \<Longrightarrow> x \<notin> free_set L (cl_chunks s)"
      using live_block_not_free [OF inv live] by blast
    with length_filter_remove1 [OF live, of "\<lambda>b. x \<in> block_cells a b"] props(2)
    show ?thesis by (simp add: owners_def split: if_split_asm)
  qed
  moreover have "\<forall>b \<in> set (cl_live ?s). block_ok n a b"
    using inv set_remove1_subset [of "(ptr, layout)" "cl_live s"] by (auto simp: client_inv_def)
  ultimately show ?thesis using inv props(1) by (simp add: client_inv_def)
qed

lemma client_step_inv:
  assumes "env_errno E Pmutex_lock = 0" "buffer_ok n a"
  shows "client_step p L a E s s' \<Longrightarrow> client_inv L n a s \<Longrightarrow> client_inv L n a s'"
proof (induction rule: client_step.induct)
  case (client_alloc layout s ptr c' m')
  then show ?case using client_inv_alloc [OF assms client_alloc(3,1,2)] by simp
next
  case (client_refused layout s e c' m')
  then show ?case using client_inv_alloc [OF assms client_refused(3,1,2)] by simp
next
  case (client_dealloc ptr layout s c' m')
  then show ?case using client_inv_dealloc [OF assms client_dealloc(3,1,2)] by simp
next
  case (client_write ptr layout s x v)
  then show ?case by (simp add: client_inv_def owners_def)
qed

lemma client_reach_inv:
  assumes "env_errno E Pmutex_lock = 0" "buffer_ok n a" "vec_laws L" "0 < n" "n < usize_bound"
  shows "client_reach p L n a E s \<Longrightarrow> client_inv L n a s"
proof (induction rule: client_reach.induct)
  case (client_start c)
  then show ?case using client_inv_start [OF assms(3-5)] by simp
next
  case (client_more s s')
  then show ?case using client_step_inv [OF assms(1,2)] by blast
qed

end
