(* ===== verification/Sample_Run.thy ===== *)
theory Sample_Run
  imports Allocator_Correct
begin

text \<open>
  One concrete run of the allocator on the lawful vector \<open>list_vec\<close>: a buffer of four chunks at
  address 4096, two blocks taken from it. The theorems about arbitrary clients are applied to it
  to show that their hypotheses can hold.
\<close>

definition sample_env :: env where
  "sample_env = \<lparr>env_errno = (\<lambda>_. 0), env_time = (\<lambda>_. (0, \<lparr>tv_sec = 100, tv_nsec = 0\<rparr>, 0)),
     env_now = 0, env_pid = 7, env_weak = False\<rparr>"

definition sample_alloc :: shmem_alloc where
  "sample_alloc = \<lparr>free_chunks_ptr = 64, memory_buffer = 4096\<rparr>"

definition sample_start :: "(nat \<times> free_space list) chunks" where
  "sample_start = \<lparr>free_chunks = (4, [FreeSpace (RelativeBeginning 0) 4])\<rparr>"

definition sample_one :: "(nat \<times> free_space list) chunks" where
  "sample_one = \<lparr>free_chunks = (4, [FreeSpace (RelativeBeginning 2) 2])\<rparr>"

definition sample_two :: "(nat \<times> free_space list) chunks" where
  "sample_two = \<lparr>free_chunks = (4, [FreeSpace (RelativeBeginning 3) 1])\<rparr>"

abbreviation sample_big :: layout where
  "sample_big \<equiv> \<lparr>l_size = 12, l_align = 4\<rparr>"

abbreviation sample_small :: layout where
  "sample_small \<equiv> \<lparr>l_size = 8, l_align = 8\<rparr>"

abbreviation sample_live :: "(nat \<times> layout) list" where
  "sample_live \<equiv> [(4112, sample_small), (4096, sample_big)]"

lemma sample_facts [simp]:
  "env_errno sample_env c = 0" "env_pid sample_env = 7" "env_now sample_env = 0"
  "memory_buffer sample_alloc = 4096" "buffer_ok 4 sample_alloc"
  by (simp_all add: sample_env_def sample_alloc_def buffer_ok_def CHUNK_SIZE_8 usize_bound_def)

lemma sample_layouts [simp]: "valid_layout sample_big" "valid_layout sample_small"
  by (simp_all add: valid_layout_def layout_from_size_align_def is_power_of_two_def upt_rec)

lemma sample_supported [simp]: "supported sample_big" "supported sample_small"
  by (simp_all add: supported_def ALIGNMENT_def usize_bound_def)

text \<open>Unfolding the operations, for evaluation by simplification.\<close>

lemmas chunks_eval = chunks_new_def chunks_get_def chunks_return_back_def insert_chunk_and_merge_def
  find_and_merge_def fsv_new_def fsv_push_def fsv_pop_def required_chunks_def usize_checked_add_def
  usize_checked_sub_def usize_add_def usize_bound_def free_space_split_def free_space_merge_def
  are_contiguous_def rb_add_def rb_zero_def rb_from_bytes_def free_space_new_def debug_assert_def assert_exec_def
  expect_def CHUNK_SIZE_8 list_insert_at_def list_remove_at_def list_vec_def dev_profile_def usize_cmp_def
  free_space_less_eq_iff

lemma sample_values [simp]:
  "chunks_new dev_profile list_vec 4 = Done (Inr sample_start)"
  "chunks_get dev_profile list_vec sample_start 12 = Done (Some (FreeSpace (RelativeBeginning 0) 2), sample_one)"
  "chunks_get dev_profile list_vec sample_one 8 = Done (Some (FreeSpace (RelativeBeginning 2) 1), sample_two)"
  "chunks_return_back dev_profile list_vec sample_two 16 8 = Done sample_one"
  "chunks_return_back dev_profile list_vec sample_one 0 12 = Done sample_start"
  by (simp_all add: chunks_eval sample_start_def sample_one_def sample_two_def merge_loop.simps loop_exec_def joined_def)

text \<open>The run: two allocations on a fresh buffer.\<close>

lemma sample_refs [simp]:
  "alloc_ref dev_profile list_vec sample_alloc sample_start sample_big = (Inr (4096, 16), sample_one)"
  "alloc_ref dev_profile list_vec sample_alloc sample_one sample_small = (Inr (4112, 8), sample_two)"
  by (simp_all add: alloc_ref_def chunk_addr_def CHUNK_SIZE_8)

lemma sample_inv [simp]:
  "chunks_inv list_vec 4 sample_start" "chunks_inv list_vec 4 sample_one" "chunks_inv list_vec 4 sample_two"
  by (simp_all add: chunks_inv_def fsv_inv_def list_vec_laws sample_start_def sample_one_def sample_two_def
      usize_bound_def well_formed_def)

definition sample_state :: "(nat \<times> free_space list) client" where
  "sample_state = \<lparr>cl_chunks = sample_two, cl_live = sample_live, cl_mem = (\<lambda>_. 0)\<rparr>"

text \<open>The steps of the run, whatever the memory holds.\<close>

lemma sample_alloc_step:
  assumes "alloc_ref dev_profile list_vec sample_alloc c layout = (Inr (ptr, u), c')"
    and "chunks_inv list_vec 4 c" "valid_layout layout"
  shows "client_step dev_profile list_vec sample_alloc sample_env \<lparr>cl_chunks = c, cl_live = l, cl_mem = m\<rparr>
    \<lparr>cl_chunks = c', cl_live = (ptr, layout) # l, cl_mem = m\<rparr>"
proof -
  have "solo sample_env (shmem_alloc_alloc dev_profile list_vec sample_alloc layout Return) c m
      (Done (Inr ptr)) c' m"
    using assms by (simp add: solo_alloc [where n = 4])
  then show ?thesis
    using client_alloc [OF assms(3), where s = "\<lparr>cl_chunks = c, cl_live = l, cl_mem = m\<rparr>"] by simp
qed

lemma sample_dealloc_step:
  assumes "client_inv list_vec 4 sample_alloc \<lparr>cl_chunks = c, cl_live = l, cl_mem = m\<rparr>" "(ptr, layout) \<in> set l"
    and "dealloc_ref dev_profile list_vec sample_alloc c (ptr, layout) = c'"
  shows "client_step dev_profile list_vec sample_alloc sample_env \<lparr>cl_chunks = c, cl_live = l, cl_mem = m\<rparr>
    \<lparr>cl_chunks = c', cl_live = remove1 (ptr, layout) l, cl_mem = m\<rparr>"
proof -
  let ?s = "\<lparr>cl_chunks = c, cl_live = l, cl_mem = m\<rparr>"
  have "solo sample_env (shmem_alloc_dealloc dev_profile list_vec sample_alloc ptr layout (Return ()))
      (cl_chunks ?s) (cl_mem ?s) (Done ()) c' m"
    using assms(2,3) by (subst solo_dealloc [OF _ _ assms(1)]) simp_all
  then show ?thesis using client_dealloc [where s = ?s and ptr = ptr and layout = layout] assms(2) by simp
qed

lemma sample_reach_inv:
  "client_reach dev_profile list_vec 4 sample_alloc sample_env s \<Longrightarrow> client_inv list_vec 4 sample_alloc s"
  by (rule client_reach_inv [OF _ _ list_vec_laws]) (simp_all add: usize_bound_def)

lemma sample_dealloc_refs [simp]:
  "dealloc_ref dev_profile list_vec sample_alloc sample_two (4112, sample_small) = sample_one"
  "dealloc_ref dev_profile list_vec sample_alloc sample_one (4096, sample_big) = sample_start"
  by (simp_all add: dealloc_ref_def)

lemma sample_reach_start:
  "client_reach dev_profile list_vec 4 sample_alloc sample_env \<lparr>cl_chunks = sample_start, cl_live = [], cl_mem = (\<lambda>_. 0)\<rparr>"
  by (rule client_start) simp

lemma sample_reach_one:
  "client_reach dev_profile list_vec 4 sample_alloc sample_env
     \<lparr>cl_chunks = sample_one, cl_live = [(4096, sample_big)], cl_mem = (\<lambda>_. 0)\<rparr>"
  by (rule client_more [OF sample_reach_start sample_alloc_step]) simp_all

lemma sample_reach: "client_reach dev_profile list_vec 4 sample_alloc sample_env sample_state"
  unfolding sample_state_def by (rule client_more [OF sample_reach_one sample_alloc_step]) simp_all

lemma sample_state_simps [simp]:
  "cl_chunks sample_state = sample_two" "cl_live sample_state = sample_live" "cl_mem sample_state x = 0"
  by (simp_all add: sample_state_def)

text \<open>Releasing both blocks again; releasing a block after writing to it.\<close>

definition sample_released :: "(nat \<times> free_space list) client" where
  "sample_released = \<lparr>cl_chunks = sample_start, cl_live = [], cl_mem = (\<lambda>_. 0)\<rparr>"

lemma sample_release_reach: "client_reach dev_profile list_vec 4 sample_alloc sample_env sample_released"
proof -
  have "client_reach dev_profile list_vec 4 sample_alloc sample_env
      \<lparr>cl_chunks = sample_one, cl_live = remove1 (4112, sample_small) sample_live, cl_mem = (\<lambda>_. 0)\<rparr>"
    using sample_reach [unfolded sample_state_def]
    by (rule client_more [OF _ sample_dealloc_step [OF sample_reach_inv]]) (simp_all add: sample_reach [unfolded sample_state_def])
  then have r: "client_reach dev_profile list_vec 4 sample_alloc sample_env
      \<lparr>cl_chunks = sample_one, cl_live = [(4096, sample_big)], cl_mem = (\<lambda>_. 0)\<rparr>" by simp
  show ?thesis
    using client_more [OF r sample_dealloc_step [OF sample_reach_inv [OF r]], of 4096 sample_big sample_start]
    by (simp add: sample_released_def)
qed

lemma sample_dirty_reach:
  "client_reach dev_profile list_vec 4 sample_alloc sample_env
     \<lparr>cl_chunks = sample_start, cl_live = [], cl_mem = (\<lambda>_. 0)(4096 := 5)\<rparr>"
proof -
  have r: "client_reach dev_profile list_vec 4 sample_alloc sample_env
      \<lparr>cl_chunks = sample_one, cl_live = [(4096, sample_big)], cl_mem = (\<lambda>_. 0)(4096 := 5)\<rparr>"
    using client_more [OF sample_reach_one client_write [of 4096 sample_big _ 4096 _ _ _ _ 5]] by simp
  show ?thesis
    using client_more [OF r sample_dealloc_step [OF sample_reach_inv [OF r]], of 4096 sample_big sample_start] by simp
qed

end
