(* ===== verification/Allocator_Clients.thy ===== *)
theory Allocator_Clients
  imports Sample_Run
begin

text \<open>
  The guarantees of the shared-memory allocator to a client that allocates, releases and writes in
  any order (\<open>client_reach\<close>), with a witness for each on the run of \<open>Sample_Run\<close>: blocks never
  overlap and lie in the buffer; an allocation fails only when it must; releases never panic;
  a fully released buffer is one free interval again. Then the two defects of the size and zeroing
  methods, and the construction of the allocator.
\<close>

section \<open>Helpers\<close>

lemma two_in_filter:
  "i < j \<Longrightarrow> j < length xs \<Longrightarrow> P (xs ! i) \<Longrightarrow> P (xs ! j) \<Longrightarrow> 2 \<le> length (filter P xs)"
proof -
  assume a: "i < j" "j < length xs" "P (xs ! i)" "P (xs ! j)"
  have "card {i, j} \<le> card {k. k < length xs \<and> P (xs ! k)}"
    using a by (intro card_mono) auto
  with a(1) show ?thesis by (simp add: length_filter_conv_card)
qed

lemma block_cells_disjoint:
  assumes "client_inv L n a s" "i < j" "j < length (cl_live s)"
  shows "block_cells a (cl_live s ! i) \<inter> block_cells a (cl_live s ! j) = {}"
proof (rule ccontr)
  assume "\<not> ?thesis"
  then obtain x where "x \<in> block_cells a (cl_live s ! i)" "x \<in> block_cells a (cl_live s ! j)" by blast
  then have "2 \<le> length (filter (\<lambda>b. x \<in> block_cells a b) (cl_live s))"
    using assms(2,3) by (intro two_in_filter)
  then have "2 \<le> owners L a s x" by (simp add: owners_def)
  then show False using assms(1) by (simp add: client_inv_def split: if_splits)
qed

text \<open>The bytes of a block lie in its chunks.\<close>

lemma block_byte_cell:
  assumes "block_ok n a b" "x \<in> {fst b ..< fst b + l_size (snd b)}"
  shows "(x - memory_buffer a) div CHUNK_SIZE \<in> block_cells a b" "memory_buffer a \<le> x"
proof -
  have nz: "l_size (snd b) \<noteq> 0" using assms(2) by auto
  then obtain i where i: "fst b = memory_buffer a + i * 8" using assms(1) by (auto simp: block_ok_def chunk_addr_def CHUNK_SIZE_8)
  then have x: "memory_buffer a + i * 8 \<le> x" "x < memory_buffer a + i * 8 + l_size (snd b)" using assms(2) by auto
  then show "memory_buffer a \<le> x" by simp
  have "x - memory_buffer a < i * 8 + chunks_of (l_size (snd b)) * 8"
    using x chunks_of_enough(1) [of "l_size (snd b)"] by (simp add: CHUNK_SIZE_8)
  then have "(x - memory_buffer a) div 8 < i + chunks_of (l_size (snd b))"
    by (simp add: div_less_iff_less_mult distrib_right)
  moreover have "i \<le> (x - memory_buffer a) div 8" using x(1) by simp
  ultimately show "(x - memory_buffer a) div CHUNK_SIZE \<in> block_cells a b"
    using i nz by (simp add: block_cells_def Let_def CHUNK_SIZE_8)
qed

lemma bytes_disjoint:
  assumes inv: "client_inv L n a s" and ij: "i < j" "j < length (cl_live s)"
  shows "{fst (cl_live s ! i) ..< fst (cl_live s ! i) + l_size (snd (cl_live s ! i))} \<inter>
    {fst (cl_live s ! j) ..< fst (cl_live s ! j) + l_size (snd (cl_live s ! j))} = {}"
proof -
  have "block_ok n a (cl_live s ! i)" "block_ok n a (cl_live s ! j)"
    using inv ij by (simp_all add: client_inv_def)
  then show ?thesis using block_byte_cell(1) block_cells_disjoint [OF inv ij] by blast
qed

lemma block_bounds:
  assumes "block_ok n a b" "l_size (snd b) \<noteq> 0" "buffer_ok n a"
  shows "memory_buffer a \<le> fst b" "fst b + l_size (snd b) \<le> memory_buffer a + n * CHUNK_SIZE"
    "fst b mod l_align (snd b) = 0"
proof -
  obtain i where i: "fst b = memory_buffer a + i * 8" "i + chunks_of (l_size (snd b)) \<le> n" "supported (snd b)"
    using assms(1,2) by (auto simp: block_ok_def chunk_addr_def CHUNK_SIZE_8)
  show "memory_buffer a \<le> fst b" using i by simp
  have "i * 8 + chunks_of (l_size (snd b)) * 8 \<le> n * 8" using i(2) by simp
  then show "fst b + l_size (snd b) \<le> memory_buffer a + n * CHUNK_SIZE"
    using chunks_of_enough(1) [of "l_size (snd b)"] i(1) by (simp add: CHUNK_SIZE_8)
  have "8 dvd fst b" using i(1) assms(3) by (simp add: buffer_ok_def CHUNK_SIZE_8 dvd_eq_mod_eq_0)
  moreover have "l_align (snd b) dvd 8" using i(3) by (simp add: supported_def ALIGNMENT_def dvd_eq_mod_eq_0)
  ultimately have "l_align (snd b) dvd fst b" by (rule dvd_trans [rotated])
  then show "fst b mod l_align (snd b) = 0" by simp
qed

text \<open>The chunks no live block covers are exactly the free ones.\<close>

lemma free_set_live:
  assumes "client_inv L n a s"
  shows "free_set L (cl_chunks s) = {0 ..< n} - (\<Union>b \<in> set (cl_live s). block_cells a b)"
proof -
  have "x \<in> free_set L (cl_chunks s) \<longleftrightarrow> x < n \<and> (\<forall>b \<in> set (cl_live s). x \<notin> block_cells a b)" for x
  proof -
    let ?l = "length (filter (\<lambda>b. x \<in> block_cells a b) (cl_live s))"
    have "?l + (if x \<in> free_set L (cl_chunks s) then 1 else 0) = (if x < n then 1 else 0)"
      using assms by (simp add: client_inv_def owners_def)
    moreover have "?l = 0 \<longleftrightarrow> (\<forall>b \<in> set (cl_live s). x \<notin> block_cells a b)"
      by (auto simp: filter_empty_conv)
    ultimately show ?thesis by (auto split: if_splits)
  qed
  then show ?thesis by auto
qed

lemma buffer_ok_bound: "buffer_ok n a \<Longrightarrow> n < usize_bound"
  by (simp add: buffer_ok_def CHUNK_SIZE_8)

section \<open>Guarantees\<close>

text \<open>A run of \<open>k\<close> consecutive chunks that no live block uses.\<close>

definition room :: "nat \<Rightarrow> shmem_alloc \<Rightarrow> 'v client \<Rightarrow> nat \<Rightarrow> bool" where
  "room n a s k \<longleftrightarrow> (\<exists>b. b + k \<le> n \<and> (\<forall>blk \<in> set (cl_live s). {b ..< b + k} \<inter> block_cells a blk = {}))"

lemma room_iff:
  assumes "client_inv L n a s" "0 < k"
  shows "room n a s k \<longleftrightarrow> (\<exists>b. {b ..< b + k} \<subseteq> free_set L (cl_chunks s))"
proof -
  have "{b ..< b + k} \<subseteq> {0 ..< n} \<longleftrightarrow> b + k \<le> n" for b using assms(2) by auto
  then have "b + k \<le> n \<and> (\<forall>blk \<in> set (cl_live s). {b ..< b + k} \<inter> block_cells a blk = {}) \<longleftrightarrow>
      {b ..< b + k} \<subseteq> free_set L (cl_chunks s)" for b
    unfolding free_set_live [OF assms(1)] by blast
  then show ?thesis by (simp only: room_def)
qed

text \<open>
  C3: In every state a client can reach by allocating, releasing and writing in any order, with any
  lawful vector library and build profile, the byte ranges of two live blocks do not overlap.
\<close>

theorem live_blocks_disjoint:
  assumes "env_errno E Pmutex_lock = 0" "buffer_ok n a" "vec_laws L" "0 < n"
    and "client_reach p L n a E s" "i < j" "j < length (cl_live s)"
  shows "{fst (cl_live s ! i) ..< fst (cl_live s ! i) + l_size (snd (cl_live s ! i))} \<inter>
    {fst (cl_live s ! j) ..< fst (cl_live s ! j) + l_size (snd (cl_live s ! j))} = {}"
  using assms bytes_disjoint client_reach_inv buffer_ok_bound by metis

theorem live_blocks_disjoint_witness:
  "{fst (cl_live sample_state ! 0) ..< fst (cl_live sample_state ! 0) + l_size (snd (cl_live sample_state ! 0))} \<inter>
    {fst (cl_live sample_state ! 1) ..< fst (cl_live sample_state ! 1) + l_size (snd (cl_live sample_state ! 1))} = {}"
  by (rule live_blocks_disjoint [OF _ _ list_vec_laws _ sample_reach]) simp_all

text \<open>
  C19: Every live block lies inside the buffer and has the alignment it was requested with (a block
  of size zero is the dangling pointer the layout's alignment gives).
\<close>

theorem live_block_in_buffer:
  assumes "env_errno E Pmutex_lock = 0" "buffer_ok n a" "vec_laws L" "0 < n"
    and "client_reach p L n a E s" "(ptr, layout) \<in> set (cl_live s)"
  shows "if l_size layout = 0 then ptr = l_align layout
    else memory_buffer a \<le> ptr \<and> ptr + l_size layout \<le> memory_buffer a + n * CHUNK_SIZE \<and>
      ptr mod l_align layout = 0"
proof -
  have "client_inv L n a s" using assms client_reach_inv buffer_ok_bound by metis
  then have "block_ok n a (ptr, layout)" using assms(6) by (auto simp: client_inv_def)
  then show ?thesis using block_bounds [OF _ _ assms(2), of "(ptr, layout)"] by (auto simp: block_ok_def)
qed

theorem live_block_in_buffer_witness:
  "memory_buffer sample_alloc \<le> 4112 \<and> 4112 + 8 \<le> memory_buffer sample_alloc + 4 * CHUNK_SIZE \<and> 4112 mod 8 = (0::nat)"
  using live_block_in_buffer [OF _ _ list_vec_laws _ sample_reach, of 4112 sample_small] by simp

text \<open>
  C11: An allocation always returns, leaves memory alone, and fails only when it must: it succeeds
  exactly for size zero, or for an alignment that divides eight when some run of enough chunks
  is used by no live block. A failure reports the layout and leaves the free list as it was.
\<close>

theorem alloc_complete:
  assumes "env_errno E Pmutex_lock = 0" "buffer_ok n a" "vec_laws L" "0 < n"
    and "client_reach p L n a E s" "valid_layout layout"
  shows "\<exists>r c'. solo E (shmem_alloc_alloc p L a layout Return) (cl_chunks s) (cl_mem s) (Done r) c' (cl_mem s) \<and>
    ((\<exists>ptr. r = Inr ptr) \<longleftrightarrow> l_size layout = 0 \<or>
      ALIGNMENT mod l_align layout = 0 \<and> room n a s (chunks_of (l_size layout))) \<and>
    (\<forall>e. r = Inl e \<longrightarrow> e = AllocationError layout \<and> c' = cl_chunks s)"
proof -
  let ?r = "alloc_ref p L a (cl_chunks s) layout"
  have inv: "client_inv L n a s" using assms client_reach_inv buffer_ok_bound by metis
  then have c: "chunks_inv L n (cl_chunks s)" by (simp add: client_inv_def)
  have sup: "l_size layout \<noteq> 0 \<Longrightarrow> supported layout \<longleftrightarrow> ALIGNMENT mod l_align layout = 0"
    using valid_layout_bounds [OF assms(6)] by (simp add: supported_def)
  have run: "solo E (shmem_alloc_alloc p L a layout Return) (cl_chunks s) (cl_mem s)
      (Done (map_sum id fst (fst ?r))) (snd ?r) (cl_mem s)"
    by (simp add: solo_alloc [OF assms(1,2) c assms(6)])
  have res: "((\<exists>ptr. map_sum id fst (fst ?r) = Inr ptr) \<longleftrightarrow> l_size layout = 0 \<or>
      ALIGNMENT mod l_align layout = 0 \<and> room n a s (chunks_of (l_size layout))) \<and>
    (\<forall>e. map_sum id fst (fst ?r) = Inl e \<longrightarrow> e = AllocationError layout \<and> snd ?r = cl_chunks s)"
    using c assms(6)
  proof (cases rule: alloc_ref_cases [of L n "cl_chunks s" layout p a, case_names zero refused taken])
    case refused
    then show ?thesis using sup room_iff [OF inv] by simp
  next
    case (taken i c')
    then have "l_size layout \<noteq> 0" by (simp add: supported_def)
    then show ?thesis using taken sup room_iff [OF inv, of "chunks_of (l_size layout)"] by auto
  qed simp
  show ?thesis
    by (intro exI [of _ "map_sum id fst (fst ?r)"] exI [of _ "snd ?r"] conjI run res [THEN conjunct1] res [THEN conjunct2])
qed

theorem alloc_complete_witness:
  "\<exists>r c'. solo sample_env (shmem_alloc_alloc dev_profile list_vec sample_alloc sample_small Return)
      (cl_chunks sample_state) (cl_mem sample_state) (Done r) c' (cl_mem sample_state) \<and>
    ((\<exists>ptr. r = Inr ptr) \<longleftrightarrow> room 4 sample_alloc sample_state 1)"
  using alloc_complete [OF _ _ list_vec_laws _ sample_reach, of sample_small]
  by (simp add: ALIGNMENT_def chunks_of_def CHUNK_SIZE_8) blast

text \<open>
  C16: Releasing a live block never panics: the call returns, leaves memory alone, and makes
  exactly the chunks of the block free.
\<close>

theorem dealloc_total:
  assumes "env_errno E Pmutex_lock = 0" "buffer_ok n a" "vec_laws L" "0 < n"
    and "client_reach p L n a E s" "(ptr, layout) \<in> set (cl_live s)"
  shows "\<exists>c'. solo E (shmem_alloc_dealloc p L a ptr layout (Return ())) (cl_chunks s) (cl_mem s)
      (Done ()) c' (cl_mem s) \<and>
    free_set L c' = free_set L (cl_chunks s) \<union> block_cells a (ptr, layout) \<and>
    free_set L (cl_chunks s) \<inter> block_cells a (ptr, layout) = {}"
proof -
  have inv: "client_inv L n a s" using assms client_reach_inv buffer_ok_bound by metis
  let ?c = "dealloc_ref p L a (cl_chunks s) (ptr, layout)"
  have "solo E (shmem_alloc_dealloc p L a ptr layout (Return ())) (cl_chunks s) (cl_mem s) (Done ()) ?c (cl_mem s)"
    by (simp add: solo_dealloc [OF assms(1,2) inv assms(6)])
  with dealloc_ref_props(2) [OF inv assms(6,2)] live_block_not_free [OF inv assms(6)] show ?thesis by blast
qed

theorem dealloc_total_witness:
  "\<exists>c'. solo sample_env (shmem_alloc_dealloc dev_profile list_vec sample_alloc 4096 sample_big (Return ()))
      sample_two (cl_mem sample_state) (Done ()) c' (cl_mem sample_state)"
  using dealloc_total [OF _ _ list_vec_laws _ sample_reach, of 4096 sample_big] by auto

text \<open>
  C9: When every block of positive size has been released, whatever the order of the calls was, the
  free list is again the single interval it was created with: no fragment is left and no chunk lost.
\<close>

theorem all_released:
  assumes "env_errno E Pmutex_lock = 0" "buffer_ok n a" "vec_laws L" "0 < n"
    and "client_reach p L n a E s" "\<forall>b \<in> set (cl_live s). l_size (snd b) = 0"
  shows "vec_slice L (free_chunks (cl_chunks s)) = [FreeSpace rb_zero n]"
proof -
  have inv: "client_inv L n a s" using assms client_reach_inv buffer_ok_bound by metis
  have "(\<Union>b \<in> set (cl_live s). block_cells a b) = {}"
    using assms(6) by (auto simp: block_cells_def)
  then have "free_cells (vec_slice L (free_chunks (cl_chunks s))) = free_cells [FreeSpace rb_zero n]"
    using free_set_live [OF inv] free_set_new [of n] by (simp add: free_set_def)
  moreover have "well_formed n [FreeSpace rb_zero n]"
    using assms(4) by (simp add: well_formed_Cons rb_zero_def)
  moreover have "chunks_inv L n (cl_chunks s)" using inv by (simp add: client_inv_def)
  then have "sorted (vec_slice L (free_chunks (cl_chunks s)))" "well_formed n (vec_slice L (free_chunks (cl_chunks s)))"
    by (simp_all add: chunks_inv_def fsv_inv_def)
  ultimately show ?thesis by (intro free_list_canonical [where n = n and m = n]) simp_all
qed

theorem all_released_witness: "vec_slice list_vec (free_chunks (cl_chunks sample_released)) = [FreeSpace rb_zero 4]"
  by (rule all_released [OF _ _ list_vec_laws _ sample_release_reach]) (simp_all add: sample_released_def)

section \<open>Sizes\<close>

text \<open>
  The size \<open>alloc_excess\<close> reports is the one it hands out: the request rounded up to whole
  chunks, less than one chunk more than asked for.
\<close>

theorem excess_is_rounded_request:
  assumes "env_errno E Pmutex_lock = 0" "buffer_ok n a" "vec_laws L" "0 < n"
    and "client_reach p L n a E s" "valid_layout layout" "l_size layout \<noteq> 0"
    and "solo E (alloc_excess p L a layout Return) (cl_chunks s) (cl_mem s) (Done (Inr (ptr, u))) c' m'"
  shows "u = chunks_of (l_size layout) * CHUNK_SIZE \<and> l_size layout \<le> u \<and> u < l_size layout + CHUNK_SIZE \<and>
    card (free_set L (cl_chunks s)) = card (free_set L c') + chunks_of (l_size layout)"
proof -
  have inv: "client_inv L n a s" using assms client_reach_inv buffer_ok_bound by metis
  then have c: "chunks_inv L n (cl_chunks s)" by (simp add: client_inv_def)
  let ?r = "alloc_ref p L a (cl_chunks s) layout"
  have r: "fst ?r = Inr (ptr, u)" "snd ?r = c'"
    using assms(8) by (simp_all add: solo_alloc_excess [OF assms(1,2) c assms(6)])
  show ?thesis
    using c assms(6)
  proof (cases rule: alloc_ref_cases [of L n "cl_chunks s" layout p a, case_names zero refused taken])
    case (taken i c'')
    have "finite (free_set L (cl_chunks s))" by (simp add: free_set_def)
    then have "card (free_set L (cl_chunks s)) = card (free_set L c'') + chunks_of (l_size layout)"
      using taken(4,5) card_mono [of "free_set L (cl_chunks s)" "{i ..< i + chunks_of (l_size layout)}"]
      by (simp add: card_Diff_subset)
    then show ?thesis using taken(6) r chunks_of_enough [of "l_size layout"] by auto
  qed (use r assms(7) in auto)
qed

theorem excess_is_rounded_request_witness:
  "(16::nat) = chunks_of 12 * CHUNK_SIZE \<and> card (free_set list_vec sample_start) = card (free_set list_vec sample_one) + chunks_of 12"
proof -
  have reach: "client_reach dev_profile list_vec 4 sample_alloc sample_env sample_released"
    by (rule sample_release_reach)
  have "solo sample_env (alloc_excess dev_profile list_vec sample_alloc sample_big Return)
      (cl_chunks sample_released) (cl_mem sample_released) (Done (Inr (4096, 16))) sample_one (cl_mem sample_released)"
    by (simp add: solo_alloc_excess [where n = 4] sample_released_def)
  from excess_is_rounded_request [OF _ _ list_vec_laws _ reach _ _ this] show ?thesis
    by (simp add: sample_released_def)
qed

text \<open>
  \<open>usable_size\<close> multiplies the whole chunks by nine instead of adding one chunk: for a size that
  is not a multiple of eight it promises more than a block has as soon as the request is over
  nine chunks, and less than the request itself when the remainder exceeds the whole chunks.
\<close>

theorem usable_size_promise:
  assumes "valid_layout layout" "supported layout" "l_size layout mod CHUNK_SIZE \<noteq> 0"
  shows "\<exists>m. usable_size p layout = Done (m, m) \<and> m = 9 * (l_size layout div CHUNK_SIZE) \<and>
    (chunks_of (l_size layout) * CHUNK_SIZE < m \<longleftrightarrow> 8 < l_size layout div CHUNK_SIZE) \<and>
    (m < l_size layout \<longleftrightarrow> l_size layout div CHUNK_SIZE < l_size layout mod CHUNK_SIZE)"
proof -
  let ?q = "l_size layout div 8" and ?r = "l_size layout mod 8"
  have sz: "l_size layout < 2 ^ 63" "l_size layout = 8 * ?q + ?r"
    using assms(1) by (simp_all add: valid_layout_def layout_from_size_align_def split: if_splits)
  then have "9 * ?q < usize_bound" by (simp add: usize_bound_def)
  then have u: "usable_size p layout = Done (9 * ?q, 9 * ?q)"
    using assms(2,3) by (simp add: usable_size_def CHUNK_SIZE_8 mult.commute)
  have "chunks_of (l_size layout) = ?q + 1"
    using required_chunks_eq [of "l_size layout"] assms(2,3)
    by (simp add: required_chunks_def supported_def CHUNK_SIZE_8 usize_checked_add_def split: if_splits)
  moreover have "9 * ?q < l_size layout \<longleftrightarrow> ?q < ?r" using sz(2) by linarith
  ultimately show ?thesis using u by (simp add: CHUNK_SIZE_8)
qed

theorem usable_size_promise_witness:
  "usable_size dev_profile \<lparr>l_size = 81, l_align = 1\<rparr> = Done (90, 90) \<and> chunks_of 81 * CHUNK_SIZE = 88"
  using usable_size_promise [of "\<lparr>l_size = 81, l_align = 1\<rparr>" dev_profile]
  by (simp add: valid_layout_def layout_from_size_align_def is_power_of_two_def upt_rec supported_def
      ALIGNMENT_def usize_bound_def CHUNK_SIZE_8 chunks_of_def)

section \<open>Zeroed allocation\<close>

text \<open>
  \<open>alloc_zeroed\<close> relies on \<open>mmap\<close> for zeroes, but a released block keeps its bytes: a client
  that allocates, writes, releases and asks for zeroed memory gets back what it wrote.
\<close>

theorem alloc_zeroed_stale:
  "\<exists>s ptr c' m'. client_reach dev_profile list_vec 4 sample_alloc sample_env s \<and>
    solo sample_env (alloc_zeroed dev_profile list_vec sample_alloc sample_big Return)
      (cl_chunks s) (cl_mem s) (Done (Inr ptr)) c' m' \<and> m' ptr \<noteq> 0"
proof -
  let ?m = "(\<lambda>_::nat. 0::nat)(4096 := 5)"
  let ?s = "\<lparr>cl_chunks = sample_start, cl_live = [], cl_mem = ?m\<rparr>"
  have "client_reach dev_profile list_vec 4 sample_alloc sample_env ?s"
    by (rule sample_dirty_reach)
  moreover have "solo sample_env (alloc_zeroed dev_profile list_vec sample_alloc sample_big Return)
      sample_start ?m (Done (Inr 4096)) sample_one ?m"
    by (simp add: alloc_zeroed_def solo_alloc [where n = 4])
  ultimately show ?thesis
    by (intro exI [of _ ?s] exI [of _ 4096] exI [of _ sample_one] exI [of _ ?m]) simp
qed

section \<open>Construction\<close>

lemma memmap_alloc_keeps:
  "mman_laws M \<Longrightarrow> memmap_alloc M layout os = (r, os') \<Longrightarrow> os_mappings M os \<subseteq> os_mappings M os'"
  by (auto simp: memmap_alloc_def mman_laws_def split: prod.splits sum.splits if_splits)

definition new_env_ok :: "env \<Rightarrow> bool" where
  "new_env_ok E \<longleftrightarrow> (\<forall>c \<in> {Mutexattr_init, Mutexattr_setpshared, Pmutex_init \<lparr>ma_pshared = True\<rparr>}. env_errno E c = 0)"

lemma solo_mutex_new:
  "new_env_ok E \<Longrightarrow> solo E (mutex_new x k) d s r d' s' \<longleftrightarrow>
     solo E (k \<lparr>mutex_data = x, mutex_creator_pid = env_pid E\<rparr>) d s r d' s'"
  by (simp add: mutex_new_def mutex_attr_new_def mutex_attr_set_shared_def mutex_attr_drop_def new_env_ok_def)

lemma layout_for_capacity:
  "cap + 7 < 2 ^ 63 \<Longrightarrow> layout_from_size_align cap ALIGNMENT = Some \<lparr>l_size = cap, l_align = 8\<rparr>"
  by (simp add: layout_from_size_align_def is_power_of_two_def ALIGNMENT_def upt_rec)

text \<open>What \<open>shmem_alloc_new\<close> comes to once its arguments are checked and the free list is allocated.\<close>

lemma solo_shmem_alloc_new:
  assumes "new_env_ok E" "0 < n" "n * 8 + 7 < 2 ^ 63" "chunks_new p L n = Done (Inr c)"
  shows "solo E (shmem_alloc_new p L M box_new_in (n * 8)) d os r d' os' \<longleftrightarrow>
      (case box_new_in os of
        (Inl e, os1) \<Rightarrow> r = Done (Inl (InternalBuffer e)) \<and> d' = d \<and> os' = os1
      | (Inr ptr, os1) \<Rightarrow> (case memmap_alloc M \<lparr>l_size = n * 8, l_align = 8\<rparr> os1 of
          (Inl e, os2) \<Rightarrow> r = Done (Inl (MemoryBuffer e)) \<and> d' = d \<and> os' = os2
        | (Inr buf, os2) \<Rightarrow> r = Done (Inr (\<lparr>free_chunks_ptr = ptr, memory_buffer = buf\<rparr>,
              \<lparr>mutex_data = c, mutex_creator_pid = env_pid E\<rparr>)) \<and> d' = d \<and> os' = os2))"
proof -
  have "n * 8 \<noteq> 0" "n * 8 mod ALIGNMENT = 0" "n * 8 div ALIGNMENT = n" using assms(2) by (simp_all add: ALIGNMENT_def)
  then show ?thesis
    using assms(4) layout_for_capacity [OF assms(3)]
    by (auto simp: shmem_alloc_new_def solo_mutex_new [OF assms(1)] world_call_def split: sum.splits prod.splits)
qed

lemma chunks_new_some:
  assumes "vec_laws L" "0 < n" "n * 8 + 7 < 2 ^ 63" "vec_with_capacity_in L n = Inr v"
  obtains c where "chunks_new p L n = Done (Inr c)" "chunks_inv L n c"
    "free_set L c = {0 ..< n}"
proof -
  have "n < usize_bound" using assms(3) by (simp add: usize_bound_def)
  with chunks_new_ok [OF assms(1,2), of p] assms(4) obtain c where
    c: "chunks_new p L n = Done (Inr c)" "chunks_inv L n c" "vec_slice L (free_chunks c) = [FreeSpace rb_zero n]"
    by auto
  moreover have "free_set L c = {0 ..< n}" using c(3) free_set_new [of n] by (simp only: free_set_def)
  ultimately show thesis by (rule_tac that)
qed

text \<open>
  \<open>ShmemAlloc::new\<close> refuses capacity zero and capacities that are not whole chunks before it
  allocates anything.
\<close>

theorem new_rejects:
  assumes "capacity = 0 \<or> capacity mod ALIGNMENT \<noteq> 0"
  shows "solo E (shmem_alloc_new p L M box_new_in capacity) d os
    (Done (Inl (if capacity = 0 then ZeroCapacity else UnalignedCapacity capacity))) d os"
  using assms by (auto simp: shmem_alloc_new_def)

theorem new_rejects_witness:
  "solo sample_env (shmem_alloc_new dev_profile list_vec bump_mman (\<lambda>os. (Inr 64, os)) 12) ()
    \<lparr>bump_step = 8, bump_next = 8, bump_budget = 2, bump_live = []\<rparr>
    (Done (Inl (UnalignedCapacity 12))) () \<lparr>bump_step = 8, bump_next = 8, bump_budget = 2, bump_live = []\<rparr>"
  using new_rejects [of 12 sample_env dev_profile list_vec bump_mman "\<lambda>os. (Inr 64, os)"] by (simp add: ALIGNMENT_def)

text \<open>Concrete states of \<open>bump_mman\<close> for the witnesses: two, one and no mappings left.\<close>

definition bump_start :: "nat \<Rightarrow> bump" where
  "bump_start budget = \<lparr>bump_step = 8, bump_next = 8, bump_budget = budget, bump_live = []\<rparr>"

definition bump_one :: "nat \<Rightarrow> bump" where
  "bump_one budget = \<lparr>bump_step = 8, bump_next = 528, bump_budget = budget, bump_live = [(8, 64)]\<rparr>"

definition bump_end :: "nat \<Rightarrow> bump" where
  "bump_end budget = \<lparr>bump_step = 8, bump_next = 792, bump_budget = budget, bump_live = [(528, 32), (8, 64)]\<rparr>"

lemma bump_facts [simp]:
  "memmap_alloc bump_mman \<lparr>l_size = 64, l_align = 8\<rparr> (bump_start (Suc b)) = (Inr 8, bump_one b)"
  "memmap_alloc bump_mman \<lparr>l_size = 32, l_align = 8\<rparr> (bump_one (Suc b)) = (Inr 528, bump_end b)"
  "memmap_alloc bump_mman \<lparr>l_size = 32, l_align = 8\<rparr> (bump_one 0) = (Inl (AllocationError \<lparr>l_size = 32, l_align = 8\<rparr>), bump_one 0)"
  "os_mappings bump_mman (bump_one 0) = {(8, 64)}"
  by (simp_all add: memmap_alloc_def bump_mman_def bump_start_def bump_one_def bump_end_def)



text \<open>
  When the last mapping fails, \<open>ShmemAlloc::new\<close> returns the error and unmaps nothing: whatever
  placing the mutex has mapped is still mapped. (Its documentation says all memory is freed.)
\<close>

theorem new_leaks_on_failure:
  assumes "new_env_ok E" "vec_laws L" "mman_laws M" "0 < n" "n * 8 + 7 < 2 ^ 63"
    and "vec_with_capacity_in L n = Inr v" "box_new_in os = (Inr ptr, os1)"
    and "memmap_alloc M \<lparr>l_size = n * 8, l_align = 8\<rparr> os1 = (Inl e, os2)"
  shows "solo E (shmem_alloc_new p L M box_new_in (n * 8)) d os (Done (Inl (MemoryBuffer e))) d os2 \<and>
    os_mappings M os1 \<subseteq> os_mappings M os2"
proof -
  obtain c where c: "chunks_new p L n = Done (Inr c)"
    using assms(2,4-6) by (rule chunks_new_some)
  show ?thesis
    using assms(7,8) memmap_alloc_keeps [OF assms(3,8)] by (simp add: solo_shmem_alloc_new [OF assms(1,4,5) c])
qed

theorem new_leaks_on_failure_witness:
  "solo sample_env (shmem_alloc_new dev_profile list_vec bump_mman (memmap_alloc bump_mman \<lparr>l_size = 64, l_align = 8\<rparr>) (4 * 8)) ()
      (bump_start (Suc 0)) (Done (Inl (MemoryBuffer (AllocationError \<lparr>l_size = 32, l_align = 8\<rparr>)))) () (bump_one 0) \<and>
    (8, 64) \<in> os_mappings bump_mman (bump_one 0)"
  using new_leaks_on_failure [OF _ list_vec_laws bump_mman_laws, of sample_env 4 "(4, [])"
      "memmap_alloc bump_mman \<lparr>l_size = 64, l_align = 8\<rparr>" "bump_start (Suc 0)" 8 "bump_one 0"
      "AllocationError \<lparr>l_size = 32, l_align = 8\<rparr>" "bump_one 0" dev_profile "()"]
  by (simp add: new_env_ok_def)

end
