(* ===== verification/Chunks_Guarantees.thy ===== *)
theory Chunks_Guarantees
  imports Sample_Run
begin

text \<open>
  The guarantees of the free-space manager and of the parts it is built from, over any lawful vector
  library: best fit, exact restoration, total merging, the order of the list, splitting and merging
  of intervals; and the mapping allocator underneath.
\<close>

text \<open>
  C34: \<open>Chunks::get\<close> takes the requested number of chunks from the front of a smallest interval that
  is large enough, removes exactly those from the free set and keeps the invariant; it answers
  \<open>None\<close>, leaving the state alone, exactly when no free run is long enough. It never panics.
\<close>

theorem get_best_fit:
  assumes "chunks_inv L n c" "0 < sz" "sz < usize_bound"
  shows "if \<exists>b. {b ..< b + chunks_of sz} \<subseteq> free_set L c
    then \<exists>f c' g. chunks_get p L c sz = Done (Some f, c') \<and> chunks_inv L n c' \<and>
      best_fit (vec_slice L (free_chunks c)) (chunks_of sz) g \<and> fs_begin f = fs_begin g \<and>
      fs_count f = chunks_of sz \<and> cells f \<subseteq> free_set L c \<and> free_set L c' = free_set L c - cells f
    else chunks_get p L c sz = Done (None, c)"
proof (cases "\<exists>b. {b ..< b + chunks_of sz} \<subseteq> free_set L c")
  case True
  with chunks_get_some [OF assms, of _ p] show ?thesis by (simp only: if_True) blast
next
  case False
  with chunks_get_none [OF assms, of p] show ?thesis by simp
qed

theorem get_best_fit_witness:
  "\<exists>f c'. chunks_get dev_profile list_vec sample_two 8 = Done (Some f, c') \<and> fs_count f = 1"
proof -
  have "{3 ..< 3 + chunks_of 8} \<subseteq> free_set list_vec sample_two"
    by (auto simp: free_set_def sample_two_def chunks_of_def CHUNK_SIZE_8)
  then have "\<exists>b. {b ..< b + chunks_of 8} \<subseteq> free_set list_vec sample_two" by blast
  with get_best_fit [OF sample_inv(3), of 8 dev_profile] show ?thesis
    by (auto simp: usize_bound_def chunks_of_def CHUNK_SIZE_8)
qed

text \<open>
  C33: Giving back what \<open>get\<close> has just handed out restores the free list itself, interval by
  interval: splitting leaves nothing that merging does not undo.
\<close>

theorem get_return_back_roundtrip:
  assumes "chunks_inv L n c" "0 < sz" "sz < usize_bound" "chunks_get p L c sz = Done (Some f, c')"
  shows "\<exists>c''. chunks_return_back p L c' (fs_begin f * CHUNK_SIZE) sz = Done c'' \<and> chunks_inv L n c'' \<and>
    vec_slice L (free_chunks c'') = vec_slice L (free_chunks c)"
  using assms by (rule cm.get_give)

theorem get_return_back_roundtrip_witness:
  "\<exists>c''. chunks_return_back dev_profile list_vec sample_one 0 12 = Done c'' \<and>
    vec_slice list_vec (free_chunks c'') = vec_slice list_vec (free_chunks sample_start)"
  using get_return_back_roundtrip [OF sample_inv(1), of 12 dev_profile] by (auto simp: usize_bound_def)

text \<open>
  \<open>return_back\<close> of an aligned range of chunks that are in range and not free adds exactly those
  chunks to the free set and keeps the invariant (no two intervals of the list touch); a byte
  offset inside a chunk is stopped by the assertion.
\<close>

theorem return_back_adds:
  assumes "chunks_inv L n c" "0 < sz" "sz < usize_bound"
  shows "(b + chunks_of sz \<le> n \<and> {b ..< b + chunks_of sz} \<inter> free_set L c = {} \<longrightarrow>
      (\<exists>c'. chunks_return_back p L c (b * CHUNK_SIZE) sz = Done c' \<and> chunks_inv L n c' \<and>
        free_set L c' = free_set L c \<union> {b ..< b + chunks_of sz})) \<and>
    (shift mod CHUNK_SIZE \<noteq> 0 \<longrightarrow> chunks_return_back p L c shift sz = Panicked Assertion_failed)"
  using chunks_return_back_ok [OF assms, of b p] chunks_return_back_unaligned [OF _ assms(3), of shift p L c] by blast

theorem return_back_adds_witness:
  "(\<exists>c'. chunks_return_back dev_profile list_vec sample_two 16 8 = Done c' \<and>
      free_set list_vec c' = free_set list_vec sample_two \<union> {2}) \<and>
    chunks_return_back dev_profile list_vec sample_two 17 8 = Panicked Assertion_failed"
proof -
  have *: "chunks_of 8 = 1" "free_set list_vec sample_two = {3}"
    by (auto simp: chunks_of_def CHUNK_SIZE_8 free_set_def sample_two_def cells_def)
  show ?thesis
    using return_back_adds [OF sample_inv(3), of 8 2 dev_profile 17] *
    by (auto simp: usize_bound_def CHUNK_SIZE_8 atLeastLessThanSuc)
qed

text \<open>
  C35: The merging loop of \<open>insert_chunk_and_merge\<close> returns for every interval that is disjoint from
  the free list, in either build profile: the intervals it joins cover the same chunks, and what
  is left in the list does not touch the result.
\<close>

theorem merge_terminates:
  assumes "fsv_inv L v" "well_formed n (vec_slice L v)" "n < usize_bound"
    and "0 < fs_count f" "fs_end f \<le> n" "cells f \<inter> free_cells (vec_slice L v) = {}"
  shows "\<exists>v' f'. merge_loop p L v f = Some (Done (v', f')) \<and> well_formed n (f' # vec_slice L v') \<and>
    free_cells (f' # vec_slice L v') = cells f \<union> free_cells (vec_slice L v)"
  using merge_loop_returns [OF assms, of p] by blast

theorem merge_terminates_witness:
  "\<exists>v' f'. merge_loop release_profile list_vec (4, [FreeSpace (RelativeBeginning 0) 1, FreeSpace (RelativeBeginning 2) 1])
    (FreeSpace (RelativeBeginning 1) 1) = Some (Done (v', f'))"
proof -
  let ?v = "(4::nat, [FreeSpace (RelativeBeginning 0) 1, FreeSpace (RelativeBeginning 2) 1])"
  have "fsv_inv list_vec ?v" by (simp add: fsv_inv_def list_vec_laws free_space_less_eq_iff)
  moreover have "well_formed 3 (vec_slice list_vec ?v)" by (simp add: well_formed_Cons apart_def)
  moreover have "cells (FreeSpace (RelativeBeginning 1) 1) \<inter> free_cells (vec_slice list_vec ?v) = {}" by auto
  ultimately show ?thesis
    using merge_terminates [of list_vec ?v 3 "FreeSpace (RelativeBeginning 1) 1" release_profile]
    by (simp add: usize_bound_def) blast
qed

text \<open>
  The consistency check the crate's own tests run, \<open>Chunks::self_check\<close>, passes in every state
  that satisfies the invariant, hence after every sequence of operations.
\<close>

theorem self_check_passes:
  assumes "env_errno E Pmutex_lock = 0" "buffer_ok n a" "vec_laws L" "0 < n" "client_reach p L n a E s"
  shows "chunks_self_check q L (cl_chunks s) = Done ()"
proof -
  have "n < usize_bound" using assms(2) by (simp add: buffer_ok_def CHUNK_SIZE_8)
  with client_reach_inv [OF assms(1-4)] assms(5) have "chunks_inv L n (cl_chunks s)"
    by (simp add: client_inv_def)
  then show ?thesis by (rule chunks_self_check_ok)
qed

theorem self_check_passes_witness: "chunks_self_check dev_profile list_vec sample_two = Done ()"
  using self_check_passes [OF _ _ list_vec_laws _ sample_reach, of dev_profile] by simp

text \<open>
  \<open>FixesSortedVec\<close> sorts: pushing the elements of any list, in their order, onto a vector with
  room for them gives the sorted list of all elements; pushing onto a full vector panics.
\<close>

theorem pushes_sort:
  assumes "fsv_inv L v" "length (vec_slice L v) + length xs \<le> vec_capacity L v"
  shows "\<exists>v'. exec_fold (fsv_push L) v xs = Done v' \<and> fsv_inv L v' \<and> vec_slice L v' = sort (vec_slice L v @ xs) \<and>
    (length (vec_slice L v') = vec_capacity L v' \<longrightarrow> fsv_push L v' x = Panicked Assertion_failed)"
proof -
  obtain v' where v': "exec_fold (fsv_push L) v xs = Done v'" "fsv_inv L v'" "vec_slice L v' = sort (vec_slice L v @ xs)"
    using fsv.push_all [OF assms] by blast
  then show ?thesis using fsv.push_full [OF v'(2), of x] by (intro exI [of _ v']) simp
qed

theorem pushes_sort_witness: "\<exists>v'. exec_fold (fsv_push list_vec) (3, []) [9, 2, 5] = Done v' \<and> vec_slice list_vec v' = [2, 5, 9::nat]"
proof -
  have "fsv_inv list_vec (3, [] :: nat list)" by (simp add: fsv_inv_def list_vec_laws)
  from pushes_sort [OF this, of "[9, 2, 5]" 0] show ?thesis by (simp only: list_vec_simps) auto
qed

text \<open>
  Splitting an interval and merging the two parts, in either order, gives the interval back;
  asking for more chunks than it has panics, asking for all of them leaves nothing unused.
\<close>

theorem split_merge_roundtrip:
  assumes "0 < k" "fs_end f < usize_bound"
  shows "case free_space_split p f k of
      Done (x, Some y) \<Rightarrow> k < fs_count f \<and> fs_count x = k \<and> cells x \<inter> cells y = {} \<and>
        free_space_merge p x y = Done (Some f) \<and> free_space_merge p y x = Done (Some f)
    | Done (x, None) \<Rightarrow> k = fs_count f \<and> x = f
    | Panicked q \<Rightarrow> q = Expect_failed \<and> fs_count f < k
    | Diverges \<Rightarrow> False"
proof (cases k "fs_count f" rule: linorder_cases)
  case less
  let ?x = "FreeSpace (relative_beginning f) k"
  let ?y = "FreeSpace (RelativeBeginning (fs_begin f + k)) (fs_count f - k)"
  have "joined ?x ?y = f" using less by (intro free_space_eqI) simp_all
  moreover have "joined ?y ?x = f" using less by (intro free_space_eqI) simp_all
  moreover have "cells ?x \<inter> cells ?y = {}" by auto
  moreover have "free_space_merge p ?x ?y = Done (Some (joined ?x ?y))" "free_space_merge p ?y ?x = Done (Some (joined ?y ?x))"
    using less assms by (subst free_space_merge_eq; simp)+
  ultimately show ?thesis using less by (simp add: free_space_split_part [OF less assms(2)])
next
  case equal
  then show ?thesis by (simp add: free_space_split_all)
next
  case greater
  then show ?thesis by (simp add: free_space_split_too_few)
qed

theorem split_merge_roundtrip_witness:
  "free_space_merge dev_profile (FreeSpace (RelativeBeginning 6) 3) (FreeSpace (RelativeBeginning 4) 2) =
    Done (Some (FreeSpace (RelativeBeginning 4) 5))"
  using split_merge_roundtrip [of 2 "FreeSpace (RelativeBeginning 4) 5" dev_profile]
  by (simp add: free_space_split_part usize_bound_def)

section \<open>The mapping allocator\<close>

text \<open>
  A successful \<open>MemmapAlloc::alloc\<close> returns a non-null address with the requested alignment
  whose region is apart from every live mapping, and releasing it restores the set of mappings.
\<close>

theorem memmap_fresh_region:
  assumes "mman_laws M" "memmap_alloc M layout os = (Inr ptr, os')"
  shows "ptr \<noteq> 0 \<and> ptr mod l_align layout = 0 \<and>
    (\<forall>r \<in> os_mappings M os. regions_apart (ptr, l_size layout) r) \<and>
    os_mappings M os' = insert (ptr, l_size layout) (os_mappings M os) \<and>
    os_mappings M (memmap_dealloc M ptr layout os') = os_mappings M os"
  using memmap_alloc_ok [OF assms] memmap_dealloc_alloc [OF assms] by simp

theorem memmap_fresh_region_witness:
  "\<exists>os ptr os'. memmap_alloc bump_mman \<lparr>l_size = 64, l_align = 8\<rparr> os = (Inr ptr, os') \<and> os_mappings bump_mman os = {(16, 8)} \<and>
    regions_apart (ptr, 64) (16, 8) \<and>
    os_mappings bump_mman (memmap_dealloc bump_mman ptr \<lparr>l_size = 64, l_align = 8\<rparr> os') = {(16, 8)}"
proof -
  let ?os = "\<lparr>bump_step = 8, bump_next = 40, bump_budget = 1, bump_live = [(16, 8)]\<rparr>"
  let ?os' = "\<lparr>bump_step = 8, bump_next = 560, bump_budget = 0, bump_live = [(40, 64), (16, 8)]\<rparr>"
  have run: "memmap_alloc bump_mman \<lparr>l_size = 64, l_align = 8\<rparr> ?os = (Inr 40, ?os')"
    by (simp add: memmap_alloc_def bump_mman_def)
  have maps: "os_mappings bump_mman ?os = {(16, 8)}" by (simp add: bump_mman_def)
  from memmap_fresh_region [OF bump_mman_laws run] show ?thesis
    by (intro exI [of _ ?os] exI [of _ 40] exI [of _ ?os'] conjI run maps) (simp_all only: maps, simp_all)
qed

text \<open>
  A mapping that comes back null or misaligned is refused with an error but never unmapped: the
  region stays mapped and its address is lost.
\<close>

theorem memmap_refused_leaks:
  assumes "mman_laws M" "os_mmap M os (l_size layout) = (Inr ptr, os')" "ptr = 0 \<or> ptr mod l_align layout \<noteq> 0"
  shows "memmap_alloc M layout os = (Inl (AllocationError layout), os') \<and>
    (ptr, l_size layout) \<in> os_mappings M os' - os_mappings M os"
  using memmap_alloc_refused [OF assms] by simp

theorem memmap_refused_leaks_witness:
  "\<exists>os'. memmap_alloc bump_mman \<lparr>l_size = 4, l_align = 16\<rparr> \<lparr>bump_step = 8, bump_next = 8, bump_budget = 1, bump_live = []\<rparr> =
    (Inl (AllocationError \<lparr>l_size = 4, l_align = 16\<rparr>), os') \<and> (8, 4) \<in> os_mappings bump_mman os'"
  using memmap_refused_leaks [OF bump_mman_laws, of "\<lparr>bump_step = 8, bump_next = 8, bump_budget = 1, bump_live = []\<rparr>"
      "\<lparr>l_size = 4, l_align = 16\<rparr>" 8]
  by (simp add: bump_mman_def)

end
