(* ===== verification/Process_Rc.thy ===== *)
theory Process_Rc
  imports Program "HOL-Library.Word"
begin

text \<open>
  \<open>src/process_rc.rs\<close>: the reference counter of a \<open>Channel\<close>'s handles inside one process.
  It lives on the process heap, so after \<open>fork\<close> parent and child have a copy each, and the
  stored process id tells a copy from the original. The counter is an \<open>AtomicUsize\<close>, kept at its
  width; every atomic operation of the source is one \<open>Atomic\<close> step, on the part of the shared
  state that \<open>get\<close> reads and \<open>upd\<close> changes.
\<close>

record process_rc =
  counter :: "64 word"
  rc_pid :: int

datatype decrease_result = YouAreTheLastOne | MoveAlong

definition rc_new :: "(process_rc \<Rightarrow> ('d, 's, 'r) prog) \<Rightarrow> ('d, 's, 'r) prog" where
  "rc_new k = Getpid (\<lambda>pid. k \<lparr>counter = 1, rc_pid = pid\<rparr>)"

definition rc_increase :: "('s \<Rightarrow> process_rc) \<Rightarrow> ((process_rc \<Rightarrow> process_rc) \<Rightarrow> 's \<Rightarrow> 's) \<Rightarrow>
    ('d, 's, 'r) prog \<Rightarrow> ('d, 's, 'r) prog" where
  "rc_increase get upd k =
     Getpid (\<lambda>this_pid.
     Atomic (\<lambda>s. s) (\<lambda>s. let count = counter (get s) in
     Atomic (upd (\<lambda>r. r\<lparr>rc_pid := this_pid\<rparr>)) (\<lambda>s.
       if rc_pid (get s) = this_pid then
         Atomic (upd (\<lambda>r. r\<lparr>counter := counter r + 1\<rparr>)) (\<lambda>_. k)
       else if count = 0 then Panic Explicit_panic
       else Atomic (upd (\<lambda>r. r\<lparr>counter := counter r - (count - 1)\<rparr>)) (\<lambda>_. k))))"

definition rc_decrease :: "('s \<Rightarrow> process_rc) \<Rightarrow> ((process_rc \<Rightarrow> process_rc) \<Rightarrow> 's \<Rightarrow> 's) \<Rightarrow>
    int \<Rightarrow> (decrease_result \<Rightarrow> ('d, 's, 'r) prog) \<Rightarrow> ('d, 's, 'r) prog" where
  "rc_decrease get upd current_pid k =
     Atomic (upd (\<lambda>r. r\<lparr>rc_pid := current_pid\<rparr>)) (\<lambda>s.
       if rc_pid (get s) = current_pid then
         Atomic (upd (\<lambda>r. r\<lparr>counter := counter r - 1\<rparr>)) (\<lambda>s.
           if counter (get s) = 1 then k YouAreTheLastOne else k MoveAlong)
       else k YouAreTheLastOne)"

section \<open>One call alone\<close>

text \<open>The state is the counter itself.\<close>

abbreviation (input) whole :: "(process_rc \<Rightarrow> process_rc) \<Rightarrow> process_rc \<Rightarrow> process_rc" where
  "whole f \<equiv> f"

definition increased :: "int \<Rightarrow> process_rc \<Rightarrow> process_rc" where
  "increased pid r = (if rc_pid r = pid then r\<lparr>counter := counter r + 1\<rparr> else \<lparr>counter = 1, rc_pid = pid\<rparr>)"

definition decreased :: "int \<Rightarrow> process_rc \<Rightarrow> process_rc" where
  "decreased pid r = (if rc_pid r = pid then r\<lparr>counter := counter r - 1\<rparr> else r\<lparr>rc_pid := pid\<rparr>)"

lemma solo_increase:
  assumes "rc_pid r = env_pid E \<or> counter r \<noteq> 0"
  shows "solo E (rc_increase (\<lambda>r. r) whole k) d r x d' r' \<longleftrightarrow> solo E k d (increased (env_pid E) r) x d' r'"
  using assms by (cases r) (auto simp: rc_increase_def increased_def Let_def)

lemma solo_decrease:
  "solo E (rc_decrease (\<lambda>r. r) whole pid k) d r x d' r' \<longleftrightarrow>
     solo E (k (if rc_pid r = pid \<and> counter r \<noteq> 1 then MoveAlong else YouAreTheLastOne)) d (decreased pid r) x d' r'"
  by (cases r) (auto simp: rc_decrease_def decreased_def)

section \<open>The handles of one process\<close>

text \<open>
  Creating and dropping handles: \<open>rc_run pid r ops\<close> runs the calls one after another and
  returns the results of the drops and the final counter.
\<close>

datatype rc_op = Inc | Dec

fun rc_prog :: "int \<Rightarrow> rc_op list \<Rightarrow> decrease_result list \<Rightarrow> ('d, process_rc, decrease_result list) prog" where
  "rc_prog pid [] out = Return (rev out)"
| "rc_prog pid (Inc # ops) out = rc_increase (\<lambda>r. r) whole (rc_prog pid ops out)"
| "rc_prog pid (Dec # ops) out = rc_decrease (\<lambda>r. r) whole pid (\<lambda>x. rc_prog pid ops (x # out))"

text \<open>What the drops should answer, from the number of live handles.\<close>

fun rc_spec :: "nat \<Rightarrow> rc_op list \<Rightarrow> decrease_result list option" where
  "rc_spec live [] = Some []"
| "rc_spec live (Inc # ops) =
     (if live = 0 \<or> 2 ^ 64 \<le> Suc live then None else rc_spec (Suc live) ops)"
| "rc_spec live (Dec # ops) =
     (if live = 0 then None
      else map_option (Cons (if live = 1 then YouAreTheLastOne else MoveAlong)) (rc_spec (live - 1) ops))"

lemma word_of_live: "live < 2 ^ 64 \<Longrightarrow> (of_nat live :: 64 word) = 1 \<longleftrightarrow> live = 1"
  using word_of_nat_eq_iff [of live 1, where ?'a = 64] by (simp add: take_bit_nat_eq_self)

lemma rc_prog_spec:
  assumes "rc_spec live ops = Some rs" "r = \<lparr>counter = of_nat live, rc_pid = env_pid E\<rparr>" "live < 2 ^ 64"
  shows "\<exists>r'. solo E (rc_prog (env_pid E) ops out) d r (Done (rev out @ rs)) d r'"
  using assms
proof (induction live ops arbitrary: r rs out rule: rc_spec.induct)
  case (1 live)
  then show ?case by auto
next
  case (2 live ops)
  then have "live \<noteq> 0" "Suc live < 2 ^ 64" "rc_spec (Suc live) ops = Some rs" by (auto split: if_splits)
  with 2 show ?case by (simp add: solo_increase increased_def add.commute)
next
  case (3 live ops)
  then obtain rs' where l: "live \<noteq> 0" "rc_spec (live - 1) ops = Some rs'"
    and rs: "rs = (if live = 1 then YouAreTheLastOne else MoveAlong) # rs'"
    by (auto split: if_splits)
  let ?x = "if live = 1 then YouAreTheLastOne else MoveAlong"
  have w: "(of_nat live :: 64 word) - 1 = of_nat (live - 1)" using l(1) by (cases live) simp_all
  have "\<exists>r'. solo E (rc_prog (env_pid E) ops (?x # out)) d
      \<lparr>counter = of_nat (live - 1), rc_pid = env_pid E\<rparr> (Done (rev (?x # out) @ rs')) d r'"
    by (rule "3.IH" [OF l refl]) (use "3.prems"(3) in simp)
  moreover have "rev (?x # out) @ rs' = rev out @ rs" using rs by simp
  moreover have "decreased (env_pid E) r = \<lparr>counter = of_nat (live - 1), rc_pid = env_pid E\<rparr>"
    using "3.prems"(2) w by (simp add: decreased_def)
  moreover have "(if rc_pid r = env_pid E \<and> counter r \<noteq> 1 then MoveAlong else YouAreTheLastOne) = ?x"
    using "3.prems"(2,3) word_of_live by simp
  ultimately show ?case by (simp only: rc_prog.simps solo_decrease)
qed

end
