(* ===== verification/Channel.thy ===== *)
theory Channel
  imports Allocator Process_Rc
begin

text \<open>
  \<open>src/channel.rs\<close>: the bounded channel between processes. The queue is the data behind the mutex
  (\<open>'d = 'v\<close>), the atomics of \<open>Inner\<close> and the per-process reference counters are the shared state
  \<open>'w chan_state\<close>. The deque (\<open>alloc_collections::VecDeque\<close>) and \<open>CustomBox\<close> are third-party
  parameters. \<open>inner_*\<close> are the methods of \<open>Inner\<close>, which the public \<open>sender_*\<close> and
  \<open>receiver_*\<close> call. A guard that goes out of scope is a \<open>guard_drop\<close> at that place; a panic
  while a guard is alive unlocks first. \<open>Channel_Correct\<close> holds the theorems.
\<close>

section \<open>The deque library\<close>

record ('t, 'v, 'e) deque_lib =
  dq_items :: "'v \<Rightarrow> 't list"
  dq_is_empty :: "'v \<Rightarrow> bool"
  dq_remaining_capacity :: "'v \<Rightarrow> nat"
  dq_push_back :: "'v \<Rightarrow> 't \<Rightarrow> ('e + unit) \<times> 'v"
  dq_pop_front :: "'v \<Rightarrow> 't option \<times> 'v"

text \<open>
  The documented behaviour the channel relies on. What a push onto a full deque does (fail, or
  grow) is left open: it either fails and leaves the deque alone, or appends.
\<close>

definition deque_laws :: "('t, 'v, 'e) deque_lib \<Rightarrow> bool" where
  "deque_laws D \<longleftrightarrow>
     (\<forall>q. dq_is_empty D q \<longleftrightarrow> dq_items D q = []) \<and>
     (\<forall>q x q'. dq_push_back D q x = (Inr (), q') \<longrightarrow> dq_items D q' = dq_items D q @ [x]) \<and>
     (\<forall>q x e q'. dq_push_back D q x = (Inl e, q') \<longrightarrow> q' = q) \<and>
     (\<forall>q x. dq_remaining_capacity D q \<noteq> 0 \<longrightarrow> (\<exists>q'. dq_push_back D q x = (Inr (), q'))) \<and>
     (\<forall>q q'. dq_pop_front D q = (None, q') \<longrightarrow> dq_items D q = [] \<and> q' = q) \<and>
     (\<forall>q x q'. dq_pop_front D q = (Some x, q') \<longrightarrow> dq_items D q = x # dq_items D q')"

section \<open>State\<close>

record 'w chan_state =
  receivers :: "64 word"
  senders :: "64 word"
  dropping :: bool
  references :: "int \<Rightarrow> process_rc"
  world :: 'w

record 'v inner =
  in_mutex :: "'v mutex"
  in_item_maybe_available :: condvar
  in_space_maybe_available :: condvar
  in_receivers :: "64 word"
  in_senders :: "64 word"
  in_dropping :: bool

record channel =
  inner_ptr :: nat
  original_pid :: int
  ch_allocator :: shmem_alloc

text \<open>The two condition variables of a channel, as the calls name them.\<close>

definition item_maybe_available :: cond_id where
  "item_maybe_available = 0"

definition space_maybe_available :: cond_id where
  "space_maybe_available = 1"

text \<open>
  The reference counter is on the process heap: \<open>proc\<close> is the process whose copy the code sees.
\<close>

definition refs_of :: "int \<Rightarrow> 'w chan_state \<Rightarrow> process_rc" where
  "refs_of proc s = references s proc"

definition upd_refs :: "int \<Rightarrow> (process_rc \<Rightarrow> process_rc) \<Rightarrow> 'w chan_state \<Rightarrow> 'w chan_state" where
  "upd_refs proc f s = s\<lparr>references := (references s)(proc := f (references s proc))\<rparr>"

section \<open>Errors\<close>

datatype 't try_send_error = Send_timed_out 't | No_receivers 't

datatype try_receive_error = Receive_timed_out | No_senders

datatype waiting_error = Queue_dropped | Timeout_reached

section \<open>\<open>Inner\<close>\<close>

definition secs :: "nat \<Rightarrow> duration" where
  "secs n = \<lparr>dur_secs = n, dur_nanos = 0\<rparr>"

definition inner_push :: "('t, 'v, 'e) deque_lib \<Rightarrow> 't \<Rightarrow> ('e + unit \<Rightarrow> ('v, 's, 'r) prog) \<Rightarrow> ('v, 's, 'r) prog" where
  "inner_push D item k = Access (\<lambda>q. snd (dq_push_back D q item)) (\<lambda>q. case fst (dq_push_back D q item) of
     Inl e \<Rightarrow> guard_drop (k (Inl e))
   | Inr _ \<Rightarrow> condvar_signal item_maybe_available unlock_and_panic (guard_drop (k (Inr ()))))"

definition inner_pop :: "('t, 'v, 'e) deque_lib \<Rightarrow> ('t option \<Rightarrow> ('v, 's, 'r) prog) \<Rightarrow> ('v, 's, 'r) prog" where
  "inner_pop D k = Access (\<lambda>q. snd (dq_pop_front D q)) (\<lambda>q. case fst (dq_pop_front D q) of
     None \<Rightarrow> k None
   | Some item \<Rightarrow> condvar_signal space_maybe_available unlock_and_panic (k (Some item)))"

text \<open>\<open>load\<close> of an atomic; the predicates of the waits, evaluated lazily from the left.\<close>

definition load :: "('s \<Rightarrow> 'x) \<Rightarrow> ('x \<Rightarrow> ('d, 's, 'r) prog) \<Rightarrow> ('d, 's, 'r) prog" where
  "load get k = Atomic (\<lambda>s. s) (\<lambda>s. k (get s))"

definition item_or_no_senders :: "('t, 'v, 'e) deque_lib \<Rightarrow> (bool \<Rightarrow> ('v, 'w chan_state, 'r) prog) \<Rightarrow>
    ('v, 'w chan_state, 'r) prog" where
  "item_or_no_senders D k = Access (\<lambda>q. q) (\<lambda>q.
     if \<not> dq_is_empty D q then k True
     else load senders (\<lambda>n. if n = 0 then k True else load dropping k))"

definition item_or_dropping :: "('t, 'v, 'e) deque_lib \<Rightarrow> (bool \<Rightarrow> ('v, 'w chan_state, 'r) prog) \<Rightarrow>
    ('v, 'w chan_state, 'r) prog" where
  "item_or_dropping D k = Access (\<lambda>q. q) (\<lambda>q. if \<not> dq_is_empty D q then k True else load dropping k)"

definition space_or_no_receivers :: "('t, 'v, 'e) deque_lib \<Rightarrow> (bool \<Rightarrow> ('v, 'w chan_state, 'r) prog) \<Rightarrow>
    ('v, 'w chan_state, 'r) prog" where
  "space_or_no_receivers D k = Access (\<lambda>q. q) (\<lambda>q.
     if dq_remaining_capacity D q \<noteq> 0 then k True
     else load receivers (\<lambda>n. if n = 0 then k True else load dropping k))"

text \<open>\<open>a.load() == 0 || self.dropping.load()\<close>\<close>

definition none_or_dropping :: "('w chan_state \<Rightarrow> 64 word) \<Rightarrow> (bool \<Rightarrow> ('d, 'w chan_state, 'r) prog) \<Rightarrow>
    ('d, 'w chan_state, 'r) prog" where
  "none_or_dropping get k = load get (\<lambda>n. if n = 0 then k True else load dropping k)"

text \<open>\<open>loop { if dropping { return } match try_lock_for(1s) { None => continue, Some(g) => break g } }\<close>\<close>

definition lock_unless_dropping :: "profile \<Rightarrow> ('d, 'w chan_state, 'r) prog \<Rightarrow> ('d, 'w chan_state, 'r) prog \<Rightarrow>
    ('d, 'w chan_state, 'r) prog" where
  "lock_unless_dropping p dropped k = Loop (\<lambda>_. load dropping (\<lambda>b.
     if b then dropped
     else mutex_try_lock_for p (secs 1) (\<lambda>guard. if guard then k else Continue 0))) 0"

definition inner_wait_for_message_until :: "profile \<Rightarrow> ('t, 'v, 'e) deque_lib \<Rightarrow> instant \<Rightarrow>
    (waiting_error + unit \<Rightarrow> ('v, 'w chan_state, 'r) prog) \<Rightarrow> ('v, 'w chan_state, 'r) prog" where
  "inner_wait_for_message_until p D until k = load dropping (\<lambda>b.
     if b then k (Inl Queue_dropped)
     else mutex_try_lock_until p until (\<lambda>guard.
       if \<not> guard then k (Inl Timeout_reached)
       else condvar_wait_until p item_maybe_available until (item_or_dropping D) unlock_and_panic (\<lambda>ok.
         if \<not> ok then guard_drop (k (Inl Timeout_reached)) else guard_drop (k (Inr ())))))"

text \<open>\<open>Instant + Duration\<close> panics when the seconds leave the range of the clock.\<close>

definition instant_add :: "instant \<Rightarrow> duration \<Rightarrow> instant exec" where
  "instant_add i d = (if (i + as_nanos d) div giga < 2 ^ 63 then Done (i + as_nanos d) else Panicked Expect_failed)"

definition deadline_in :: "duration \<Rightarrow> (instant \<Rightarrow> ('d, 's, 'r) prog) \<Rightarrow> ('d, 's, 'r) prog" where
  "deadline_in timeout k = Instant_now (\<lambda>now. lift_exec Panic (instant_add now timeout) k)"

definition inner_wait_for_message_timeout :: "profile \<Rightarrow> ('t, 'v, 'e) deque_lib \<Rightarrow> duration \<Rightarrow>
    (waiting_error + unit \<Rightarrow> ('v, 'w chan_state, 'r) prog) \<Rightarrow> ('v, 'w chan_state, 'r) prog" where
  "inner_wait_for_message_timeout p D timeout k =
     deadline_in timeout (\<lambda>until. inner_wait_for_message_until p D until k)"

definition inner_receive :: "profile \<Rightarrow> ('t, 'v, 'e) deque_lib \<Rightarrow> ('t option \<Rightarrow> ('v, 'w chan_state, 'r) prog) \<Rightarrow>
    ('v, 'w chan_state, 'r) prog" where
  "inner_receive p D k = lock_unless_dropping p (k None)
     (condvar_wait item_maybe_available (item_or_no_senders D) unlock_and_panic
       (inner_pop D (\<lambda>item. guard_drop (k item))))"

definition inner_try_receive_until :: "profile \<Rightarrow> ('t, 'v, 'e) deque_lib \<Rightarrow> instant \<Rightarrow>
    (try_receive_error + 't \<Rightarrow> ('v, 'w chan_state, 'r) prog) \<Rightarrow> ('v, 'w chan_state, 'r) prog" where
  "inner_try_receive_until p D until k = load dropping (\<lambda>b.
     if b then k (Inl No_senders)
     else mutex_try_lock_until p until (\<lambda>guard.
       if \<not> guard then k (Inl Receive_timed_out)
       else condvar_wait_until p item_maybe_available until (item_or_no_senders D) unlock_and_panic (\<lambda>ok.
         if \<not> ok then guard_drop (k (Inl Receive_timed_out))
         else none_or_dropping senders (\<lambda>b.
           if b then guard_drop (k (Inl No_senders))
           else inner_pop D (\<lambda>r. case r of
               None \<Rightarrow> unlock_and_panic Expect_failed
             | Some item \<Rightarrow> guard_drop (k (Inr item)))))))"

definition inner_try_receive_once :: "('t, 'v, 'e) deque_lib \<Rightarrow>
    (try_receive_error + 't \<Rightarrow> ('v, 'w chan_state, 'r) prog) \<Rightarrow> ('v, 'w chan_state, 'r) prog" where
  "inner_try_receive_once D k = load dropping (\<lambda>b.
     if b then k (Inl No_senders)
     else mutex_try_lock (\<lambda>guard.
       if \<not> guard then k (Inl Receive_timed_out)
       else inner_pop D (\<lambda>r. case r of
           Some item \<Rightarrow> guard_drop (k (Inr item))
         | None \<Rightarrow> none_or_dropping senders (\<lambda>b.
             if b then guard_drop (k (Inl No_senders)) else guard_drop (k (Inl Receive_timed_out))))))"

text \<open>\<open>self.push(guard, item).expect(..)\<close>: the guard is gone when \<open>push\<close> returns.\<close>

definition push_or_panic :: "('t, 'v, 'e) deque_lib \<Rightarrow> 't \<Rightarrow> ('v, 's, 'r) prog \<Rightarrow> ('v, 's, 'r) prog" where
  "push_or_panic D item k = inner_push D item (\<lambda>r. case r of Inl e \<Rightarrow> Panic Expect_failed | Inr _ \<Rightarrow> k)"

definition inner_try_send :: "profile \<Rightarrow> ('t, 'v, 'e) deque_lib \<Rightarrow> 't \<Rightarrow>
    ('t + unit \<Rightarrow> ('v, 'w chan_state, 'r) prog) \<Rightarrow> ('v, 'w chan_state, 'r) prog" where
  "inner_try_send p D item k = lock_unless_dropping p (k (Inl item))
     (condvar_wait space_maybe_available (space_or_no_receivers D) unlock_and_panic
       (none_or_dropping receivers (\<lambda>b.
         if b then guard_drop (k (Inl item)) else push_or_panic D item (k (Inr ())))))"

definition inner_try_send_until :: "profile \<Rightarrow> ('t, 'v, 'e) deque_lib \<Rightarrow> 't \<Rightarrow> instant \<Rightarrow>
    ('t try_send_error + unit \<Rightarrow> ('v, 'w chan_state, 'r) prog) \<Rightarrow> ('v, 'w chan_state, 'r) prog" where
  "inner_try_send_until p D item until k = load dropping (\<lambda>b.
     if b then k (Inl (No_receivers item))
     else mutex_try_lock_until p until (\<lambda>guard.
       if \<not> guard then k (Inl (Send_timed_out item))
       else condvar_wait_until p space_maybe_available until (space_or_no_receivers D) unlock_and_panic (\<lambda>ok.
         if \<not> ok then guard_drop (k (Inl (Send_timed_out item)))
         else none_or_dropping receivers (\<lambda>b.
           if b then guard_drop (k (Inl (No_receivers item)))
           else push_or_panic D item (k (Inr ()))))))"

definition inner_try_send_once :: "('t, 'v, 'e) deque_lib \<Rightarrow> 't \<Rightarrow>
    ('t try_send_error + unit \<Rightarrow> ('v, 'w chan_state, 'r) prog) \<Rightarrow> ('v, 'w chan_state, 'r) prog" where
  "inner_try_send_once D item k = load dropping (\<lambda>b.
     if b then k (Inl (No_receivers item))
     else mutex_try_lock (\<lambda>guard.
       if \<not> guard then k (Inl (Send_timed_out item))
       else Access (\<lambda>q. q) (\<lambda>q.
         if dq_remaining_capacity D q = 0 then guard_drop (k (Inl (Send_timed_out item)))
         else none_or_dropping receivers (\<lambda>b.
           if b then guard_drop (k (Inl (No_receivers item)))
           else push_or_panic D item (k (Inr ()))))))"

section \<open>Senders and receivers\<close>

definition sender_try_send :: "('t, 'v, 'e) deque_lib \<Rightarrow> 't \<Rightarrow>
    ('t try_send_error + unit \<Rightarrow> ('v, 'w chan_state, 'r) prog) \<Rightarrow> ('v, 'w chan_state, 'r) prog" where
  "sender_try_send D item k = inner_try_send_once D item k"

definition sender_try_send_until :: "profile \<Rightarrow> ('t, 'v, 'e) deque_lib \<Rightarrow> 't \<Rightarrow> instant \<Rightarrow>
    ('t try_send_error + unit \<Rightarrow> ('v, 'w chan_state, 'r) prog) \<Rightarrow> ('v, 'w chan_state, 'r) prog" where
  "sender_try_send_until p D item until k = inner_try_send_until p D item until k"

definition sender_send :: "profile \<Rightarrow> ('t, 'v, 'e) deque_lib \<Rightarrow> 't \<Rightarrow>
    ('t + unit \<Rightarrow> ('v, 'w chan_state, 'r) prog) \<Rightarrow> ('v, 'w chan_state, 'r) prog" where
  "sender_send p D item k = inner_try_send p D item k"

definition sender_try_send_timeout :: "profile \<Rightarrow> ('t, 'v, 'e) deque_lib \<Rightarrow> 't \<Rightarrow> duration \<Rightarrow>
    ('t try_send_error + unit \<Rightarrow> ('v, 'w chan_state, 'r) prog) \<Rightarrow> ('v, 'w chan_state, 'r) prog" where
  "sender_try_send_timeout p D item timeout k = deadline_in timeout (\<lambda>until. sender_try_send_until p D item until k)"

definition receiver_receive :: "profile \<Rightarrow> ('t, 'v, 'e) deque_lib \<Rightarrow> ('t option \<Rightarrow> ('v, 'w chan_state, 'r) prog) \<Rightarrow>
    ('v, 'w chan_state, 'r) prog" where
  "receiver_receive p D k = inner_receive p D k"

definition receiver_wait_for_message_timeout :: "profile \<Rightarrow> ('t, 'v, 'e) deque_lib \<Rightarrow> duration \<Rightarrow>
    (waiting_error + unit \<Rightarrow> ('v, 'w chan_state, 'r) prog) \<Rightarrow> ('v, 'w chan_state, 'r) prog" where
  "receiver_wait_for_message_timeout p D timeout k = inner_wait_for_message_timeout p D timeout k"

definition receiver_wait_for_message_until :: "profile \<Rightarrow> ('t, 'v, 'e) deque_lib \<Rightarrow> instant \<Rightarrow>
    (waiting_error + unit \<Rightarrow> ('v, 'w chan_state, 'r) prog) \<Rightarrow> ('v, 'w chan_state, 'r) prog" where
  "receiver_wait_for_message_until p D until k = inner_wait_for_message_until p D until k"

definition receiver_try_receive :: "('t, 'v, 'e) deque_lib \<Rightarrow>
    (try_receive_error + 't \<Rightarrow> ('v, 'w chan_state, 'r) prog) \<Rightarrow> ('v, 'w chan_state, 'r) prog" where
  "receiver_try_receive D k = inner_try_receive_once D k"

definition receiver_try_receive_until :: "profile \<Rightarrow> ('t, 'v, 'e) deque_lib \<Rightarrow> instant \<Rightarrow>
    (try_receive_error + 't \<Rightarrow> ('v, 'w chan_state, 'r) prog) \<Rightarrow> ('v, 'w chan_state, 'r) prog" where
  "receiver_try_receive_until p D until k = inner_try_receive_until p D until k"

definition receiver_try_receive_timeout :: "profile \<Rightarrow> ('t, 'v, 'e) deque_lib \<Rightarrow> duration \<Rightarrow>
    (try_receive_error + 't \<Rightarrow> ('v, 'w chan_state, 'r) prog) \<Rightarrow> ('v, 'w chan_state, 'r) prog" where
  "receiver_try_receive_timeout p D timeout k = deadline_in timeout (\<lambda>until. inner_try_receive_until p D until k)"

section \<open>Handles\<close>

definition channel_clone :: "int \<Rightarrow> channel \<Rightarrow> (channel \<Rightarrow> ('d, 'w chan_state, 'r) prog) \<Rightarrow> ('d, 'w chan_state, 'r) prog" where
  "channel_clone proc self k = rc_increase (refs_of proc) (upd_refs proc)
     (k \<lparr>inner_ptr = inner_ptr self, original_pid = original_pid self, ch_allocator = ch_allocator self\<rparr>)"

text \<open>A \<open>Sender\<close> and a \<open>Receiver\<close> are a clone of the channel each.\<close>

definition make_sender :: "int \<Rightarrow> channel \<Rightarrow> (channel \<Rightarrow> ('d, 'w chan_state, 'r) prog) \<Rightarrow> ('d, 'w chan_state, 'r) prog" where
  "make_sender proc self k = channel_clone proc self (\<lambda>sender.
     Atomic (\<lambda>s. s\<lparr>senders := senders s + 1\<rparr>) (\<lambda>_. k sender))"

definition make_receiver :: "int \<Rightarrow> channel \<Rightarrow> (channel \<Rightarrow> ('d, 'w chan_state, 'r) prog) \<Rightarrow> ('d, 'w chan_state, 'r) prog" where
  "make_receiver proc self k = channel_clone proc self (\<lambda>receiver.
     Atomic (\<lambda>s. s\<lparr>receivers := receivers s + 1\<rparr>) (\<lambda>_. k receiver))"

definition sender_clone :: "int \<Rightarrow> channel \<Rightarrow> (channel \<Rightarrow> ('d, 'w chan_state, 'r) prog) \<Rightarrow> ('d, 'w chan_state, 'r) prog" where
  "sender_clone proc self k = make_sender proc self k"

definition receiver_clone :: "int \<Rightarrow> channel \<Rightarrow> (channel \<Rightarrow> ('d, 'w chan_state, 'r) prog) \<Rightarrow> ('d, 'w chan_state, 'r) prog" where
  "receiver_clone proc self k = make_receiver proc self k"

definition atomic_checked_sub :: "profile \<Rightarrow> ('s \<Rightarrow> 64 word) \<Rightarrow> ((64 word \<Rightarrow> 64 word) \<Rightarrow> 's \<Rightarrow> 's) \<Rightarrow>
    (nat \<Rightarrow> ('d, 's, 'r) prog) \<Rightarrow> ('d, 's, 'r) prog" where
  "atomic_checked_sub p get upd k = load get (\<lambda>counter.
     Loop (\<lambda>counter. case usize_checked_sub counter 1 of
         None \<Rightarrow> k 0
       | Some new_value \<Rightarrow> Weak (\<lambda>fails.
           Atomic (\<lambda>s. if \<not> fails \<and> unat (get s) = counter then upd (\<lambda>_. of_nat new_value) s else s) (\<lambda>s.
             if \<not> fails \<and> unat (get s) = counter
             then lift_exec Panic (debug_assert p (unat (get s) = counter)) (\<lambda>_. k new_value)
             else Continue (unat (get s)))))
       (unat counter))"

text \<open>
  The destructor of \<open>Channel\<close>. \<open>drop_queue\<close> is the destructor of the deque, \<open>free_inner\<close> the release
  of the box in shared memory, \<open>free_refs\<close> that of the counter on the heap.
\<close>

definition drop_inner :: "'v inner \<Rightarrow> ('v \<Rightarrow> 'v) \<Rightarrow> ('w \<Rightarrow> 'w) \<Rightarrow> ('v, 'w chan_state, 'r) prog \<Rightarrow> ('v, 'w chan_state, 'r) prog" where
  "drop_inner i drop_queue free_inner k =
     mutex_drop (mutex_creator_pid (in_mutex i)) drop_queue
       (condvar_drop item_maybe_available (cond_creator_pid (in_item_maybe_available i))
         (condvar_drop space_maybe_available (cond_creator_pid (in_space_maybe_available i))
           (Atomic (\<lambda>s. s\<lparr>world := free_inner (world s)\<rparr>) (\<lambda>_. k))))"

definition channel_drop :: "profile \<Rightarrow> int \<Rightarrow> 'v inner \<Rightarrow> ('v \<Rightarrow> 'v) \<Rightarrow> ('w \<Rightarrow> 'w) \<Rightarrow> ('w \<Rightarrow> 'w) \<Rightarrow> channel \<Rightarrow>
    ('v, 'w chan_state, 'r) prog \<Rightarrow> ('v, 'w chan_state, 'r) prog" where
  "channel_drop p proc i drop_queue free_inner free_refs self k = Getpid (\<lambda>current_pid.
     if original_pid self \<noteq> current_pid then k
     else rc_decrease (refs_of proc) (upd_refs proc) current_pid (\<lambda>r. case r of
         MoveAlong \<Rightarrow> k
       | YouAreTheLastOne \<Rightarrow>
           Atomic (\<lambda>s. s\<lparr>dropping := True\<rparr>) (\<lambda>_.
           Atomic (\<lambda>s. s\<lparr>receivers := 0\<rparr>) (\<lambda>s. let old_receivers = receivers s in
           Atomic (\<lambda>s. s\<lparr>senders := 0\<rparr>) (\<lambda>s. let old_senders = senders s in
             (if old_receivers \<noteq> 0 then condvar_broadcast item_maybe_available Panic else (\<lambda>k. k))
             ((if old_senders \<noteq> 0 then condvar_broadcast space_maybe_available Panic else (\<lambda>k. k))
               (mutex_try_lock_for p (secs 30) (\<lambda>guard.
                 (if guard then guard_drop else (\<lambda>k. k))
                   (drop_inner i drop_queue free_inner
                     (Atomic (\<lambda>s. s\<lparr>world := free_refs (world s)\<rparr>) (\<lambda>_. k))))))))))) "

text \<open>\<open>Channel::destroy\<close>: becoming the owner, then dropping.\<close>

definition channel_destroy :: "profile \<Rightarrow> int \<Rightarrow> 'v inner \<Rightarrow> ('v \<Rightarrow> 'v) \<Rightarrow> ('w \<Rightarrow> 'w) \<Rightarrow> ('w \<Rightarrow> 'w) \<Rightarrow> channel \<Rightarrow>
    ('v, 'w chan_state, 'r) prog \<Rightarrow> ('v, 'w chan_state, 'r) prog" where
  "channel_destroy p proc i drop_queue free_inner free_refs this k = Getpid (\<lambda>pid.
     channel_drop p proc i drop_queue free_inner free_refs (this\<lparr>original_pid := pid\<rparr>) k)"

text \<open>Dropping a \<open>Sender\<close> or \<open>Receiver\<close> drops its channel afterwards, also when it panics.\<close>

definition sender_drop :: "profile \<Rightarrow> ((('v, 'w chan_state, 'r) prog \<Rightarrow> ('v, 'w chan_state, 'r) prog)) \<Rightarrow>
    ('v, 'w chan_state, 'r) prog \<Rightarrow> ('v, 'w chan_state, 'r) prog" where
  "sender_drop p drop_channel k =
     atomic_checked_sub p senders (\<lambda>f s. s\<lparr>senders := f (senders s)\<rparr>) (\<lambda>n.
       if n = 0 then condvar_broadcast item_maybe_available (\<lambda>q. drop_channel (Panic q)) (drop_channel k)
       else drop_channel k)"

definition receiver_drop :: "profile \<Rightarrow> ((('v, 'w chan_state, 'r) prog \<Rightarrow> ('v, 'w chan_state, 'r) prog)) \<Rightarrow>
    ('v, 'w chan_state, 'r) prog \<Rightarrow> ('v, 'w chan_state, 'r) prog" where
  "receiver_drop p drop_channel k =
     atomic_checked_sub p receivers (\<lambda>f s. s\<lparr>receivers := f (receivers s)\<rparr>) (\<lambda>n.
       if n = 0 then condvar_broadcast space_maybe_available (\<lambda>q. drop_channel (Panic q)) (drop_channel k)
       else drop_channel k)"

section \<open>Construction\<close>

definition channel_new :: "(nat \<Rightarrow> 's \<Rightarrow> ('e + 'v) \<times> 's) \<Rightarrow> (alloc_error \<Rightarrow> 'e) \<Rightarrow>
    ('v inner \<Rightarrow> 's \<Rightarrow> (alloc_error + nat) \<times> 's) \<Rightarrow> nat \<Rightarrow> shmem_alloc \<Rightarrow>
    ('e + channel \<times> 'v inner \<times> process_rc \<Rightarrow> ('d, 's, 'r) prog) \<Rightarrow> ('d, 's, 'r) prog" where
  "channel_new with_capacity_in allocation_error box_new_in capacity allocator k =
     world_call (with_capacity_in capacity) (\<lambda>r. case r of
       Inl e \<Rightarrow> k (Inl e)
     | Inr queue \<Rightarrow>
         mutex_new queue (\<lambda>m.
         condvar_new item_maybe_available (\<lambda>c1.
         condvar_new space_maybe_available (\<lambda>c2.
         let i = \<lparr>in_mutex = m, in_item_maybe_available = c1, in_space_maybe_available = c2,
           in_receivers = 0, in_senders = 0, in_dropping = False\<rparr> in
         world_call (box_new_in i) (\<lambda>r. case r of
           Inl e \<Rightarrow> k (Inl (allocation_error e))
         | Inr ptr \<Rightarrow>
             rc_new (\<lambda>refs. Getpid (\<lambda>pid.
               k (Inr (\<lparr>inner_ptr = ptr, original_pid = pid, ch_allocator = allocator\<rparr>, i, refs)))))))))"

end
