(* ===== verification/Channel_Correct.thy ===== *)
theory Channel_Correct
  imports Channel
begin

text \<open>
  The channel under any interleaving. Every operation is \<open>safe\<close> in the thread logic, with the
  events it may cause: a send that answers \<open>Ok\<close> has pushed its item exactly once, one that gives the
  item back has pushed nothing, a receive has popped exactly the item it returns. The soundness
  theorem of \<open>Interleaving\<close> then gives one order of all pushes and pops of all threads.
\<close>

section \<open>Events of the queue\<close>

datatype 't queue_event = Pushed 't | Popped 't

definition queue_effect :: "('t, 'v, 'e) deque_lib \<Rightarrow> 'v \<Rightarrow> 't queue_event \<Rightarrow> 'v \<Rightarrow> bool" where
  "queue_effect D q e q' \<longleftrightarrow> (case e of
     Pushed x \<Rightarrow> dq_push_back D q x = (Inr (), q') | Popped x \<Rightarrow> dq_pop_front D q = (Some x, q'))"

text \<open>
  \<open>I\<close> is what the users of the channel know of every item in it. No operation of the channel fails
  an assertion.
\<close>

definition items_ok :: "('t, 'v, 'e) deque_lib \<Rightarrow> ('t \<Rightarrow> bool) \<Rightarrow> 'v \<Rightarrow> bool" where
  "items_ok D I q \<longleftrightarrow> (\<forall>x \<in> set (dq_items D q). I x)"

definition queue_contract :: "('t, 'v, 'e) deque_lib \<Rightarrow> ('s \<Rightarrow> bool) \<Rightarrow> ('t \<Rightarrow> bool) \<Rightarrow>
    ('t queue_event list \<Rightarrow> bool) \<Rightarrow> ('r \<Rightarrow> 't queue_event list \<Rightarrow> bool) \<Rightarrow>
    ('v, 's, 't queue_event, 'r) contract" where
  "queue_contract D A I H Q = \<lparr>atomics = A, res_inv = items_ok D I, effect = queue_effect D, history = H, post = Q,
     fault = (\<lambda>q _. q \<noteq> Assertion_failed)\<rparr>"

lemma queue_contract_simps [simp]:
  "atomics (queue_contract D A I H Q) = A" "res_inv (queue_contract D A I H Q) = items_ok D I" "effect (queue_contract D A I H Q) = queue_effect D"
  "history (queue_contract D A I H Q) = H" "post (queue_contract D A I H Q) = Q" "fault (queue_contract D A I H Q) e h \<longleftrightarrow> e \<noteq> Assertion_failed"
  by (simp_all add: queue_contract_def)

lemma items_ok_True [simp]: "items_ok D (\<lambda>_. True) q"
  by (simp add: items_ok_def)

lemma deque_law_rules:
  assumes "deque_laws D"
  shows "dq_is_empty D q \<longleftrightarrow> dq_items D q = []"
    and "dq_push_back D q x = (Inr (), q') \<Longrightarrow> dq_items D q' = dq_items D q @ [x]"
    and "dq_push_back D q x = (Inl e, q') \<Longrightarrow> q' = q"
    and "dq_remaining_capacity D q \<noteq> 0 \<Longrightarrow> \<exists>q'. dq_push_back D q x = (Inr (), q')"
    and "dq_pop_front D q = (None, q') \<Longrightarrow> dq_items D q = [] \<and> q' = q"
    and "dq_pop_front D q = (Some x, q') \<Longrightarrow> dq_items D q = x # dq_items D q'"
  using assms unfolding deque_laws_def by blast+

section \<open>The parts of the operations\<close>

lemma safe_unlock_and_panic [safe_rules]:
  "items_ok D I d \<Longrightarrow> q \<noteq> Assertion_failed \<Longrightarrow> safe (queue_contract D A I H Q) (unlock_and_panic q) (Held d) h J"
  unfolding unlock_and_panic_def by (rule safe_guard_drop) simp_all

lemma safe_load [safe_rules]: "(\<And>s. atomics C s \<Longrightarrow> safe C (k (get s)) v h J) \<Longrightarrow> safe C (load get k) v h J"
  by (simp add: load_def)


lemma safe_read: "safe C (k d) (Held d) h J \<Longrightarrow> safe C (Access (\<lambda>q. q) k) (Held d) h J"
  by simp

lemma items_ok_push: "deque_laws D \<Longrightarrow> items_ok D I q \<Longrightarrow> I x \<Longrightarrow> dq_push_back D q x = (Inr (), q') \<Longrightarrow> items_ok D I q'"
  using deque_law_rules(2) [of D q x q'] by (auto simp: items_ok_def)

lemma safe_push:
  assumes "deque_laws D" "items_ok D I q" "I item" "H (h @ [Pushed item])" "\<And>e. safe (queue_contract D A I H Q) (k (Inl e)) Free h J"
    and "safe (queue_contract D A I H Q) (k (Inr ())) Free (h @ [Pushed item]) J"
  shows "safe (queue_contract D A I H Q) (inner_push D item k) (Held q) h J"
proof -
  let ?C = "queue_contract D A I H Q"
  obtain r q' where p: "dq_push_back D q item = (r, q')" by (cases "dq_push_back D q item")
  show ?thesis
  proof (cases r)
    case (Inl e)
    with p deque_law_rules(3) [OF assms(1)] have "q' = q" by blast
    moreover have "safe ?C (guard_drop (k (Inl e))) (Held q) h J"
      by (intro safe_guard_drop assms) (simp add: assms)
    ultimately show ?thesis using p Inl by (simp add: inner_push_def)
  next
    case (Inr u)
    then have e: "queue_effect D q (Pushed item) q'" "items_ok D I q'"
      using p items_ok_push [OF assms(1-3)] by (simp_all add: queue_effect_def)
    have "safe ?C (condvar_signal item_maybe_available unlock_and_panic (guard_drop (k (Inr ())))) (Held q')
        (h @ [Pushed item]) J"
      by (intro safe_signal safe_unlock_and_panic safe_guard_drop assms) (simp_all add: e(2))
    with e(1) p Inr assms(4) show ?thesis by (auto simp: inner_push_def)
  qed
qed

lemma safe_pop:
  assumes "deque_laws D" "items_ok D I q" "dq_items D q = [] \<Longrightarrow> safe (queue_contract D A I H Q) (k None) (Held q) h J"
    and "\<And>x q'. dq_items D q = x # dq_items D q' \<Longrightarrow> I x \<Longrightarrow> items_ok D I q' \<Longrightarrow>
      H (h @ [Popped x]) \<and> safe (queue_contract D A I H Q) (k (Some x)) (Held q') (h @ [Popped x]) J"
  shows "safe (queue_contract D A I H Q) (inner_pop D k) (Held q) h J"
proof -
  let ?C = "queue_contract D A I H Q"
  obtain r q' where p: "dq_pop_front D q = (r, q')" by (cases "dq_pop_front D q")
  show ?thesis
  proof (cases r)
    case None
    with p deque_law_rules(5) [OF assms(1)] have "dq_items D q = []" "q' = q" by blast+
    with p None assms(3) show ?thesis by (simp add: inner_pop_def)
  next
    case (Some x)
    then have e: "queue_effect D q (Popped x) q'" using p by (simp add: queue_effect_def)
    have i: "dq_items D q = x # dq_items D q'" using p Some deque_law_rules(6) [OF assms(1)] by blast
    with assms(2) have ok: "I x" "items_ok D I q'" by (simp_all add: items_ok_def)
    have "safe ?C (condvar_signal space_maybe_available unlock_and_panic (k (Some x))) (Held q')
        (h @ [Popped x]) J"
      by (intro safe_signal safe_unlock_and_panic) (use assms(4) [OF i ok] ok in simp_all)
    moreover have "H (h @ [Popped x])" using assms(4) i ok by blast
    ultimately show ?thesis using e p Some by (auto simp: inner_pop_def)
  qed
qed

text \<open>
  The predicates of the waits: an answer of false says that the queue is empty, or full; an answer of
  true with an empty queue needs atomics in which nobody is there, which the invariant may exclude.
\<close>

definition possible :: "('s \<Rightarrow> bool) \<Rightarrow> ('s \<Rightarrow> bool) \<Rightarrow> bool" where
  "possible A B \<longleftrightarrow> (\<exists>s. A s \<and> B s)"

definition nobody :: "('w chan_state \<Rightarrow> 64 word) \<Rightarrow> 'w chan_state \<Rightarrow> bool" where
  "nobody users s \<longleftrightarrow> users s = 0 \<or> dropping s"

lemma possible_dropping [simp]: "A s \<Longrightarrow> dropping s \<Longrightarrow> possible A (nobody users)"
  by (auto simp: possible_def nobody_def)

lemma possible_weaken: "possible A dropping \<Longrightarrow> possible A (nobody users)"
  by (auto simp: possible_def nobody_def)

lemma possible_zero [simp]: "A s \<Longrightarrow> users s = 0 \<Longrightarrow> possible A (nobody users)"
  by (auto simp: possible_def nobody_def)

lemma pred_item_or_no_senders:
  "deque_laws D \<Longrightarrow> pred_safe C (item_or_no_senders D)
     (\<lambda>q b. (b \<longrightarrow> dq_items D q \<noteq> [] \<or> possible (atomics C) (nobody senders)) \<and> (\<not> b \<longrightarrow> dq_items D q = []))"
  by (auto simp: pred_safe_def item_or_no_senders_def load_def deque_law_rules(1) possible_dropping)

lemma pred_item_or_dropping:
  "deque_laws D \<Longrightarrow> pred_safe C (item_or_dropping D) (\<lambda>q b. \<not> b \<longrightarrow> dq_items D q = [])"
  by (auto simp: pred_safe_def item_or_dropping_def load_def deque_law_rules(1))

lemma pred_space_or_no_receivers:
  "pred_safe C (space_or_no_receivers D) (\<lambda>q b. \<not> b \<longrightarrow> dq_remaining_capacity D q = 0)"
  by (auto simp: pred_safe_def space_or_no_receivers_def load_def)

text \<open>While both ends of a channel have a handle, nobody gives up.\<close>

definition handles_alive :: "'w chan_state \<Rightarrow> bool" where
  "handles_alive s \<longleftrightarrow> senders s \<noteq> 0 \<and> receivers s \<noteq> 0 \<and> \<not> dropping s"

lemma alive_not_possible [simp]:
  "\<not> possible handles_alive (nobody senders)" "\<not> possible handles_alive (nobody receivers)"
  by (auto simp: possible_def nobody_def handles_alive_def)

lemma safe_none_or_dropping [safe_rules]:
  "(possible (atomics C) (nobody users) \<Longrightarrow> safe C (k True) v h J) \<Longrightarrow> safe C (k False) v h J \<Longrightarrow>
     safe C (none_or_dropping users k) v h J"
  unfolding none_or_dropping_def
proof (rule safe_load)
  fix s assume no: "possible (atomics C) (nobody users) \<Longrightarrow> safe C (k True) v h J" and yes: "safe C (k False) v h J" and s: "atomics C s"
  have "safe C (k (dropping s')) v h J" if "atomics C s'" for s' using no yes that by (cases "dropping s'") simp_all
  with no s show "safe C (if users s = 0 then k True else load dropping k) v h J" by (simp add: safe_load)
qed

lemma safe_lock_unless_dropping:
  assumes "possible A dropping \<Longrightarrow> safe_top (queue_contract D A I H Q) dropped Free h"
    and "\<And>q. items_ok D I q \<Longrightarrow> safe_top (queue_contract D A I H Q) k (Held q) h"
  shows "safe (queue_contract D A I H Q) (lock_unless_dropping p dropped k) Free h J"
proof -
  let ?C = "queue_contract D A I H Q" and ?J = "\<lambda>(_::nat) v h'. v = Free \<and> h' = h"
  have "safe ?C (mutex_try_lock_for p (secs 1) (\<lambda>guard. if guard then k else Continue 0)) Free h ?J"
    by (rule safe_try_lock_for) (use assms(2) in \<open>simp_all add: safe_from_top [OF assms(2)]\<close>)
  then have "safe ?C (load dropping (\<lambda>b. if b then dropped
      else mutex_try_lock_for p (secs 1) (\<lambda>guard. if guard then k else Continue 0))) Free h ?J"
    using safe_from_top [OF assms(1), of ?J] by (intro safe_load) (auto simp: possible_def)
  then show ?thesis unfolding lock_unless_dropping_def safe.simps by (intro exI [of _ ?J]) simp
qed

section \<open>What each operation does to the queue\<close>

text \<open>
  In each rule the code after the operation has to be safe for every answer, with the events the
  answer stands for.
\<close>

text \<open>The item an error gives back.\<close>

definition item_of :: "'t try_send_error \<Rightarrow> 't" where
  "item_of e = (case e of Send_timed_out x \<Rightarrow> x | No_receivers x \<Rightarrow> x)"

lemma item_of_simps [simp]: "item_of (Send_timed_out x) = x" "item_of (No_receivers x) = x"
  by (simp_all add: item_of_def)

lemma safe_guard_drop_top:
  "safe_top (queue_contract D A I H Q) k Free h \<Longrightarrow> items_ok D I q \<Longrightarrow> safe (queue_contract D A I H Q) (guard_drop k) (Held q) h J"
  by (rule safe_guard_drop) (simp_all add: safe_from_top)

lemma safe_push_or_panic:
  assumes "deque_laws D" "safe_top (queue_contract D A I H Q) k Free (h @ [Pushed item])" "I item" "H (h @ [Pushed item])" "items_ok D I q"
  shows "safe (queue_contract D A I H Q) (push_or_panic D item k) (Held q) h J"
  unfolding push_or_panic_def
  by (rule safe_push) (use assms in \<open>simp_all add: safe_from_top [OF assms(2)]\<close>)

lemma safe_inner_try_send:
  assumes "deque_laws D" "I item" "possible A (nobody receivers) \<Longrightarrow> safe_top (queue_contract D A I H Q) (k (Inl item)) Free h"
    and "safe_top (queue_contract D A I H Q) (k (Inr ())) Free (h @ [Pushed item])" "H (h @ [Pushed item])"
  shows "safe (queue_contract D A I H Q) (inner_try_send p D item k) Free h J"
  unfolding inner_try_send_def
proof (rule safe_lock_unless_dropping, erule assms(3) [OF possible_weaken], rule safe_wait [OF pred_space_or_no_receivers])
  fix q assume "res_inv (queue_contract D A I H Q) q"
  then show "safe_top (queue_contract D A I H Q) (none_or_dropping receivers (\<lambda>b.
      if b then guard_drop (k (Inl item)) else push_or_panic D item (k (Inr ())))) (Held q) h"
    using safe_guard_drop_top [OF assms(3)] safe_push_or_panic [OF assms(1,4,2), OF assms(5)]
    by (intro safe_none_or_dropping) simp_all
qed (simp_all add: safe_unlock_and_panic)

lemma safe_inner_try_send_until:
  assumes "deque_laws D" "I item" "\<And>e. item_of e = item \<Longrightarrow> safe_top (queue_contract D A I H Q) (k (Inl e)) Free h"
    and "safe_top (queue_contract D A I H Q) (k (Inr ())) Free (h @ [Pushed item])" "H (h @ [Pushed item])"
  shows "safe (queue_contract D A I H Q) (inner_try_send_until p D item until k) Free h J"
proof -
  let ?C = "queue_contract D A I H Q"
  note err = safe_guard_drop_top [OF assms(3)] safe_guard_drop_top [OF assms(3)] and push = safe_push_or_panic [OF assms(1,4,2), OF assms(5)]
  have tail: "safe_top ?C (if \<not> ok then guard_drop (k (Inl (Send_timed_out item)))
      else none_or_dropping receivers (\<lambda>b. if b then guard_drop (k (Inl (No_receivers item)))
        else push_or_panic D item (k (Inr ())))) (Held q) h" if "items_ok D I q" for ok q
    using err push that by (cases ok) (auto intro!: safe_none_or_dropping)
  have "safe ?C (condvar_wait_until p space_maybe_available until (space_or_no_receivers D) unlock_and_panic
      (\<lambda>ok. if \<not> ok then guard_drop (k (Inl (Send_timed_out item)))
      else none_or_dropping receivers (\<lambda>b. if b then guard_drop (k (Inl (No_receivers item)))
        else push_or_panic D item (k (Inr ()))))) (Held q) h J" if "items_ok D I q" for q
    using that by (intro safe_wait_until [OF pred_space_or_no_receivers]) (simp_all add: safe_unlock_and_panic tail del: if_not_P)
  then show ?thesis unfolding inner_try_send_until_def
    using safe_from_top [OF assms(3)] by (auto intro!: safe_load safe_try_lock_until)
qed

lemma safe_inner_try_send_once:
  assumes "deque_laws D" "I item" "\<And>e. item_of e = item \<Longrightarrow> safe_top (queue_contract D A I H Q) (k (Inl e)) Free h"
    and "safe_top (queue_contract D A I H Q) (k (Inr ())) Free (h @ [Pushed item])" "H (h @ [Pushed item])"
  shows "safe (queue_contract D A I H Q) (inner_try_send_once D item k) Free h J"
proof -
  let ?C = "queue_contract D A I H Q"
  note err = safe_guard_drop_top [OF assms(3)] safe_guard_drop_top [OF assms(3)] and push = safe_push_or_panic [OF assms(1,4,2), OF assms(5)]
  have "safe ?C (Access (\<lambda>q. q) (\<lambda>q.
         if dq_remaining_capacity D q = 0 then guard_drop (k (Inl (Send_timed_out item)))
         else none_or_dropping receivers (\<lambda>b.
           if b then guard_drop (k (Inl (No_receivers item)))
           else push_or_panic D item (k (Inr ()))))) (Held q) h J" if "items_ok D I q" for q
    using err push that by (intro safe_read) (auto intro!: safe_none_or_dropping)
  then show ?thesis unfolding inner_try_send_once_def
    using safe_from_top [OF assms(3)] by (auto intro!: safe_load safe_try_lock)
qed

lemma safe_inner_receive:
  assumes "deque_laws D" "possible A (nobody senders) \<Longrightarrow> safe_top (queue_contract D A I H Q) (k None) Free h"
    and "\<And>x. I x \<Longrightarrow> H (h @ [Popped x]) \<and> safe_top (queue_contract D A I H Q) (k (Some x)) Free (h @ [Popped x])"
  shows "safe (queue_contract D A I H Q) (inner_receive p D k) Free h J"
  unfolding inner_receive_def
proof (rule safe_lock_unless_dropping, erule assms(2) [OF possible_weaken], rule safe_wait [OF pred_item_or_no_senders [OF assms(1)]])
  fix q
  assume "res_inv (queue_contract D A I H Q) q" "(True \<longrightarrow> dq_items D q \<noteq> [] \<or> possible (atomics (queue_contract D A I H Q)) (nobody senders)) \<and>
    (\<not> True \<longrightarrow> dq_items D q = [])"
  then show "safe_top (queue_contract D A I H Q) (inner_pop D (\<lambda>item. guard_drop (k item))) (Held q) h"
    using safe_guard_drop_top [OF assms(2)] safe_guard_drop_top [OF conjunct2 [OF assms(3)]] assms(3)
    by (intro safe_pop [OF assms(1)]) simp_all
qed (simp_all add: safe_unlock_and_panic)

lemma safe_inner_try_receive_until:
  assumes "deque_laws D" "\<And>e. safe_top (queue_contract D A I H Q) (k (Inl e)) Free h"
    and "\<And>x. I x \<Longrightarrow> H (h @ [Popped x]) \<and> safe_top (queue_contract D A I H Q) (k (Inr x)) Free (h @ [Popped x])"
  shows "safe (queue_contract D A I H Q) (inner_try_receive_until p D until k) Free h J"
proof -
  let ?C = "queue_contract D A I H Q"
  let ?pop = "inner_pop D (\<lambda>r. case r of None \<Rightarrow> unlock_and_panic Expect_failed | Some item \<Rightarrow> guard_drop (k (Inr item)))"
  note err = safe_guard_drop_top [OF assms(2)]
  have pop: "safe ?C ?pop (Held q) h J" if "items_ok D I q" for q J
    by (rule safe_pop [OF assms(1) that]) (simp_all add: that safe_unlock_and_panic assms(3) safe_guard_drop_top [OF conjunct2 [OF assms(3)]])
  have tail: "safe_top ?C (if \<not> ok then guard_drop (k (Inl Receive_timed_out))
      else none_or_dropping senders (\<lambda>b. if b then guard_drop (k (Inl No_senders)) else ?pop)) (Held q) h" if "items_ok D I q" for ok q
    using err pop that by (cases ok) (auto intro!: safe_none_or_dropping)
  have "safe ?C (condvar_wait_until p item_maybe_available until (item_or_no_senders D) unlock_and_panic
      (\<lambda>ok. if \<not> ok then guard_drop (k (Inl Receive_timed_out))
      else none_or_dropping senders (\<lambda>b. if b then guard_drop (k (Inl No_senders)) else ?pop))) (Held q) h J" if "items_ok D I q" for q
    using that by (intro safe_wait_until [OF pred_item_or_no_senders [OF assms(1)]])
      (simp_all add: safe_unlock_and_panic tail del: if_not_P)
  then show ?thesis unfolding inner_try_receive_until_def
    using safe_from_top [OF assms(2)] by (auto intro!: safe_load safe_try_lock_until)
qed

lemma safe_inner_try_receive_once:
  assumes "deque_laws D" "\<And>e. safe_top (queue_contract D A I H Q) (k (Inl e)) Free h"
    and "\<And>x. I x \<Longrightarrow> H (h @ [Popped x]) \<and> safe_top (queue_contract D A I H Q) (k (Inr x)) Free (h @ [Popped x])"
  shows "safe (queue_contract D A I H Q) (inner_try_receive_once D k) Free h J"
proof -
  let ?C = "queue_contract D A I H Q"
  note err = safe_guard_drop_top [OF assms(2)]
  have "safe ?C (inner_pop D (\<lambda>r. case r of
           Some item \<Rightarrow> guard_drop (k (Inr item))
         | None \<Rightarrow> none_or_dropping senders (\<lambda>b.
             if b then guard_drop (k (Inl No_senders)) else guard_drop (k (Inl Receive_timed_out))))) (Held q) h J" if "items_ok D I q" for q
    using err that by (intro safe_pop [OF assms(1)]) (auto simp: assms(3) intro!: safe_none_or_dropping safe_guard_drop_top [OF conjunct2 [OF assms(3)]])
  then show ?thesis unfolding inner_try_receive_once_def
    using safe_from_top [OF assms(2)] by (auto intro!: safe_load safe_try_lock)
qed

lemma safe_inner_wait_for_message_until:
  assumes "deque_laws D" "\<And>r. safe_top (queue_contract D A I H Q) (k r) Free h"
  shows "safe (queue_contract D A I H Q) (inner_wait_for_message_until p D until k) Free h J"
proof -
  let ?C = "queue_contract D A I H Q"
  note err = safe_guard_drop_top [OF assms(2)]
  have "safe ?C (condvar_wait_until p item_maybe_available until (item_or_dropping D) unlock_and_panic
      (\<lambda>ok. if \<not> ok then guard_drop (k (Inl Timeout_reached)) else guard_drop (k (Inr ())))) (Held q) h J" if "items_ok D I q" for q
    using err that by (intro safe_wait_until [OF pred_item_or_dropping [OF assms(1)]]) (simp_all add: safe_unlock_and_panic)
  then show ?thesis unfolding inner_wait_for_message_until_def
    using safe_from_top [OF assms(2)] by (auto intro!: safe_load safe_try_lock_until)
qed

lemma safe_deadline_in:
  "(\<And>t. safe (queue_contract D A I H Q) (k t) Free h J) \<Longrightarrow> safe (queue_contract D A I H Q) (deadline_in timeout k) Free h J"
  unfolding deadline_in_def safe.simps
  by (intro allI safe_lift_exec) (auto simp: instant_add_def split: if_splits)

section \<open>Threads that use the channel\<close>

text \<open>A thread performs a list of calls of the public interface and collects what they return.\<close>

datatype 't chan_op =
    Op_send 't | Op_try_send 't | Op_try_send_until 't instant | Op_try_send_timeout 't duration
  | Op_receive | Op_try_receive | Op_try_receive_until instant | Op_try_receive_timeout duration
  | Op_wait_until instant | Op_wait_timeout duration
  | Op_make_sender | Op_make_receiver

datatype 't outcome = Sent | Given_back 't | Got 't | Nothing

definition send_outcome :: "'t try_send_error + unit \<Rightarrow> 't outcome" where
  "send_outcome r = (case r of Inl e \<Rightarrow> Given_back (item_of e) | Inr _ \<Rightarrow> Sent)"

definition receive_outcome :: "try_receive_error + 't \<Rightarrow> 't outcome" where
  "receive_outcome r = (case r of Inl _ \<Rightarrow> Nothing | Inr x \<Rightarrow> Got x)"

definition run_op :: "profile \<Rightarrow> ('t, 'v, 'e) deque_lib \<Rightarrow> int \<Rightarrow> channel \<Rightarrow> 't chan_op \<Rightarrow>
    ('t outcome \<Rightarrow> ('v, 'w chan_state, 'r) prog) \<Rightarrow> ('v, 'w chan_state, 'r) prog" where
  "run_op p D proc ch op k = (case op of
     Op_send x \<Rightarrow> sender_send p D x (\<lambda>r. k (case r of Inl y \<Rightarrow> Given_back y | Inr _ \<Rightarrow> Sent))
   | Op_try_send x \<Rightarrow> sender_try_send D x (\<lambda>r. k (send_outcome r))
   | Op_try_send_until x t \<Rightarrow> sender_try_send_until p D x t (\<lambda>r. k (send_outcome r))
   | Op_try_send_timeout x d \<Rightarrow> sender_try_send_timeout p D x d (\<lambda>r. k (send_outcome r))
   | Op_receive \<Rightarrow> receiver_receive p D (\<lambda>r. k (case r of None \<Rightarrow> Nothing | Some x \<Rightarrow> Got x))
   | Op_try_receive \<Rightarrow> receiver_try_receive D (\<lambda>r. k (receive_outcome r))
   | Op_try_receive_until t \<Rightarrow> receiver_try_receive_until p D t (\<lambda>r. k (receive_outcome r))
   | Op_try_receive_timeout d \<Rightarrow> receiver_try_receive_timeout p D d (\<lambda>r. k (receive_outcome r))
   | Op_wait_until t \<Rightarrow> receiver_wait_for_message_until p D t (\<lambda>_. k Nothing)
   | Op_wait_timeout d \<Rightarrow> receiver_wait_for_message_timeout p D d (\<lambda>_. k Nothing)
   | Op_make_sender \<Rightarrow> make_sender proc ch (\<lambda>_. k Nothing)
   | Op_make_receiver \<Rightarrow> make_receiver proc ch (\<lambda>_. k Nothing))"

fun chan_prog :: "profile \<Rightarrow> ('t, 'v, 'e) deque_lib \<Rightarrow> int \<Rightarrow> channel \<Rightarrow> 't chan_op list \<Rightarrow> ('t chan_op \<times> 't outcome) list \<Rightarrow>
    ('v, 'w chan_state, ('t chan_op \<times> 't outcome) list) prog" where
  "chan_prog p D proc ch [] out = Return (rev out)"
| "chan_prog p D proc ch (op # ops) out = run_op p D proc ch op (\<lambda>r. chan_prog p D proc ch ops ((op, r) # out))"

text \<open>The answers an operation can give, and the events each stands for.\<close>

definition answers :: "'t chan_op \<Rightarrow> 't outcome \<Rightarrow> bool" where
  "answers op r \<longleftrightarrow> (case op of
     Op_send x \<Rightarrow> r = Sent \<or> r = Given_back x | Op_try_send x \<Rightarrow> r = Sent \<or> r = Given_back x
   | Op_try_send_until x _ \<Rightarrow> r = Sent \<or> r = Given_back x | Op_try_send_timeout x _ \<Rightarrow> r = Sent \<or> r = Given_back x
   | Op_wait_until _ \<Rightarrow> r = Nothing | Op_wait_timeout _ \<Rightarrow> r = Nothing
   | Op_make_sender \<Rightarrow> r = Nothing | Op_make_receiver \<Rightarrow> r = Nothing
   | _ \<Rightarrow> r = Nothing \<or> (\<exists>x. r = Got x))"

definition op_events :: "'t chan_op \<times> 't outcome \<Rightarrow> 't queue_event list" where
  "op_events c = (case snd c of
     Sent \<Rightarrow> (case fst c of Op_send x \<Rightarrow> [Pushed x] | Op_try_send x \<Rightarrow> [Pushed x]
       | Op_try_send_until x _ \<Rightarrow> [Pushed x] | Op_try_send_timeout x _ \<Rightarrow> [Pushed x] | _ \<Rightarrow> [])
   | Got x \<Rightarrow> [Popped x] | Given_back x \<Rightarrow> [] | Nothing \<Rightarrow> [])"

lemma safe_rc_increase:
  assumes "safe (queue_contract D A I H Q) k Free h J" "\<And>f s. A s \<Longrightarrow> A (upd f s)"
  shows "safe (queue_contract D A I H Q) (rc_increase get upd k) Free h J"
  using assms by (simp add: rc_increase_def Let_def)

lemmas public_defs = sender_send_def sender_try_send_def sender_try_send_until_def sender_try_send_timeout_def
  receiver_receive_def receiver_try_receive_def receiver_try_receive_until_def receiver_try_receive_timeout_def
  receiver_wait_for_message_until_def receiver_wait_for_message_timeout_def inner_wait_for_message_timeout_def

lemma safe_run_op:
  assumes D: "deque_laws D"
    and k: "\<And>r. answers op r \<Longrightarrow> safe_top (queue_contract D (\<lambda>_. True) (\<lambda>_. True) (\<lambda>_. True) Q) (k r) Free (h @ op_events (op, r))"
  shows "safe_top (queue_contract D (\<lambda>_. True) (\<lambda>_. True) (\<lambda>_. True) Q) (run_op p D proc ch op k) Free h"
proof (cases op)
  case (Op_send x)
  with k [of Sent] k [of "Given_back x"] show ?thesis
    by (simp add: run_op_def public_defs answers_def op_events_def safe_inner_try_send [OF D])
next
  case (Op_try_send x)
  with k [of Sent] k [of "Given_back x"] show ?thesis
    by (simp add: run_op_def public_defs answers_def op_events_def safe_inner_try_send_once [OF D] send_outcome_def)
next
  case (Op_try_send_until x t)
  with k [of Sent] k [of "Given_back x"] show ?thesis
    by (simp add: run_op_def public_defs answers_def op_events_def safe_inner_try_send_until [OF D] send_outcome_def)
next
  case (Op_try_send_timeout x d)
  with k [of Sent] k [of "Given_back x"] show ?thesis
    by (simp add: run_op_def public_defs answers_def op_events_def safe_deadline_in
        safe_inner_try_send_until [OF D] send_outcome_def)
next
  case Op_receive
  with k [of Nothing] k [of "Got x" for x] show ?thesis
    by (simp add: run_op_def public_defs answers_def op_events_def safe_inner_receive [OF D])
next
  case Op_try_receive
  with k [of Nothing] k [of "Got x" for x] show ?thesis
    by (simp add: run_op_def public_defs answers_def op_events_def safe_inner_try_receive_once [OF D] receive_outcome_def)
next
  case (Op_try_receive_until t)
  with k [of Nothing] k [of "Got x" for x] show ?thesis
    by (simp add: run_op_def public_defs answers_def op_events_def safe_inner_try_receive_until [OF D] receive_outcome_def)
next
  case (Op_try_receive_timeout d)
  with k [of Nothing] k [of "Got x" for x] show ?thesis
    by (simp add: run_op_def public_defs answers_def op_events_def safe_deadline_in
        safe_inner_try_receive_until [OF D] receive_outcome_def)
next
  case (Op_wait_until t)
  with k [of Nothing] show ?thesis
    by (simp add: run_op_def public_defs answers_def op_events_def safe_inner_wait_for_message_until [OF D])
next
  case (Op_wait_timeout d)
  with k [of Nothing] show ?thesis
    by (simp add: run_op_def public_defs answers_def op_events_def safe_deadline_in safe_inner_wait_for_message_until [OF D])
next
  case Op_make_sender
  with k [of Nothing] show ?thesis
    by (simp add: run_op_def make_sender_def channel_clone_def answers_def op_events_def safe_rc_increase)
next
  case Op_make_receiver
  with k [of Nothing] show ?thesis
    by (simp add: run_op_def make_receiver_def channel_clone_def answers_def op_events_def safe_rc_increase)
qed

text \<open>What a finished thread reports: an answer to every call, in order, and the events they stand for.\<close>

definition reports :: "'t chan_op list \<Rightarrow> ('t chan_op \<times> 't outcome) list \<Rightarrow> 't queue_event list \<Rightarrow> bool" where
  "reports ops rs h \<longleftrightarrow> map fst rs = ops \<and> (\<forall>(op, r) \<in> set rs. answers op r) \<and> h = concat (map op_events rs)"

lemma safe_chan_prog:
  assumes "deque_laws D" "reports past (rev out) h"
  shows "safe_top (queue_contract D (\<lambda>_. True) (\<lambda>_. True) (\<lambda>_. True) (reports (past @ ops))) (chan_prog p D proc ch ops out) Free h"
  using assms(2)
proof (induction ops arbitrary: past out h)
  case Nil
  then show ?case by simp
next
  case (Cons op ops)
  have "reports (past @ [op]) (rev ((op, r) # out)) (h @ op_events (op, r))" if "answers op r" for r
    using Cons.prems that by (auto simp: reports_def)
  note next_op = Cons.IH [OF this]
  show ?case
    unfolding chan_prog.simps by (rule safe_run_op [OF assms(1)]) (use next_op in simp)
qed

section \<open>First in, first out\<close>

definition pushed :: "'t queue_event list \<Rightarrow> 't list" where
  "pushed es = concat (map (\<lambda>e. case e of Pushed x \<Rightarrow> [x] | Popped _ \<Rightarrow> []) es)"

definition popped :: "'t queue_event list \<Rightarrow> 't list" where
  "popped es = concat (map (\<lambda>e. case e of Popped x \<Rightarrow> [x] | Pushed _ \<Rightarrow> []) es)"

lemma pushed_simps [simp]:
  "pushed [] = []" "pushed (Pushed x # es) = x # pushed es" "pushed (Popped x # es) = pushed es"
  "popped [] = []" "popped (Pushed x # es) = popped es" "popped (Popped x # es) = x # popped es"
  by (simp_all add: pushed_def popped_def)

lemma pushed_append [simp]: "pushed (es @ fs) = pushed es @ pushed fs" "popped (es @ fs) = popped es @ popped fs"
  by (simp_all add: pushed_def popped_def)

lemmas only_pusher = only_thread [of pushed, OF pushed_simps(1) pushed_append(1)]
lemmas only_popper = only_thread [of popped, OF pushed_simps(4) pushed_append(2)]

lemma chain_fifo:
  assumes "deque_laws D"
  shows "event_chain (queue_effect D) q es q' \<Longrightarrow> dq_items D q @ pushed es = popped es @ dq_items D q'"
proof (induction es arbitrary: q)
  case (Cons e es)
  then obtain q1 where q1: "queue_effect D q e q1" "event_chain (queue_effect D) q1 es q'" by auto
  show ?case
  proof (cases e)
    case (Pushed x)
    then have "dq_items D q1 = dq_items D q @ [x]"
      using q1(1) deque_law_rules(2) [OF assms] by (simp add: queue_effect_def)
    with Cons.IH [OF q1(2)] Pushed show ?thesis by simp
  next
    case (Popped x)
    then have "dq_items D q = x # dq_items D q1"
      using q1(1) deque_law_rules(6) [OF assms] by (simp add: queue_effect_def)
    with Cons.IH [OF q1(2)] Popped show ?thesis by simp
  qed
qed simp

section \<open>All threads together\<close>

definition chan_start :: "profile \<Rightarrow> ('t, 'v, 'e) deque_lib \<Rightarrow> 'l pthread \<Rightarrow> channel \<Rightarrow> (tid \<Rightarrow> int) \<Rightarrow> (tid \<Rightarrow> 't chan_op list) \<Rightarrow>
    ('v, 'w chan_state, ('t chan_op \<times> 't outcome) list, 'l) sys \<Rightarrow> bool" where
  "chan_start p D P ch proc ops s \<longleftrightarrow> holder P (lib s) = None \<and>
     (\<forall>t. \<not> asleep s t \<and> threads s t = chan_prog p D (proc t) ch (ops t) [])"

lemma chan_start_inv:
  assumes "deque_laws D" "chan_start p D P ch proc ops s"
  shows "sys_inv (\<lambda>_. True) (\<lambda>t. queue_contract D (\<lambda>_. True) (\<lambda>_. True) (\<lambda>_. True) (reports (ops t))) P (cell s) s []"
proof (rule sys_inv_start [where A = "\<lambda>_. True"])
  fix t
  show "safe_top (queue_contract D (\<lambda>_. True) (\<lambda>_. True) (\<lambda>_. True) (reports (ops t))) (threads s t) Free []"
    using safe_chan_prog [OF assms(1), of "[]" "[]" "[]" "ops t"] assms(2) by (simp add: chan_start_def reports_def)
qed (use assms(2) in \<open>simp_all add: chan_start_def fun_eq_iff\<close>)

lemma channel_sys_inv:
  assumes "deque_laws D" "pthread_laws P" "chan_start p D P ch proc ops s0" "sys_reach P s0 s"
  obtains log where "sys_inv (\<lambda>_. True) (\<lambda>t. queue_contract D (\<lambda>_. True) (\<lambda>_. True) (\<lambda>_. True) (reports (ops t))) P (cell s0) s log"
    "event_chain (queue_effect D) (cell s0) (map snd log) (cell s)"
proof -
  obtain log where inv: "sys_inv (\<lambda>_. True) (\<lambda>t. queue_contract D (\<lambda>_. True) (\<lambda>_. True) (\<lambda>_. True) (reports (ops t))) P (cell s0) s log"
    using interleaving_sound [OF assms(2) chan_start_inv [OF assms(1,3)] assms(4)] by blast
  moreover have "event_chain (queue_effect D) (cell s0) (map snd log) (cell s)"
    using inv by (simp add: sys_inv_def owned_effect_shared [where G = "queue_effect D"])
  ultimately show thesis by (rule that)
qed

end
