(* ===== verification/Schedules.thy ===== *)
theory Schedules
  imports Interleaving
begin

text \<open>
  Concrete runs of the interleaved system. \<open>wake_pthread\<close> is a lawful pthread library in which a
  sleeping thread wakes up only after a signal or broadcast that came while it slept (no spurious
  wake-ups), and \<open>run_schedule\<close> executes a given schedule, so that a reachable state is found by
  simplification.
\<close>

section \<open>A lawful library\<close>

text \<open>Who holds the mutex, who sleeps on which condition variable, and who has been woken.\<close>

record wake_state =
  wk_holder :: "tid option"
  wk_sleeping :: "(tid \<times> cond_id) list"
  wk_woken :: "tid list"

definition cond_of :: "pcall \<Rightarrow> cond_id" where
  "cond_of c = (case c of Pcond_wait i \<Rightarrow> i | Pcond_timedwait i _ \<Rightarrow> i | Pcond_signal i \<Rightarrow> i | Pcond_broadcast i \<Rightarrow> i | _ \<Rightarrow> 0)"

definition wake_all :: "cond_id \<Rightarrow> wake_state \<Rightarrow> wake_state" where
  "wake_all i l = l\<lparr>wk_sleeping := filter (\<lambda>x. snd x \<noteq> i) (wk_sleeping l),
     wk_woken := map fst (filter (\<lambda>x. snd x = i) (wk_sleeping l)) @ wk_woken l\<rparr>"

text \<open>
  A lock call succeeds when the mutex is free, and otherwise answers with the code that says so;
  \<open>Pmutex_lock\<close> then waits. A signal wakes at least one sleeper if there is one: either one of
  them (\<open>wake_one\<close>) or all.
\<close>

definition wake_one :: "tid \<Rightarrow> cond_id \<Rightarrow> wake_state \<Rightarrow> wake_state" where
  "wake_one t i l = l\<lparr>wk_sleeping := removeAll (t, i) (wk_sleeping l), wk_woken := t # wk_woken l\<rparr>"

definition signal_one :: "wake_state \<Rightarrow> tid \<Rightarrow> pcall \<Rightarrow> wake_state option" where
  "signal_one l t c = (case c of
     Pcond_signal i \<Rightarrow> if (t, i) \<in> set (wk_sleeping l) then Some (wake_one t i l) else None | _ \<Rightarrow> None)"

definition wake_call :: "wake_state \<Rightarrow> tid \<Rightarrow> pcall \<Rightarrow> int \<Rightarrow> wake_state option" where
  "wake_call l t c e =
     (if takes_lock c then
        (if wk_holder l = None then (if e = 0 then Some (l\<lparr>wk_holder := Some t\<rparr>) else None)
         else if e = (if c = Pmutex_trylock then EBUSY else ETIMEDOUT) \<and> c \<noteq> Pmutex_lock then Some l else None)
      else if e \<noteq> 0 then None
      else if c = Pmutex_unlock then Some (if wk_holder l = Some t then l\<lparr>wk_holder := None\<rparr> else l)
      else (case c of Pcond_signal i \<Rightarrow> Some (wake_all i l) | Pcond_broadcast i \<Rightarrow> Some (wake_all i l) | _ \<Rightarrow> Some l))"

definition wake_sleep :: "wake_state \<Rightarrow> tid \<Rightarrow> pcall \<Rightarrow> wake_state" where
  "wake_sleep l t c = l\<lparr>wk_holder := (if wk_holder l = Some t then None else wk_holder l),
     wk_sleeping := (t, cond_of c) # wk_sleeping l\<rparr>"

definition wake_up :: "wake_state \<Rightarrow> tid \<Rightarrow> wake_state option" where
  "wake_up l t = (if wk_holder l = None \<and> t \<in> set (wk_woken l)
     then Some (l\<lparr>wk_holder := Some t, wk_woken := removeAll t (wk_woken l)\<rparr>) else None)"

definition wake_pthread :: "wake_state pthread" where
  "wake_pthread = \<lparr>holder = wk_holder,
     call_ans = (\<lambda>l t c e l'. wake_call l t c e = Some l' \<or> (e = 0 \<and> (\<exists>t'. signal_one l t' c = Some l'))),
     wait_begin = (\<lambda>l t c l'. l' = wake_sleep l t c),
     wait_end = (\<lambda>l t c e l'. e = 0 \<and> wake_up l t = Some l')\<rparr>"

lemma wake_pthread_simps [simp]:
  "holder wake_pthread = wk_holder"
  "call_ans wake_pthread l t c e l' \<longleftrightarrow> wake_call l t c e = Some l' \<or> (e = 0 \<and> (\<exists>t'. signal_one l t' c = Some l'))"
  "wait_begin wake_pthread l t c l' \<longleftrightarrow> l' = wake_sleep l t c"
  "wait_end wake_pthread l t c e l' \<longleftrightarrow> e = 0 \<and> wake_up l t = Some l'"
  by (simp_all add: wake_pthread_def)

lemma wake_all_holder [simp]: "wk_holder (wake_all i l) = wk_holder l"
  by (simp add: wake_all_def)

lemma wake_call_lock:
  "wake_call l t c e = Some l' \<Longrightarrow> takes_lock c \<Longrightarrow>
     (if e = 0 then wk_holder l = None \<and> wk_holder l' = Some t else wk_holder l' = wk_holder l)"
  by (auto simp: wake_call_def EBUSY_def ETIMEDOUT_def split: if_splits)

lemma wake_call_other:
  "wake_call l t c e = Some l' \<Longrightarrow> \<not> takes_lock c \<Longrightarrow>
     (if c = Pmutex_unlock then wk_holder l = Some t \<longrightarrow> wk_holder l' = None else wk_holder l' = wk_holder l)"
  by (auto simp: wake_call_def split: if_splits pcall.splits)

lemma signal_one_other:
  "signal_one l t c = Some l' \<Longrightarrow> \<not> takes_lock c \<and> c \<noteq> Pmutex_unlock \<and> wk_holder l' = wk_holder l"
  by (cases c) (simp_all add: signal_one_def wake_one_def takes_lock_def split: if_splits, auto)

lemma wake_pthread_laws: "pthread_laws wake_pthread"
  unfolding pthread_laws_def wake_pthread_simps
proof (intro conjI allI impI)
  fix l t c e l'
  assume "wake_call l t c e = Some l' \<or> (e = 0 \<and> (\<exists>t'. signal_one l t' c = Some l'))"
  then show "if takes_lock c
      then if e = 0 then wk_holder l = None \<and> wk_holder l' = Some t else wk_holder l' = wk_holder l
      else if c = Pmutex_unlock then wk_holder l = Some t \<longrightarrow> wk_holder l' = None
      else wk_holder l' = wk_holder l"
    using wake_call_lock [of l t c e l'] wake_call_other [of l t c e l'] signal_one_other [of l _ c l']
    by (cases "takes_lock c") auto
qed (auto simp: wake_sleep_def wake_up_def split: if_splits)

section \<open>Schedules\<close>

text \<open>One entry of a schedule: a thread and what its next call answers.\<close>

datatype answer = Go | Fails bool | Code int | Clock "int \<times> timespec \<times> int" | Now instant | Pid int | Sleeps | Wakes tid

definition set_thread :: "tid \<Rightarrow> ('d, 's, 'r) prog \<Rightarrow> ('d, 's, 'r, 'l) sys \<Rightarrow> ('d, 's, 'r, 'l) sys" where
  "set_thread t p s = s\<lparr>threads := (threads s)(t := p)\<rparr>"

text \<open>A library whose answers can be computed, and what makes it an instance of a \<open>pthread\<close>.\<close>

record 'l runner =
  run_call :: "'l \<Rightarrow> tid \<Rightarrow> pcall \<Rightarrow> int \<Rightarrow> 'l option"
  run_signal :: "'l \<Rightarrow> tid \<Rightarrow> pcall \<Rightarrow> 'l option"
  run_sleep :: "'l \<Rightarrow> tid \<Rightarrow> pcall \<Rightarrow> 'l"
  run_wake :: "'l \<Rightarrow> tid \<Rightarrow> 'l option"

definition runner_of :: "'l runner \<Rightarrow> 'l pthread \<Rightarrow> bool" where
  "runner_of R P \<longleftrightarrow>
     (\<forall>l t c e l'. run_call R l t c e = Some l' \<longrightarrow> call_ans P l t c e l') \<and>
     (\<forall>l t t' c l'. run_signal R l t' c = Some l' \<longrightarrow> call_ans P l t c 0 l') \<and>
     (\<forall>l t c. wait_begin P l t c (run_sleep R l t c)) \<and>
     (\<forall>l t c l'. run_wake R l t = Some l' \<longrightarrow> wait_end P l t c 0 l')"

lemma runner_of_rules:
  assumes "runner_of R P"
  shows "run_call R l t c e = Some l' \<Longrightarrow> call_ans P l t c e l'" "run_signal R l t' c = Some l' \<Longrightarrow> call_ans P l t c 0 l'"
    "wait_begin P l t c (run_sleep R l t c)" "run_wake R l t = Some l' \<Longrightarrow> wait_end P l t c 0 l'"
  using assms unfolding runner_of_def by blast+

definition wake_runner :: "wake_state runner" where
  "wake_runner = \<lparr>run_call = wake_call, run_signal = signal_one, run_sleep = wake_sleep, run_wake = wake_up\<rparr>"

lemma wake_runner_simps [simp]:
  "run_call wake_runner = wake_call" "run_signal wake_runner = signal_one" "run_sleep wake_runner = wake_sleep" "run_wake wake_runner = wake_up"
  by (simp_all add: wake_runner_def)

lemma wake_runner_of: "runner_of wake_runner wake_pthread"
  by (auto simp: runner_of_def)

definition move_in :: "'l runner \<Rightarrow> ('d, 's, 'r, 'l) sys \<Rightarrow> tid \<times> answer \<Rightarrow> ('d, 's, 'r, 'l) sys option" where
  "move_in R s x = (case x of (t, a) \<Rightarrow> (case threads s t of
     Loop b n \<Rightarrow> (case a of Go \<Rightarrow> Some (set_thread t (unroll b n) s) | _ \<Rightarrow> None)
   | Weak k \<Rightarrow> (case a of Fails b \<Rightarrow> Some (set_thread t (k b) s) | _ \<Rightarrow> None)
   | Access u k \<Rightarrow> (case a of Go \<Rightarrow> Some ((set_thread t (k (cell s)) s)\<lparr>cell := u (cell s)\<rparr>) | _ \<Rightarrow> None)
   | Exclusive u k \<Rightarrow> (case a of Go \<Rightarrow> Some ((set_thread t (k (cell s)) s)\<lparr>cell := u (cell s)\<rparr>) | _ \<Rightarrow> None)
   | Atomic w k \<Rightarrow> (case a of Go \<Rightarrow> Some ((set_thread t (k (shared s)) s)\<lparr>shared := w (shared s)\<rparr>) | _ \<Rightarrow> None)
   | Gettime c k \<Rightarrow> (case a of Clock r \<Rightarrow> Some (set_thread t (k r) s) | _ \<Rightarrow> None)
   | Instant_now k \<Rightarrow> (case a of Now i \<Rightarrow> Some (set_thread t (k i) s) | _ \<Rightarrow> None)
   | Getpid k \<Rightarrow> (case a of Pid i \<Rightarrow> Some (set_thread t (k i) s) | _ \<Rightarrow> None)
   | Pthread c k \<Rightarrow>
       if waits c then
         (case a of
            Sleeps \<Rightarrow> if asleep s t then None else Some (s\<lparr>asleep := (asleep s)(t := True), lib := run_sleep R (lib s) t c\<rparr>)
          | Go \<Rightarrow> if \<not> asleep s t then None else
              map_option (\<lambda>l. (set_thread t (k 0) s)\<lparr>asleep := (asleep s)(t := False), lib := l\<rparr>) (run_wake R (lib s) t)
          | _ \<Rightarrow> None)
       else (case a of
            Code e \<Rightarrow> map_option (\<lambda>l. (set_thread t (k e) s)\<lparr>lib := l\<rparr>) (run_call R (lib s) t c e)
          | Wakes t' \<Rightarrow> map_option (\<lambda>l. (set_thread t (k 0) s)\<lparr>lib := l\<rparr>) (run_signal R (lib s) t' c)
          | _ \<Rightarrow> None)
   | _ \<Rightarrow> None))"

lemma move_step:
  assumes "runner_of R P" "move_in R s x = Some s'"
  shows "sys_step P s s'"
proof -
  obtain t a where x: "x = (t, a)" by (cases x)
  show ?thesis
  proof (cases "threads s t")
    case (Loop b n)
    with assms(2) x step_loop [OF Loop] show ?thesis by (auto simp: move_in_def set_thread_def split: answer.splits)
  next
    case (Weak k)
    with assms(2) x step_weak [OF Weak] show ?thesis by (auto simp: move_in_def set_thread_def split: answer.splits)
  next
    case (Access u k)
    with assms(2) x step_access [OF Access] show ?thesis by (auto simp: move_in_def set_thread_def split: answer.splits)
  next
    case (Exclusive u k)
    with assms(2) x step_exclusive [OF Exclusive] show ?thesis by (auto simp: move_in_def set_thread_def split: answer.splits)
  next
    case (Atomic w k)
    with assms(2) x step_atomic [OF Atomic] show ?thesis by (auto simp: move_in_def set_thread_def split: answer.splits)
  next
    case (Gettime c k)
    with assms(2) x step_time [OF Gettime] show ?thesis by (auto simp: move_in_def set_thread_def split: answer.splits)
  next
    case (Instant_now k)
    with assms(2) x step_now [OF Instant_now] show ?thesis by (auto simp: move_in_def set_thread_def split: answer.splits)
  next
    case (Getpid k)
    with assms(2) x step_pid [OF Getpid] show ?thesis by (auto simp: move_in_def set_thread_def split: answer.splits)
  next
    case (Pthread c k)
    show ?thesis
    proof (cases "waits c")
      case True
      then show ?thesis
        using assms(2) x Pthread step_sleep [OF Pthread True, of P] step_wake [OF Pthread True, of P] runner_of_rules(3,4) [OF assms(1)]
        by (auto simp: move_in_def set_thread_def split: answer.splits if_splits)
    next
      case False
      then show ?thesis
        using assms(2) x Pthread step_call [OF Pthread False, of P] runner_of_rules(1,2) [OF assms(1)]
        by (auto simp: move_in_def set_thread_def split: answer.splits if_splits)
    qed
  qed (use assms(2) x in \<open>simp_all add: move_in_def\<close>)
qed

fun run_in :: "'l runner \<Rightarrow> (tid \<times> answer) list \<Rightarrow> ('d, 's, 'r, 'l) sys \<Rightarrow> ('d, 's, 'r, 'l) sys option" where
  "run_in R [] s = Some s"
| "run_in R (x # xs) s = (case move_in R s x of None \<Rightarrow> None | Some s' \<Rightarrow> run_in R xs s')"

abbreviation run_schedule :: "(tid \<times> answer) list \<Rightarrow> ('d, 's, 'r, wake_state) sys \<Rightarrow> ('d, 's, 'r, wake_state) sys option" where
  "run_schedule \<equiv> run_in wake_runner"

lemma sys_reach_trans: "sys_reach P s1 s2 \<Longrightarrow> sys_reach P s0 s1 \<Longrightarrow> sys_reach P s0 s2"
  by (induction rule: sys_reach.induct) (auto intro: reach_step)

lemma run_in_reach: "runner_of R P \<Longrightarrow> run_in R xs s = Some s' \<Longrightarrow> sys_reach P s s'"
proof (induction xs arbitrary: s)
  case Nil
  then show ?case by (simp add: reach_start)
next
  case (Cons x xs)
  then obtain s1 where s1: "move_in R s x = Some s1" "run_in R xs s1 = Some s'" by (auto split: option.splits)
  then have "sys_reach P s s1" using reach_step [OF reach_start move_step [OF Cons.prems(1)]] by blast
  with Cons.IH [OF Cons.prems(1) s1(2)] show ?case by (rule sys_reach_trans)
qed

lemmas run_schedule_reach = run_in_reach [OF wake_runner_of]

end
