(* ===== verification/Channel_Guarantees.thy ===== *)
theory Channel_Guarantees
  imports Channel_Correct Schedules
begin

text \<open>
  The guarantees of the channel to threads that use it in any interleaving, and the runs that show
  where it breaks: a panic out of a race between a send and a new receiver, and a receiver that
  sleeps for ever because the last sender's wake-up comes too early. \<open>list_deque\<close> is a lawful deque.
\<close>

section \<open>A lawful deque\<close>

definition list_deque :: "('t, nat \<times> 't list, unit) deque_lib" where
  "list_deque = \<lparr>dq_items = snd, dq_is_empty = (\<lambda>q. snd q = []), dq_remaining_capacity = (\<lambda>q. fst q - length (snd q)),
     dq_push_back = (\<lambda>q x. if length (snd q) < fst q then (Inr (), (fst q, snd q @ [x])) else (Inl (), q)),
     dq_pop_front = (\<lambda>q. case snd q of [] \<Rightarrow> (None, q) | x # xs \<Rightarrow> (Some x, (fst q, xs)))\<rparr>"

lemma list_deque_simps [simp]:
  "dq_items list_deque q = snd q" "dq_is_empty list_deque q \<longleftrightarrow> snd q = []"
  "dq_remaining_capacity list_deque q = fst q - length (snd q)"
  "dq_push_back list_deque q x = (if length (snd q) < fst q then (Inr (), (fst q, snd q @ [x])) else (Inl (), q))"
  "dq_pop_front list_deque q = (case snd q of [] \<Rightarrow> (None, q) | y # ys \<Rightarrow> (Some y, (fst q, ys)))"
  by (simp_all add: list_deque_def)

lemma list_deque_laws: "deque_laws list_deque"
  unfolding deque_laws_def by (auto split: list.splits if_splits)

section \<open>A sample system\<close>

definition sample_channel :: channel where
  "sample_channel = \<lparr>inner_ptr = 8, original_pid = 7, ch_allocator = \<lparr>free_chunks_ptr = 64, memory_buffer = 4096\<rparr>\<rparr>"

text \<open>Two threads of process 7; \<open>n\<close> receivers and \<open>m\<close> senders exist already.\<close>

definition two_threads :: "nat \<times> nat list \<Rightarrow> 64 word \<Rightarrow> 64 word \<Rightarrow> nat chan_op list \<Rightarrow> nat chan_op list \<Rightarrow>
    (nat \<times> nat list, unit chan_state, (nat chan_op \<times> nat outcome) list, wake_state) sys" where
  "two_threads q n m ops0 ops1 = \<lparr>
     threads = (\<lambda>t. chan_prog dev_profile list_deque 7 sample_channel (if t = 0 then ops0 else if t = 1 then ops1 else []) []),
     asleep = (\<lambda>_. False), cell = q,
     shared = \<lparr>receivers = n, senders = m, dropping = False, references = (\<lambda>_. \<lparr>counter = 2, rc_pid = 7\<rparr>), world = ()\<rparr>,
     lib = \<lparr>wk_holder = None, wk_sleeping = [], wk_woken = []\<rparr>\<rparr>"

lemma two_threads_start:
  "chan_start dev_profile list_deque wake_pthread sample_channel (\<lambda>_. 7)
     (\<lambda>t. if t = 0 then ops0 else if t = 1 then ops1 else []) (two_threads q n m ops0 ops1)"
  by (simp add: chan_start_def two_threads_def)

text \<open>Unfolding the code for evaluation along a schedule.\<close>

lemmas run_defs = two_threads_def move_in_def set_thread_def run_op_def public_defs
  inner_try_send_once_def inner_try_receive_once_def inner_push_def inner_pop_def push_or_panic_def
  load_def none_or_dropping_def mutex_try_lock_def guard_drop_def condvar_signal_def unlock_and_panic_def
  wake_call_def wake_all_def wake_sleep_def wake_up_def cond_of_def send_outcome_def receive_outcome_def

lemma sample_exchange:
  "\<exists>s. run_schedule [(0, Go), (0, Code 0), (1, Go), (1, Code EBUSY), (0, Go), (0, Go), (0, Go), (0, Go), (0, Code 0), (0, Code 0),
      (1, Go), (1, Code 0), (1, Go), (1, Code 0), (1, Code 0)]
    (two_threads (1, []) 1 1 [Op_try_send 5] [Op_try_receive, Op_try_receive]) = Some s \<and>
    threads s 0 = Return [(Op_try_send 5, Sent)] \<and> threads s 1 = Return [(Op_try_receive, Nothing), (Op_try_receive, Got 5)] \<and>
    cell s = (1, [])"
  by (simp add: run_defs)

section \<open>Every interleaving\<close>

text \<open>
  C1: whatever the interleaving of the threads that use a channel, and whatever the operating
  system answers, there is one order of pushes and pops that takes the initial queue to the present
  one, in which the items come out in the order they went in; and every thread that has finished
  reports exactly its own events of that order: a send that answers Ok pushed its item once, one
  that gives its item back pushed nothing, a receive popped the item it returns and nothing else.
\<close>

theorem channel_linearizable:
  assumes "deque_laws D" "pthread_laws P" "chan_start p D P ch proc ops s0" "sys_reach P s0 s"
  shows "\<exists>log. event_chain (queue_effect D) (cell s0) (map snd log) (cell s) \<and>
    dq_items D (cell s0) @ pushed (map snd log) = popped (map snd log) @ dq_items D (cell s) \<and>
    (\<forall>t rs. threads s t = Return rs \<longrightarrow> reports (ops t) rs (of_thread t log))"
proof -
  obtain log where inv: "sys_inv (\<lambda>_. True) (\<lambda>t. queue_contract D (\<lambda>_. True) (\<lambda>_. True) (\<lambda>_. True) (reports (ops t))) P (cell s0) s log"
    and chain: "event_chain (queue_effect D) (cell s0) (map snd log) (cell s)"
    using assms by (rule channel_sys_inv)
  show ?thesis
    using chain chain_fifo [OF assms(1) chain] sys_inv_returned [OF inv] by auto
qed

theorem channel_linearizable_witness:
  "\<exists>s. sys_reach wake_pthread (two_threads (1, []) 1 1 [Op_try_send 5] [Op_try_receive, Op_try_receive]) s \<and>
    threads s 1 = Return [(Op_try_receive, Nothing), (Op_try_receive, Got 5)] \<and>
    (\<exists>log. pushed (map snd log) = popped (map snd log) \<and>
      reports [Op_try_receive, Op_try_receive] [(Op_try_receive, Nothing), (Op_try_receive, Got (5 :: nat))] (of_thread 1 log))"
proof -
  obtain s where s: "sys_reach wake_pthread (two_threads (1, []) 1 1 [Op_try_send 5] [Op_try_receive, Op_try_receive]) s"
    "threads s 1 = Return [(Op_try_receive, Nothing), (Op_try_receive, Got 5)]" "cell s = (1, [])"
    using sample_exchange run_schedule_reach by blast
  obtain log where "dq_items list_deque (1, [] :: nat list) @ pushed (map snd log) = popped (map snd log) @ dq_items list_deque (1, [])"
    "reports [Op_try_receive, Op_try_receive] [(Op_try_receive, Nothing), (Op_try_receive, Got (5 :: nat))] (of_thread 1 log)"
    using channel_linearizable [OF list_deque_laws wake_pthread_laws two_threads_start s(1)] s(2,3)
    by (fastforce simp: two_threads_def)
  with s(1,2) show ?thesis by auto
qed




section \<open>A race between send and a new receiver\<close>

definition epoch :: "int \<times> timespec \<times> int" where
  "epoch = (0, \<lparr>tv_sec = 0, tv_nsec = 0\<rparr>, 0)"

lemma one_second_after_epoch:
  "exec_bind (unix_realtime (\<lambda>_. epoch)) (\<lambda>now. unix_add dev_profile now (secs (Suc 0))) = Done \<lparr>tv_sec = 1, tv_nsec = 0\<rparr>"
  by (simp add: epoch_def unix_realtime_def with_clock_id_def unix_add_def secs_def as_nanos_def as_i64_def wrap_i64_def
      i64_try_from_def in_i64_def debug_assert_def)

lemmas blocking_defs = one_second_after_epoch run_defs inner_try_send_def inner_receive_def lock_unless_dropping_def condvar_wait_def
  space_or_no_receivers_def item_or_no_senders_def unroll_def mutex_try_lock_for_def mutex_try_lock_until_internal_def
  make_receiver_def channel_clone_def rc_increase_def refs_of_def upd_refs_def Let_def


section \<open>A receiver that sleeps for ever\<close>

text \<open>
  Thread 0 receives, thread 1 drops the only sender, with the channel's own destructor behind it
  (the sender's handle is not the last one).
\<close>

definition sample_inner :: "(nat \<times> nat list) inner" where
  "sample_inner = \<lparr>in_mutex = \<lparr>mutex_data = (1, []), mutex_creator_pid = 7\<rparr>,
     in_item_maybe_available = \<lparr>raw_condvar = item_maybe_available, cond_creator_pid = 7\<rparr>,
     in_space_maybe_available = \<lparr>raw_condvar = space_maybe_available, cond_creator_pid = 7\<rparr>,
     in_receivers = 0, in_senders = 0, in_dropping = False\<rparr>"

definition receive_and_drop :: "(nat \<times> nat list, unit chan_state, (nat chan_op \<times> nat outcome) list, wake_state) sys" where
  "receive_and_drop = (two_threads (1, []) 1 1 [Op_receive] [])\<lparr>threads := (\<lambda>t.
     if t = 0 then chan_prog dev_profile list_deque 7 sample_channel [Op_receive] []
     else if t = 1 then sender_drop dev_profile
       (channel_drop dev_profile 7 sample_inner (\<lambda>q. q) (\<lambda>w. w) (\<lambda>w. w) sample_channel) (Return [])
     else Return [])\<rparr>"

lemmas drop_defs = blocking_defs receive_and_drop_def sender_drop_def channel_drop_def atomic_checked_sub_def
  condvar_broadcast_def rc_decrease_def usize_checked_sub_def debug_assert_def sample_channel_def

text \<open>A state in which every thread has returned or sleeps without having been woken has no step.\<close>

definition stuck_thread :: "('d, 's, 'r, wake_state) sys \<Rightarrow> tid \<Rightarrow> bool" where
  "stuck_thread s t \<longleftrightarrow> (case threads s t of Return r \<Rightarrow> True | Pthread c k \<Rightarrow> waits c \<and> asleep s t | _ \<Rightarrow> False)"

definition all_stuck :: "('d, 's, 'r, wake_state) sys \<Rightarrow> bool" where
  "all_stuck s \<longleftrightarrow> wk_woken (lib s) = [] \<and> (\<forall>t. stuck_thread s t)"

lemma all_stuck_no_step:
  assumes "all_stuck s"
  shows "\<not> sys_step wake_pthread s s'"
proof
  have st: "wk_woken (lib s) = []" "stuck_thread s t" for t using assms by (simp_all add: all_stuck_def)
  have no: "threads s t \<noteq> Loop b n" "threads s t \<noteq> Weak kw" "threads s t \<noteq> Access u ka" "threads s t \<noteq> Exclusive u ka"
    "threads s t \<noteq> Atomic w ks" "threads s t \<noteq> Gettime g kg" "threads s t \<noteq> Instant_now ki" "threads s t \<noteq> Getpid kp"
    "threads s t = Pthread c kc \<Longrightarrow> waits c \<and> asleep s t" for t b n kw u ka w ks g kg ki kp c kc
    using st(2) [of t] by (auto simp: stuck_thread_def)
  assume "sys_step wake_pthread s s'"
  then show False
    by cases (use st(1) no in \<open>auto simp: wake_up_def\<close>)
qed

text \<open>
  C21: a receiver can sleep for ever although no sender is left. The receiver finds the queue empty
  and one sender alive; before it goes to sleep the last sender is dropped, which decrements the
  counter and broadcasts without taking the mutex, so nobody hears it. In the state reached the
  receiver sleeps, no sender is left, and no thread can take a step any more.
\<close>

theorem lost_wake_up:
  "\<exists>s. sys_reach wake_pthread receive_and_drop s \<and> asleep s 0 \<and> senders (shared s) = 0 \<and>
     threads s 1 = Return [] \<and> (\<forall>s'. \<not> sys_step wake_pthread s s')"
proof -
  have "\<exists>s. run_schedule [(0, Go), (0, Go), (0, Clock epoch), (0, Code 0), (0, Go), (0, Go), (0, Go), (0, Go),
      (1, Go), (1, Go), (1, Fails False), (1, Go), (1, Code 0), (1, Pid 7), (1, Go), (1, Go), (0, Sleeps)]
    receive_and_drop = Some s \<and> asleep s 0 \<and> senders (shared s) = 0 \<and> threads s 1 = Return [] \<and> all_stuck s"
    by (simp add: drop_defs all_stuck_def stuck_thread_def)
  then show ?thesis using run_schedule_reach all_stuck_no_step by blast
qed

section \<open>A receiver that uses freed memory\<close>

text \<open>
  The channel's owner, process 7, drops its only handle while a receiver of process 8 sleeps. Here
  the state \<open>world\<close> says whether the memory of \<open>Inner\<close> has been freed.
\<close>

definition receive_and_free :: "(nat \<times> nat list, bool chan_state, (nat chan_op \<times> nat outcome) list, wake_state) sys" where
  "receive_and_free = \<lparr>
     threads = (\<lambda>t. if t = 0 then chan_prog dev_profile list_deque 8 sample_channel [Op_receive] []
       else if t = 1 then channel_drop dev_profile 7 sample_inner (\<lambda>q. (0, [])) (\<lambda>_. True) (\<lambda>w. w) sample_channel (Return [])
       else Return []),
     asleep = (\<lambda>_. False), cell = (1, []),
     shared = \<lparr>receivers = 1, senders = 1, dropping = False, references = (\<lambda>_. \<lparr>counter = 1, rc_pid = 7\<rparr>), world = False\<rparr>,
     lib = \<lparr>wk_holder = None, wk_sleeping = [], wk_woken = []\<rparr>\<rparr>"

lemma thirty_seconds_after_epoch:
  "exec_bind (unix_realtime (\<lambda>_. epoch)) (\<lambda>now. unix_add dev_profile now (secs 30)) = Done \<lparr>tv_sec = 30, tv_nsec = 0\<rparr>"
  by (simp add: epoch_def unix_realtime_def with_clock_id_def unix_add_def secs_def as_nanos_def as_i64_def wrap_i64_def
      i64_try_from_def in_i64_def debug_assert_def)

text \<open>
  C22: the destructor of a channel frees \<open>Inner\<close> while a thread may still be using it. It wakes the
  sleepers and takes the mutex once, but the woken receiver gets the mutex only afterwards, when the
  mutex has been destroyed, the queue dropped and the memory released, and then reads the queue.
\<close>

theorem inner_used_after_free:
  "\<exists>s. sys_reach wake_pthread receive_and_free s \<and> world (shared s) \<and> threads s 1 = Return [] \<and>
     holder wake_pthread (lib s) = Some 0 \<and> (\<exists>u k. threads s 0 = Access u k)"
proof -
  have "\<exists>s. run_schedule [(0, Go), (0, Go), (0, Clock epoch), (0, Code 0), (0, Go), (0, Go), (0, Go), (0, Go), (0, Sleeps),
      (1, Pid 7), (1, Go), (1, Go), (1, Go), (1, Go), (1, Go), (1, Code 0), (1, Code 0), (1, Clock epoch), (1, Code 0), (1, Code 0),
      (1, Pid 7), (1, Code 0), (1, Go), (1, Pid 7), (1, Code 0), (1, Pid 7), (1, Code 0), (1, Go), (1, Go),
      (0, Go), (0, Go)]
    receive_and_free = Some s \<and> world (shared s) \<and> threads s 1 = Return [] \<and>
     holder wake_pthread (lib s) = Some 0 \<and> (\<exists>u k. threads s 0 = Access u k)"
    by (simp add: drop_defs receive_and_free_def thirty_seconds_after_epoch drop_inner_def mutex_drop_def condvar_drop_def
        sample_inner_def item_maybe_available_def space_maybe_available_def takes_lock_def waits_def)
  then show ?thesis using run_schedule_reach by blast
qed

end
