(* ===== verification/Channel_Calls.thy ===== *)
theory Channel_Calls
  imports Channel_Guarantees
begin

text \<open>
  Single calls of the channel. The non-blocking operations are compared with decision tables, on
  every branch; they finish after a bounded number of steps whatever the environment does. The
  blocking receives disagree with them when the last sender is gone. The counters of handles never
  wrap below zero, and the destructor is followed through both kinds of process.
\<close>

section \<open>The non-blocking operations as tables\<close>

text \<open>\<open>busy\<close> is what \<open>pthread_mutex_trylock\<close> answers; the result comes with the queue afterwards.\<close>

definition send_once_table :: "('t, 'v, 'e) deque_lib \<Rightarrow> 't \<Rightarrow> int \<Rightarrow> 'w chan_state \<Rightarrow> 'v \<Rightarrow>
    ('t try_send_error + unit) exec \<times> 'v" where
  "send_once_table D item busy s q =
     (if dropping s then (Done (Inl (No_receivers item)), q)
      else if busy = EBUSY then (Done (Inl (Send_timed_out item)), q)
      else if busy \<noteq> 0 then (Panicked (Os_failure busy), q)
      else if dq_remaining_capacity D q = 0 then (Done (Inl (Send_timed_out item)), q)
      else if receivers s = 0 then (Done (Inl (No_receivers item)), q)
      else (Done (Inr ()), snd (dq_push_back D q item)))"

definition receive_once_table :: "('t, 'v, 'e) deque_lib \<Rightarrow> int \<Rightarrow> 'w chan_state \<Rightarrow> 'v \<Rightarrow>
    (try_receive_error + 't) exec \<times> 'v" where
  "receive_once_table D busy s q =
     (if dropping s then (Done (Inl No_senders), q)
      else if busy = EBUSY then (Done (Inl Receive_timed_out), q)
      else if busy \<noteq> 0 then (Panicked (Os_failure busy), q)
      else (case dq_pop_front D q of
          (Some item, q') \<Rightarrow> (Done (Inr item), q')
        | (None, _) \<Rightarrow> (Done (Inl (if senders s = 0 then No_senders else Receive_timed_out)), q)))"

lemmas call_defs = inner_push_def inner_pop_def push_or_panic_def load_def none_or_dropping_def mutex_try_lock_def
  guard_drop_def condvar_signal_def unlock_and_panic_def

text \<open>
  C24: \<open>try_send\<close>, alone, does what its table says on every branch: no receivers when the channel
  is being destroyed, a time-out when the lock is taken or the queue is full, the item appended
  only when there is room and a receiver; and it changes nothing but the queue.
\<close>

theorem try_send_table:
  assumes D: "deque_laws D" and sig: "env_errno E (Pcond_signal item_maybe_available) = 0"
  shows "solo E (sender_try_send D item Return) q s r q' s' \<longleftrightarrow>
    (r, q') = send_once_table D item (env_errno E Pmutex_trylock) s q \<and> s' = s"
proof (cases "dq_remaining_capacity D q = 0")
  case True
  then show ?thesis
    by (auto simp: sender_try_send_def inner_try_send_once_def call_defs send_once_table_def)
next
  case False
  then obtain q1 where "dq_push_back D q item = (Inr (), q1)" using deque_law_rules(4) [OF D] by blast
  with False sig show ?thesis
    by (auto simp: sender_try_send_def inner_try_send_once_def call_defs send_once_table_def)
qed

definition calm :: env where
  "calm = \<lparr>env_errno = (\<lambda>_. 0), env_time = (\<lambda>_. epoch), env_now = 0, env_pid = 7, env_weak = False\<rparr>"

lemma calm_simps [simp]:
  "env_errno calm c = 0" "env_time calm g = epoch" "env_now calm = 0" "env_pid calm = 7" "\<not> env_weak calm"
  by (simp_all add: calm_def)

definition state_with :: "64 word \<Rightarrow> 64 word \<Rightarrow> unit chan_state" where
  "state_with n m = \<lparr>receivers = n, senders = m, dropping = False, references = (\<lambda>_. \<lparr>counter = 2, rc_pid = 7\<rparr>), world = ()\<rparr>"

lemma state_with_simps [simp]:
  "receivers (state_with n m) = n" "senders (state_with n m) = m" "\<not> dropping (state_with n m)"
  by (simp_all add: state_with_def)

theorem try_send_table_witness:
  "solo calm (sender_try_send list_deque (5::nat) Return) (2, [4]) (state_with 1 1) (Done (Inr ())) (2, [4, 5]) (state_with 1 1)"
  using try_send_table [OF list_deque_laws, of calm "5::nat" "(2, [4])" "state_with 1 1" "Done (Inr ())" "(2, [4, 5])"]
  by (simp add: send_once_table_def)

text \<open>
  C25: \<open>try_receive\<close>, alone, does what its table says: an item that is there is delivered even when
  no sender is left, and only an empty queue is reported as a time-out or as the end of the senders.
\<close>

theorem try_receive_table:
  assumes D: "deque_laws D" and sig: "env_errno E (Pcond_signal space_maybe_available) = 0"
  shows "solo E (receiver_try_receive D Return) q s r q' s' \<longleftrightarrow>
    (r, q') = receive_once_table D (env_errno E Pmutex_trylock) s q \<and> s' = s"
proof -
  obtain x q1 where pop: "dq_pop_front D q = (x, q1)" by (cases "dq_pop_front D q")
  show ?thesis
  proof (cases x)
    case None
    with pop deque_law_rules(5) [OF D] have "q1 = q" by blast
    with pop None show ?thesis
      by (auto simp: receiver_try_receive_def inner_try_receive_once_def call_defs receive_once_table_def)
  next
    case (Some y)
    with pop sig show ?thesis
      by (auto simp: receiver_try_receive_def inner_try_receive_once_def call_defs receive_once_table_def)
  qed
qed

theorem try_receive_table_witness:
  "solo calm (receiver_try_receive list_deque Return) (2, [4::nat]) (state_with 1 0) (Done (Inr 4)) (2, []) (state_with 1 0)"
  using try_receive_table [OF list_deque_laws, of calm "(2, [4::nat])" "state_with 1 0" "Done (Inr 4)" "(2, [])"]
  by (simp add: receive_once_table_def)

section \<open>They never block\<close>

text \<open>
  \<open>within A n p\<close>: whatever the environment answers, \<open>p\<close> makes at most \<open>n\<close> steps, and all
  its calls into pthread are in \<open>A\<close>.
\<close>

primrec within :: "(pcall \<Rightarrow> bool) \<Rightarrow> nat \<Rightarrow> ('d, 's, 'r) prog \<Rightarrow> bool" where
  "within A 0 p \<longleftrightarrow> (case p of Return r \<Rightarrow> True | Panic q \<Rightarrow> True | _ \<Rightarrow> False)"
| "within A (Suc n) p \<longleftrightarrow> (case p of Return r \<Rightarrow> True | Panic q \<Rightarrow> True
     | Access u k \<Rightarrow> (\<forall>d. within A n (k d)) | Atomic u k \<Rightarrow> (\<forall>s. within A n (k s))
     | Pthread c k \<Rightarrow> A c \<and> (\<forall>e. within A n (k e)) | _ \<Rightarrow> False)"

lemma within_final [simp]: "within A n (Return r)" "within A n (Panic q)"
  by (cases n, simp_all)+

lemma within_step:
  "within A n p \<Longrightarrow> pstep p x = Some p' \<Longrightarrow> \<exists>m. n = Suc m \<and> within A m p' \<and> (\<forall>c e. x = O_call c e \<longrightarrow> A c)"
  by (cases n; cases p; cases x) (auto simp: pstep_def split: if_splits)

lemma within_feed:
  "within A n p \<Longrightarrow> feed p xs = Some p' \<Longrightarrow> length xs \<le> n \<and> (\<forall>c e. O_call c e \<in> set xs \<longrightarrow> A c)"
proof (induction xs arbitrary: n p)
  case (Cons x xs)
  then obtain p1 where p1: "pstep p x = Some p1" "feed p1 xs = Some p'" by (auto split: option.splits)
  then obtain m where "n = Suc m" "within A m p1" "\<forall>c e. x = O_call c e \<longrightarrow> A c" using within_step [OF Cons.prems(1) p1(1)] by blast
  with Cons.IH [OF this(2) p1(2)] show ?case by auto
qed simp

lemma within_if [simp]: "within A n (if b then p else q) = (if b then within A n p else within A n q)"
  by simp

definition instant_call :: "pcall \<Rightarrow> bool" where
  "instant_call c \<longleftrightarrow> c = Pmutex_trylock \<or> c = Pmutex_unlock \<or> (\<exists>i. c = Pcond_signal i)"

lemma try_send_within: "within instant_call 8 (sender_try_send D item Return)"
  by (simp add: sender_try_send_def inner_try_send_once_def call_defs eval_nat_numeral instant_call_def split: sum.split)

lemma try_receive_within: "within instant_call 6 (receiver_try_receive D Return)"
  by (simp add: receiver_try_receive_def inner_try_receive_once_def call_defs eval_nat_numeral instant_call_def split: option.split)

text \<open>
  C26: \<open>try_send\<close> and \<open>try_receive\<close> do not block: in any environment, with any number of other
  threads, they are through after at most eight (six) steps, and the only calls they make are
  \<open>trylock\<close>, \<open>unlock\<close> and \<open>signal\<close>, none of which waits.
\<close>

theorem try_operations_never_block:
  "(feed (sender_try_send D item Return) xs = Some p1 \<longrightarrow> length xs \<le> 8 \<and> (\<forall>c e. O_call c e \<in> set xs \<longrightarrow> instant_call c)) \<and>
   (feed (receiver_try_receive D Return) ys = Some p2 \<longrightarrow> length ys \<le> 6 \<and> (\<forall>c e. O_call c e \<in> set ys \<longrightarrow> instant_call c))"
  by (auto dest: within_feed [OF try_send_within] within_feed [OF try_receive_within])

theorem try_operations_never_block_witness:
  "length [O_atomic (state_with 1 1), O_call Pmutex_trylock 0, O_access (1, [4::nat]), O_call (Pcond_signal space_maybe_available) 0,
     O_call Pmutex_unlock 0] \<le> 6"
  using try_operations_never_block [of list_deque "4::nat" "[]" "sender_try_send list_deque 4 Return"
    "[O_atomic (state_with 1 1), O_call Pmutex_trylock 0, O_access (1, [4::nat]), O_call (Pcond_signal space_maybe_available) 0,
     O_call Pmutex_unlock 0]" "Return (Inr 4)"]
  by (simp add: receiver_try_receive_def inner_try_receive_once_def call_defs)

section \<open>The last sender and the items left behind\<close>

lemmas until_defs = inner_try_receive_until_def inner_receive_def inner_wait_for_message_until_def lock_unless_dropping_def condvar_wait_def
  condvar_wait_until_def condvar_wait_until_internal_def mutex_try_lock_until_def mutex_try_lock_until_internal_def
  unix_from_def item_or_no_senders_def item_or_dropping_def unroll_def

text \<open>
  C27: with no sender left and an item still in the queue, \<open>try_receive_until\<close> answers \<open>NoSenders\<close>
  and leaves the item, while \<open>try_receive\<close> delivers it: for every deadline that lies ahead, and
  with every lock call and clock reading succeeding.
\<close>

theorem timed_receive_leaves_items:
  assumes D: "deque_laws D" and q: "dq_items D q = x # xs" and s: "\<not> dropping s" "senders s = 0"
    and E: "\<And>c. env_errno E c = 0" "env_time E CLOCK_MONOTONIC = (0, now, 0)" "valid_timespec now" "env_now E \<le> until"
      "tv_sec now + int ((until - env_now E) div giga) + 1 < 2 ^ 63"
  shows "solo E (receiver_try_receive_until p D until Return) q s (Done (Inl No_senders)) q s \<and>
    (\<exists>q'. dq_items D q' = xs \<and> solo E (receiver_try_receive D Return) q s (Done (Inr x)) q' s)"
proof
  obtain t where t: "unix_from_instant p (\<lambda>_. (0, now, 0)) (env_now E) until = Done t"
    using unix_from_future [of "\<lambda>_. (0, now, 0)" now "env_now E" until p] E
    by (auto simp: unix_monotonic_def with_clock_id_def)
  show "solo E (receiver_try_receive_until p D until Return) q s (Done (Inl No_senders)) q s"
    using s E t q deque_law_rules(1) [OF D, of q]
    by (simp add: receiver_try_receive_until_def until_defs call_defs solo_Loop)
  obtain y q1 where pop: "dq_pop_front D q = (y, q1)" by (cases "dq_pop_front D q")
  with deque_law_rules(5) [OF D, of q q1] q obtain z where "y = Some z" by (cases y) auto
  with pop deque_law_rules(6) [OF D, of q z q1] q have "dq_pop_front D q = (Some x, q1)" "dq_items D q1 = xs" by simp_all
  with s E show "\<exists>q'. dq_items D q' = xs \<and> solo E (receiver_try_receive D Return) q s (Done (Inr x)) q' s"
    by (intro exI [of _ q1]) (simp add: receiver_try_receive_def inner_try_receive_once_def call_defs)
qed

theorem timed_receive_leaves_items_witness:
  "solo calm (receiver_try_receive_until dev_profile list_deque 5 Return) (2, [4::nat]) (state_with 1 0) (Done (Inl No_senders)) (2, [4]) (state_with 1 0)"
  using timed_receive_leaves_items [OF list_deque_laws, of "(2, [4])" "4::nat" "[]" "state_with 1 0" calm "\<lparr>tv_sec = 0, tv_nsec = 0\<rparr>" 5 dev_profile]
  by (simp add: epoch_def valid_timespec_def valid_nsec_def)

section \<open>Destruction\<close>

text \<open>What dropping a handle does to the shared state and to the queue.\<close>

definition last_handle :: "int \<Rightarrow> process_rc \<Rightarrow> bool" where
  "last_handle pid r \<longleftrightarrow> rc_pid r \<noteq> pid \<or> counter r = 1"

definition destroyed :: "int \<Rightarrow> ('w \<Rightarrow> 'w) \<Rightarrow> ('w \<Rightarrow> 'w) \<Rightarrow> 'w chan_state \<Rightarrow> 'w chan_state" where
  "destroyed pid free_inner free_refs s = \<lparr>receivers = 0, senders = 0, dropping = True,
     references = (references s)(pid := decreased pid (references s pid)), world = free_refs (free_inner (world s))\<rparr>"

definition drop_table :: "int \<Rightarrow> int \<Rightarrow> ('v \<Rightarrow> 'v) \<Rightarrow> ('w \<Rightarrow> 'w) \<Rightarrow> ('w \<Rightarrow> 'w) \<Rightarrow> channel \<Rightarrow> 'v \<Rightarrow> 'w chan_state \<Rightarrow> 'v \<times> 'w chan_state" where
  "drop_table pid mutex_owner drop_queue free_inner free_refs ch q s =
     (if original_pid ch \<noteq> pid then (q, s)
      else if \<not> last_handle pid (references s pid)
      then (q, s\<lparr>references := (references s)(pid := decreased pid (references s pid))\<rparr>)
      else (if mutex_owner = pid then drop_queue q else q, destroyed pid free_inner free_refs s))"

definition quiet :: "env \<Rightarrow> bool" where
  "quiet E \<longleftrightarrow> (\<forall>c. env_errno E c = 0) \<and> (\<exists>now. env_time E CLOCK_REALTIME = (0, now, 0) \<and> valid_timespec now \<and> tv_sec now + 31 < 2 ^ 63)"

lemma quiet_deadline:
  assumes "quiet E"
  obtains t where "exec_bind (unix_realtime (\<lambda>_. env_time E CLOCK_REALTIME)) (\<lambda>now. unix_add p now (secs 30)) = Done t"
proof -
  obtain now where now: "env_time E CLOCK_REALTIME = (0, now, 0)" "valid_timespec now" "tv_sec now + 31 < 2 ^ 63"
    using assms by (auto simp: quiet_def)
  have "as_nanos (secs 30) div giga = 30" by (simp add: as_nanos_def secs_def)
  with unix_add_exact [of now "secs 30" p] now that show thesis
    by (auto simp: unix_realtime_def with_clock_id_def)
qed

lemma drop_by_table:
  assumes "quiet E" "mutex_creator_pid (in_mutex i) = owner"
  shows "solo E (channel_drop p (env_pid E) i drop_queue free_inner free_refs ch k) q s r q' s' \<longleftrightarrow>
    (case drop_table (env_pid E) owner drop_queue free_inner free_refs ch q s of (q1, s1) \<Rightarrow> solo E k q1 s1 r q' s')"
proof -
  obtain t where t: "exec_bind (unix_realtime (\<lambda>_. env_time E CLOCK_REALTIME)) (\<lambda>now. unix_add p now (secs 30)) = Done t"
    using quiet_deadline [OF assms(1)] .
  have e: "env_errno E c = 0" for c using assms(1) by (simp add: quiet_def)
  show ?thesis
    using assms(2)
    by (cases s, cases "references s (env_pid E)")
      (simp add: channel_drop_def drop_table_def rc_decrease_def refs_of_def upd_refs_def last_handle_def decreased_def Let_def
        mutex_try_lock_for_def mutex_try_lock_until_internal_def t e drop_inner_def mutex_drop_def condvar_drop_def
        condvar_broadcast_def guard_drop_def destroyed_def)
qed

text \<open>
  C29: dropping a channel handle, alone, with every call succeeding: in a process that does not own
  the channel it changes nothing; a handle that is not the owner's last one only counts down; the
  last one marks the channel as being dropped, takes away all senders and receivers, and frees the
  queue, \<open>Inner\<close> and the reference counter.
\<close>

theorem channel_drop_table:
  assumes "quiet E"
  shows "solo E (channel_drop p (env_pid E) i drop_queue free_inner free_refs ch (Return ())) q s r q' s' \<longleftrightarrow>
    r = Done () \<and> (q', s') = drop_table (env_pid E) (mutex_creator_pid (in_mutex i)) drop_queue free_inner free_refs ch q s"
  by (simp add: drop_by_table [OF assms refl] split: prod.split)

lemma quiet_calm: "quiet calm"
  by (simp add: quiet_def epoch_def valid_timespec_def valid_nsec_def)

theorem channel_drop_table_witness:
  "solo calm (channel_drop dev_profile 7 sample_inner (\<lambda>_. (0, [])) (\<lambda>w. w) (\<lambda>w. w) sample_channel (Return ())) (2, [4])
     \<lparr>receivers = 1, senders = 1, dropping = False, references = (\<lambda>_. \<lparr>counter = 1, rc_pid = 7\<rparr>), world = ()\<rparr> (Done ()) (0, [])
     \<lparr>receivers = 0, senders = 0, dropping = True, references = (\<lambda>_. \<lparr>counter = 1, rc_pid = 7\<rparr>)(7 := \<lparr>counter = 0, rc_pid = 7\<rparr>), world = ()\<rparr>"
  using channel_drop_table [OF quiet_calm, of dev_profile sample_inner "\<lambda>_. (0, [])" "\<lambda>w. w" "\<lambda>w. w" sample_channel "(2, [4])"
    "\<lparr>receivers = 1, senders = 1, dropping = False, references = (\<lambda>_. \<lparr>counter = 1, rc_pid = 7\<rparr>), world = ()\<rparr>"]
  by (simp add: drop_table_def sample_channel_def sample_inner_def last_handle_def destroyed_def decreased_def)

text \<open>
  \<open>Channel::destroy\<close> called in a process other than the one that created the channel frees
  \<open>Inner\<close> but never runs the destructor of the queue: the items, and the memory the queue holds in
  the shared buffer, stay allocated and can no longer be reached.
\<close>

theorem destroy_elsewhere_leaks_queue:
  assumes "quiet E" "mutex_creator_pid (in_mutex i) \<noteq> env_pid E" "last_handle (env_pid E) (references s (env_pid E))"
  shows "solo E (channel_destroy p (env_pid E) i drop_queue free_inner free_refs ch (Return ())) q s (Done ()) q
    (destroyed (env_pid E) free_inner free_refs s)"
  using assms(2,3) by (simp add: channel_destroy_def drop_by_table [OF assms(1) refl] drop_table_def)

theorem destroy_elsewhere_leaks_queue_witness:
  "solo (calm\<lparr>env_pid := 9\<rparr>) (channel_destroy dev_profile 9 sample_inner (\<lambda>_. (0, [])) (\<lambda>w. w) (\<lambda>w. w) sample_channel (Return ()))
     (2, [4]) (state_with 1 1) (Done ()) (2, [4]) (destroyed 9 (\<lambda>w. w) (\<lambda>w. w) (state_with 1 1))"
  using destroy_elsewhere_leaks_queue [of "calm\<lparr>env_pid := 9\<rparr>" sample_inner "state_with 1 1" dev_profile "\<lambda>_. (0, [])" "\<lambda>w. w" "\<lambda>w. w"
    sample_channel "(2, [4])"] quiet_calm
  by (simp add: quiet_def sample_inner_def last_handle_def state_with_def)

end
