(* ===== verification/Sync_Guarantees.thy ===== *)
theory Sync_Guarantees
  imports Channel_Guarantees
begin

text \<open>
  Guarantees of the layer below the channel: the deadlines computed for the timed calls, the mutex
  and the condition variable as sequences of calls into pthread, and the per-process reference
  counter. Statements about call sequences use \<open>feed\<close>, the run of one thread on given answers.
\<close>

section \<open>Deadlines\<close>

text \<open>
  An instant that lies ahead is converted into the monotonic time that lies as far ahead, to
  the nanosecond, as a valid \<open>timespec\<close> (and never panics while the seconds fit 63 bits).
\<close>

theorem future_deadline_exact:
  assumes "valid_timespec now" "std_now \<le> target" "tv_sec now + int ((target - std_now) div giga) + 1 < 2 ^ 63"
  shows "\<exists>t. unix_from_instant p (\<lambda>_. (0, now, 0)) std_now target = Done t \<and> valid_timespec t \<and>
    total_ns t = total_ns now + (int target - int std_now)"
  using unix_from_future [of "\<lambda>_. (0, now, 0)" now std_now target p] assms
  by (simp add: unix_monotonic_def with_clock_id_def)

theorem future_deadline_exact_witness:
  "\<exists>t. unix_from_instant dev_profile (\<lambda>_. (0, \<lparr>tv_sec = 9, tv_nsec = 999999999\<rparr>, 0)) 5 7 = Done t \<and> valid_timespec t \<and>
    total_ns t = 10000000001"
  using future_deadline_exact [of "\<lparr>tv_sec = 9, tv_nsec = 999999999\<rparr>" 5 7 dev_profile]
  by (simp add: valid_timespec_def valid_nsec_def total_ns_def)



text \<open>
  Comparing two clock values with nanoseconds below a second is comparing the times they stand
  for; in particular equal is identical.
\<close>

theorem clock_comparison:
  assumes "valid_nsec a" "valid_nsec b"
  shows "unix_cmp a b = i64_cmp (total_ns a) (total_ns b) \<and> (unix_cmp a b = Equal \<longleftrightarrow> a = b)"
  using unix_cmp_total [OF assms] by simp

theorem clock_comparison_witness:
  "unix_cmp \<lparr>tv_sec = 1, tv_nsec = 999999999\<rparr> \<lparr>tv_sec = 2, tv_nsec = 0\<rparr> = Less"
  using clock_comparison [of "\<lparr>tv_sec = 1, tv_nsec = 999999999\<rparr>" "\<lparr>tv_sec = 2, tv_nsec = 0\<rparr>"]
  by (simp add: valid_nsec_def total_ns_def i64_cmp_def)

section \<open>Timed operations\<close>

definition EINVAL :: int where
  "EINVAL = 22"

lemmas timed_defs = receiver_try_receive_until_def inner_try_receive_until_def mutex_try_lock_until_def
  mutex_try_lock_until_internal_def condvar_wait_until_def condvar_wait_until_internal_def unix_from_def
  item_or_no_senders_def unlock_and_panic_def guard_drop_def load_def unroll_def

lemma past_deadline:
  assumes "valid_timespec now" "until < std_now" "(std_now - until) div giga < 2 ^ 63"
    and "tv_nsec now \<le> int ((std_now - until) mod giga)" "tv_nsec now + int ((std_now - until) mod giga) < int giga"
  obtains t where "unix_from_instant p (\<lambda>_. (0, now, 0)) std_now until = Done t" "\<not> valid_nsec t"
proof -
  have "as_nanos (duration_of_nanos (std_now - until)) = std_now - until" by simp
  with unix_sub_borrow [OF assms(1), of "duration_of_nanos (std_now - until)" p] assms(3-5) that
    unix_from_past [of "\<lambda>_. (0, now, 0)" now until std_now p] assms(2)
  show thesis by (fastforce simp: unix_monotonic_def with_clock_id_def)
qed

text \<open>
  C30: a receive with a deadline in the past panics on an empty queue instead of reporting the
  time-out: when the nanoseconds need a borrow and do not add up to a second, the deadline handed
  to \<open>pthread_cond_timedwait\<close> has negative nanoseconds, which the call answers with \<open>EINVAL\<close>.
  The mutex is unlocked on the way out.
\<close>

theorem expired_deadline_panics:
  assumes now: "valid_timespec now" "until < std_now" "(std_now - until) div giga < 2 ^ 63"
    "tv_nsec now \<le> int ((std_now - until) mod giga)" "tv_nsec now + int ((std_now - until) mod giga) < int giga"
    and q: "dq_is_empty D q" and s: "\<not> dropping s" "senders s \<noteq> 0"
  shows "\<exists>t. \<not> valid_nsec t \<and>
    feed (receiver_try_receive_until p D until Return)
      [O_atomic s, O_now std_now, O_time CLOCK_MONOTONIC (0, now, 0), O_call (Pmutex_timedlock t) 0,
       O_now std_now, O_time CLOCK_MONOTONIC (0, now, 0), O_loop, O_access q, O_atomic s, O_atomic s,
       O_call (Pcond_timedwait item_maybe_available t) EINVAL, O_call Pmutex_unlock 0] = Some (Panic (Os_failure EINVAL))"
proof -
  obtain t where t: "unix_from_instant p (\<lambda>_. (0, now, 0)) std_now until = Done t" "\<not> valid_nsec t"
    using past_deadline [OF now] .
  then show ?thesis using q s
    by (intro exI [of _ t]) (simp add: timed_defs EINVAL_def ETIMEDOUT_def)
qed

theorem expired_deadline_panics_witness:
  "\<exists>t. \<not> valid_nsec t \<and>
    feed (receiver_try_receive_until dev_profile list_deque 6 Return)
      [O_atomic (shared (two_threads (1, [] :: nat list) 1 1 [] [])), O_now 7, O_time CLOCK_MONOTONIC epoch, O_call (Pmutex_timedlock t) 0,
       O_now 7, O_time CLOCK_MONOTONIC epoch, O_loop, O_access (1, [] :: nat list),
       O_atomic (shared (two_threads (1, [] :: nat list) 1 1 [] [])), O_atomic (shared (two_threads (1, [] :: nat list) 1 1 [] [])),
       O_call (Pcond_timedwait item_maybe_available t) EINVAL, O_call Pmutex_unlock 0] = Some (Panic (Os_failure EINVAL))"
  using expired_deadline_panics [of "\<lparr>tv_sec = 0, tv_nsec = 0\<rparr>" 6 7 list_deque "(1, [] :: nat list)"
    "shared (two_threads (1, [] :: nat list) 1 1 [] [])" dev_profile]
  by (simp add: valid_timespec_def valid_nsec_def two_threads_def epoch_def)

text \<open>
  C32: \<open>try_lock_until\<close> hands \<open>pthread_mutex_timedlock\<close> a reading of the monotonic clock, while the
  call measures its deadline on the realtime clock: as soon as the realtime clock is ahead of the
  monotonic one by more than the requested time, the deadline has already passed when the call is
  made. \<open>try_lock_for\<close> with the same time to wait hands over a deadline that lies ahead.
\<close>

theorem try_lock_until_expires_at_once:
  assumes "valid_timespec mnow" "valid_timespec rnow" "std_now \<le> until"
    and "tv_sec mnow + int ((until - std_now) div giga) + 1 < 2 ^ 63" "tv_sec rnow + int ((until - std_now) div giga) + 1 < 2 ^ 63"
    and gap: "total_ns mnow + (int until - int std_now) < total_ns rnow"
  shows "(\<exists>t k. feed (mutex_try_lock_until p until (Return :: bool \<Rightarrow> (unit, unit, bool) prog))
        [O_now std_now, O_time CLOCK_MONOTONIC (0, mnow, 0)] = Some (Pthread (Pmutex_timedlock t) k) \<and> total_ns t < total_ns rnow) \<and>
    (\<exists>t k. feed (mutex_try_lock_for p (duration_of_nanos (until - std_now)) (Return :: bool \<Rightarrow> (unit, unit, bool) prog))
        [O_time CLOCK_REALTIME (0, rnow, 0)] = Some (Pthread (Pmutex_timedlock t) k) \<and>
       total_ns t = total_ns rnow + (int until - int std_now))"
proof -
  have "as_nanos (duration_of_nanos (until - std_now)) = until - std_now" by simp
  then show ?thesis
    using try_lock_until_monotonic [OF assms(1,3,4), of p "Return :: bool \<Rightarrow> (unit, unit, bool) prog"]
      try_lock_for_deadline [OF assms(2), of "duration_of_nanos (until - std_now)" p "Return :: bool \<Rightarrow> (unit, unit, bool) prog"]
      assms(3,5) gap
    by fastforce
qed

theorem try_lock_until_expires_at_once_witness:
  "\<exists>t k. feed (mutex_try_lock_until dev_profile 1000000007 (Return :: bool \<Rightarrow> (unit, unit, bool) prog))
    [O_now 7, O_time CLOCK_MONOTONIC (0, \<lparr>tv_sec = 100, tv_nsec = 0\<rparr>, 0)] = Some (Pthread (Pmutex_timedlock t) k) \<and>
    total_ns t < total_ns \<lparr>tv_sec = 1700000000, tv_nsec = 0\<rparr>"
  using try_lock_until_expires_at_once [of "\<lparr>tv_sec = 100, tv_nsec = 0\<rparr>" "\<lparr>tv_sec = 1700000000, tv_nsec = 0\<rparr>" 7 1000000007 dev_profile]
  by (simp add: valid_timespec_def valid_nsec_def total_ns_def)

section \<open>Runs of single nodes\<close>

lemma feed_nodes:
  "feed (Return r) xs = Some q \<longleftrightarrow> xs = [] \<and> q = Return r"
  "feed (Panic e) xs = Some q \<longleftrightarrow> xs = [] \<and> q = Panic e"
  "feed (Loop b n) xs = Some q \<longleftrightarrow> xs = [] \<and> q = Loop b n \<or> (\<exists>ys. xs = O_loop # ys \<and> feed (unroll b n) ys = Some q)"
  "feed (Access u ka) xs = Some q \<longleftrightarrow> xs = [] \<and> q = Access u ka \<or> (\<exists>d ys. xs = O_access d # ys \<and> feed (ka d) ys = Some q)"
  "feed (Pthread c kc) xs = Some q \<longleftrightarrow> xs = [] \<and> q = Pthread c kc \<or> (\<exists>e ys. xs = O_call c e # ys \<and> feed (kc e) ys = Some q)"
  "feed (Getpid kp) xs = Some q \<longleftrightarrow> xs = [] \<and> q = Getpid kp \<or> (\<exists>i ys. xs = O_pid i # ys \<and> feed (kp i) ys = Some q)"
  by (cases xs; auto simp: pstep_def split: obs.split_asm option.split_asm if_split_asm)+

section \<open>Waiting on a condition variable\<close>

text \<open>A predicate on the protected value, as the code passes it to the waits.\<close>

definition test_data :: "('d \<Rightarrow> bool) \<Rightarrow> (bool \<Rightarrow> ('d, 's, 'r) prog) \<Rightarrow> ('d, 's, 'r) prog" where
  "test_data R k = Access (\<lambda>d. d) (\<lambda>d. k (R d))"

lemma wait_round:
  fixes W :: "('d, 's, bool) prog"
  assumes W_def: "W = condvar_wait_until_internal c t (test_data R) Panic Return" and "feed W xs = Some (Return b)"
  obtains d ys where "xs = O_loop # O_access d # ys"
    "feed (if R d then Return True else Pthread (Pcond_timedwait c t) (\<lambda>errno.
       if errno = ETIMEDOUT then test_data R (\<lambda>ready. if ready then Return True else Return False)
       else if errno \<noteq> 0 then Panic (Os_failure errno) else W)) ys = Some (Return b)"
proof -
  let ?body = "\<lambda>_::nat. test_data R (\<lambda>ready. if ready then Return True else Pthread (Pcond_timedwait c t) (\<lambda>errno.
       if errno = ETIMEDOUT then test_data R (\<lambda>ready. if ready then Return True else Return False)
       else if errno \<noteq> 0 then Panic (Os_failure errno) else Continue 0))"
  have W: "W = Loop ?body 0" by (simp add: W_def condvar_wait_until_internal_def)
  then have "unroll ?body 0 = Access (\<lambda>d. d) (\<lambda>d. if R d then Return True else Pthread (Pcond_timedwait c t) (\<lambda>errno.
       if errno = ETIMEDOUT then test_data R (\<lambda>ready. if ready then Return True else Return False)
       else if errno \<noteq> 0 then Panic (Os_failure errno) else W))"
    by (auto simp: unroll_def test_data_def fun_eq_iff)
  moreover obtain zs where "xs = O_loop # zs" "feed (unroll ?body 0) zs = Some (Return b)"
    using assms(2) unfolding W feed_nodes by auto
  ultimately show thesis using that by (auto simp: feed_nodes(4))
qed

text \<open>
  C13: \<open>Condvar::wait_until\<close> tells the truth, whatever the calls answer and however often the
  wait wakes up for no reason: it reports success only right after the predicate has been true on
  the protected value, and a time-out only when the deadline was reached and the predicate, tested
  once more after it, was false. It never takes a wake-up for the condition itself.
\<close>

theorem timed_wait_contract:
  assumes "feed (condvar_wait_until_internal c t (test_data R) Panic (Return :: bool \<Rightarrow> ('d, 's, bool) prog)) xs = Some (Return b)"
  shows "\<exists>ys d. (if b then xs = ys @ [O_access d] \<and> R d
    else xs = ys @ [O_call (Pcond_timedwait c t) ETIMEDOUT, O_access d] \<and> \<not> R d)"
  using assms
proof (induction "length xs" arbitrary: xs rule: less_induct)
  case less
  let ?W = "condvar_wait_until_internal c t (test_data R) Panic (Return :: bool \<Rightarrow> ('d, 's, bool) prog)"
  from less.prems obtain d ys where xs: "xs = O_loop # O_access d # ys" and
    run: "feed (if R d then Return True else Pthread (Pcond_timedwait c t) (\<lambda>errno.
       if errno = ETIMEDOUT then test_data R (\<lambda>ready. if ready then Return True else Return False)
       else if errno \<noteq> 0 then Panic (Os_failure errno) else ?W)) ys = Some (Return b)"
    by (rule wait_round [OF refl])
  show ?case
  proof (cases "R d")
    case True
    with run xs show ?thesis by (auto simp: feed_nodes)
  next
    case False
    with run obtain e zs where ys: "ys = O_call (Pcond_timedwait c t) e # zs" and
      run2: "feed (if e = ETIMEDOUT then test_data R (\<lambda>ready. if ready then Return True else Return False)
        else if e \<noteq> 0 then Panic (Os_failure e) else ?W) zs = Some (Return b)"
      by (auto simp: feed_nodes)
    show ?thesis
    proof (cases "e = ETIMEDOUT")
      case True
      with run2 xs ys show ?thesis by (auto simp: feed_nodes test_data_def split: if_splits)
    next
      case e: False
      with run2 have "feed ?W zs = Some (Return b)" by (auto simp: feed_nodes split: if_splits)
      from less.hyps [OF _ this] xs ys show ?thesis by (metis append_Cons impossible_Cons length_Cons less_Suc_eq not_less_eq)
    qed
  qed
qed

theorem timed_wait_contract_witness:
  "\<exists>ys d. [O_loop, O_access False, O_call (Pcond_timedwait 0 \<lparr>tv_sec = 5, tv_nsec = 0\<rparr>) 0, O_loop, O_access False, O_call (Pcond_timedwait 0 \<lparr>tv_sec = 5, tv_nsec = 0\<rparr>) ETIMEDOUT, O_access False] =
     ys @ [O_call (Pcond_timedwait 0 \<lparr>tv_sec = 5, tv_nsec = 0\<rparr>) ETIMEDOUT, O_access d] \<and> \<not> (d :: bool)"
  using timed_wait_contract [of 0 "\<lparr>tv_sec = 5, tv_nsec = 0\<rparr>" "\<lambda>d. d"
    "[O_loop, O_access False, O_call (Pcond_timedwait 0 \<lparr>tv_sec = 5, tv_nsec = 0\<rparr>) 0, O_loop, O_access False, O_call (Pcond_timedwait 0 \<lparr>tv_sec = 5, tv_nsec = 0\<rparr>) ETIMEDOUT, O_access False]" False]
  by (simp add: condvar_wait_until_internal_def test_data_def unroll_def ETIMEDOUT_def)

section \<open>Construction\<close>

definition answered :: "pcall \<Rightarrow> (int \<Rightarrow> bool) \<Rightarrow> ('d, 's) obs list \<Rightarrow> nat" where
  "answered c R xs = length (filter (\<lambda>x. case x of O_call c' e \<Rightarrow> c' = c \<and> R e | _ \<Rightarrow> False) xs)"

lemma answered_simps [simp]:
  "answered c R [] = 0" "answered c R (O_call c' e # xs) = (if c' = c \<and> R e then 1 else 0) + answered c R xs"
  "answered c R (O_pid i # xs) = answered c R xs"
  by (simp_all add: answered_def)

lemmas new_defs = mutex_new_def mutex_attr_new_def mutex_attr_set_shared_def mutex_attr_drop_def
  condvar_new_def cond_attr_new_def cond_attr_set_shared_def cond_attr_set_monotonic_clock_def cond_attr_drop_def

text \<open>
  A constructor that returns has made a mutex shared between processes, and a condition
  variable shared between processes that measures its deadlines on the monotonic clock, both
  remembering the calling process as their creator.
\<close>

theorem new_objects_shared:
  "(feed (mutex_new x (Return :: 't mutex \<Rightarrow> ('d, 's, 't mutex) prog)) xs = Some (Return m) \<longrightarrow>
      mutex_data m = x \<and> O_pid (mutex_creator_pid m) \<in> set xs \<and> O_call (Pmutex_init \<lparr>ma_pshared = True\<rparr>) 0 \<in> set xs) \<and>
   (feed (condvar_new c (Return :: condvar \<Rightarrow> ('d, 's, condvar) prog)) ys = Some (Return v) \<longrightarrow>
      raw_condvar v = c \<and> O_pid (cond_creator_pid v) \<in> set ys \<and>
      O_call (Pcond_init \<lparr>ca_pshared = True, ca_clock = CLOCK_MONOTONIC\<rparr>) 0 \<in> set ys)"
  by (auto simp: new_defs feed_nodes split: if_splits)

theorem new_objects_shared_witness:
  "O_call (Pmutex_init \<lparr>ma_pshared = True\<rparr>) 0 \<in> set [O_call Mutexattr_init 0, O_call Mutexattr_setpshared 0,
      O_call (Pmutex_init \<lparr>ma_pshared = True\<rparr>) 0, O_pid 7, O_call Mutexattr_destroy 0]"
  using new_objects_shared [of "()" "[O_call Mutexattr_init 0, O_call Mutexattr_setpshared 0,
      O_call (Pmutex_init \<lparr>ma_pshared = True\<rparr>) 0, O_pid 7, O_call Mutexattr_destroy 0] :: (unit, unit) obs list"
    "\<lparr>mutex_data = (), mutex_creator_pid = 7\<rparr>" 0 "[]" "\<lparr>raw_condvar = 0, cond_creator_pid = 7\<rparr>"]
  by (simp add: new_defs)

text \<open>
  The attribute objects never leak: whether the constructor of the mutex or the condition
  variable returns or panics half-way, it has destroyed an attribute object exactly as often as it
  has initialised one.
\<close>

theorem attributes_released:
  assumes "(\<exists>m. q = Return m) \<or> (\<exists>e. q = Panic e)" "(\<exists>v. q' = Return v) \<or> (\<exists>e. q' = Panic e)"
  shows "(feed (mutex_new x (Return :: 't mutex \<Rightarrow> ('d, 's, 't mutex) prog)) xs = Some q \<longrightarrow>
      answered Mutexattr_destroy (\<lambda>_. True) xs = answered Mutexattr_init (\<lambda>e. e = 0) xs) \<and>
    (feed (condvar_new c (Return :: condvar \<Rightarrow> ('d, 's, condvar) prog)) ys = Some q' \<longrightarrow>
      answered Condattr_destroy (\<lambda>_. True) ys = answered Condattr_init (\<lambda>e. e = 0) ys)"
  using assms by (auto simp: new_defs feed_nodes split: if_splits)

theorem attributes_released_witness:
  "answered Condattr_destroy (\<lambda>_. True) [O_call Condattr_init 0, O_call Condattr_setpshared 1, O_call Condattr_destroy 0 :: (unit, unit) obs] =
   answered Condattr_init (\<lambda>e. e = 0) [O_call Condattr_init 0, O_call Condattr_setpshared 1, O_call Condattr_destroy 0 :: (unit, unit) obs]"
  using attributes_released [of "Panic (Os_failure 12)" "Panic (Os_failure 1)" "()" "[O_call Mutexattr_init 12] :: (unit, unit) obs list" 0
      "[O_call Condattr_init 0, O_call Condattr_setpshared 1, O_call Condattr_destroy 0]"]
  by (simp add: new_defs)

section \<open>The reference counter of a process\<close>

text \<open>
  In one process, as long as it does not fork and drops no handle it does not have, a drop is
  told that it is the last one exactly when it is.
\<close>

theorem last_handle_told:
  assumes "rc_spec live ops = Some rs" "live < 2 ^ 64"
  shows "\<exists>r'. solo E (rc_prog (env_pid E) ops []) d \<lparr>counter = of_nat live, rc_pid = env_pid E\<rparr> (Done rs) d r'"
  using rc_prog_spec [OF assms(1) refl assms(2), of E "[]" d] by simp

theorem last_handle_told_witness:
  "\<exists>r'. solo \<lparr>env_errno = (\<lambda>_. 0), env_time = (\<lambda>_. epoch), env_now = 0, env_pid = 7, env_weak = False\<rparr>
    (rc_prog 7 [Inc, Dec, Dec] []) () \<lparr>counter = 1, rc_pid = 7\<rparr> (Done [MoveAlong, YouAreTheLastOne]) () r'"
  using last_handle_told [of 1 "[Inc, Dec, Dec]" "[MoveAlong, YouAreTheLastOne]"
    "\<lparr>env_errno = (\<lambda>_. 0), env_time = (\<lambda>_. epoch), env_now = 0, env_pid = 7, env_weak = False\<rparr>" "()"] by simp

text \<open>
  In a child process the first clone of an inherited handle resets the counter to one although
  two handles exist, so the first drop is already told to be the last: whatever positive number
  of handles the parent had.
\<close>

theorem clone_after_fork_miscounts:
  assumes "n \<noteq> 0" "parent \<noteq> env_pid E"
  shows "solo E (rc_prog (env_pid E) [Inc, Dec] []) d \<lparr>counter = n, rc_pid = parent\<rparr> (Done [YouAreTheLastOne]) d
    \<lparr>counter = 0, rc_pid = env_pid E\<rparr>"
  using assms by (simp add: solo_increase solo_decrease increased_def decreased_def)

theorem clone_after_fork_miscounts_witness:
  "solo \<lparr>env_errno = (\<lambda>_. 0), env_time = (\<lambda>_. epoch), env_now = 0, env_pid = 9, env_weak = False\<rparr>
    (rc_prog 9 [Inc, Dec] []) () \<lparr>counter = 3, rc_pid = 7\<rparr> (Done [YouAreTheLastOne]) () \<lparr>counter = 0, rc_pid = 9\<rparr>"
  using clone_after_fork_miscounts [of 3 7 "\<lparr>env_errno = (\<lambda>_. 0), env_time = (\<lambda>_. epoch), env_now = 0, env_pid = 9, env_weak = False\<rparr>" "()"]
  by simp

end
