(* ===== verification/Handle_Counting.thy ===== *)
theory Handle_Counting
  imports Channel Schedules
begin

text \<open>
  Dropping handles concurrently. \<open>atomic_checked_sub\<close>, the compare-and-exchange loop behind the
  destructors of \<open>Sender\<close> and \<open>Receiver\<close>, counts down without losing an update, however the threads
  that run it interleave and however often the weak exchange fails.
\<close>

section \<open>The states of one drop\<close>

abbreviation upd_senders :: "(64 word \<Rightarrow> 64 word) \<Rightarrow> 'w chan_state \<Rightarrow> 'w chan_state" where
  "upd_senders f s \<equiv> s\<lparr>senders := f (senders s)\<rparr>"

definition sub_body :: "profile \<Rightarrow> nat \<Rightarrow> ('d, 'w chan_state, nat) prog" where
  "sub_body p = (\<lambda>counter. case usize_checked_sub counter 1 of
         None \<Rightarrow> Return 0
       | Some new_value \<Rightarrow> Weak (\<lambda>fails.
           Atomic (\<lambda>s. if \<not> fails \<and> unat (senders s) = counter then upd_senders (\<lambda>_. of_nat new_value) s else s) (\<lambda>s.
             if \<not> fails \<and> unat (senders s) = counter
             then lift_exec Panic (debug_assert p (unat (senders s) = counter)) (\<lambda>_. Return new_value)
             else Continue (unat (senders s)))))"

lemma checked_sub_loop:
  "atomic_checked_sub p senders (\<lambda>f s. s\<lparr>senders := f (senders s)\<rparr>) Return =
     load senders (\<lambda>counter. Loop (sub_body p) (unat counter))"
  by (simp add: atomic_checked_sub_def sub_body_def [abs_def])

text \<open>One exchange that expects \<open>m\<close>.\<close>

definition exchange :: "profile \<Rightarrow> nat \<Rightarrow> bool \<Rightarrow> ('d, 'w chan_state, nat) prog" where
  "exchange p m fails =
     Atomic (\<lambda>s. if \<not> fails \<and> unat (senders s) = m then upd_senders (\<lambda>_. of_nat (m - 1)) s else s) (\<lambda>s.
       if \<not> fails \<and> unat (senders s) = m then Return (m - 1) else Loop (sub_body p) (unat (senders s)))"

lemma unroll_sub: "m \<noteq> 0 \<Longrightarrow> unroll (sub_body p) m = Weak (exchange p m)"
  by (auto simp: unroll_def sub_body_def usize_checked_sub_def exchange_def debug_assert_def fun_eq_iff)

definition pending :: "profile \<Rightarrow> ('d, 'w chan_state, nat) prog \<Rightarrow> bool" where
  "pending p q \<longleftrightarrow> q = load senders (\<lambda>counter. Loop (sub_body p) (unat counter)) \<or>
     (\<exists>m. m \<noteq> 0 \<and> (q = Loop (sub_body p) m \<or> q = Weak (exchange p m) \<or> (\<exists>fails. q = exchange p m fails)))"

lemma pending_not_final [simp]: "\<not> pending p (Return r)"
  by (simp add: pending_def load_def exchange_def)

lemma pending_forms:
  "pending p (Loop b m) \<longleftrightarrow> m \<noteq> 0 \<and> b = sub_body p"
  "pending p (Weak k) \<longleftrightarrow> (\<exists>m. m \<noteq> 0 \<and> k = exchange p m)"
  "\<not> pending p (Access u ka)" "\<not> pending p (Exclusive u ka)" "\<not> pending p (Pthread c kc)"
  "\<not> pending p (Gettime g kg)" "\<not> pending p (Instant_now ki)" "\<not> pending p (Getpid kp)"
  by (auto simp: pending_def load_def exchange_def)

text \<open>An atomic step of a pending drop either leaves the counter alone or counts down and ends.\<close>

lemma pending_atomic:
  assumes "pending p (Atomic w k)" "senders s \<noteq> 0"
  shows "(pending p (k s) \<and> senders (w s) = senders s) \<or>
    (k s = Return (unat (senders s) - 1) \<and> senders (w s) = senders s - 1)"
proof -
  have nz: "unat (senders s) \<noteq> 0" using assms(2) by (simp add: unat_eq_0)
  then have of_nat_pred: "of_nat (unat (senders s) - 1) = senders s - 1" by (simp add: of_nat_diff)
  from assms(1) consider "w = (\<lambda>s. s)" "k = (\<lambda>s. Loop (sub_body p) (unat (senders s)))"
    | m fails where "Atomic w k = exchange p m fails" "m \<noteq> 0"
    by (auto simp: pending_def load_def)
  then show ?thesis
  proof cases
    case 1
    then show ?thesis using nz by (simp add: pending_forms)
  next
    case 2
    then show ?thesis using nz of_nat_pred by (auto simp: exchange_def pending_forms)
  qed
qed

section \<open>All drops together\<close>

text \<open>The drops that have ended, and what they returned.\<close>

definition ended :: "nat \<Rightarrow> ('d, 's, nat, 'l) sys \<Rightarrow> tid set" where
  "ended N s = {t. t < N \<and> (\<exists>m. threads s t = Return m)}"

definition returned :: "('d, 's, nat) prog \<Rightarrow> nat" where
  "returned q = (case q of Return m \<Rightarrow> m | _ \<Rightarrow> 0)"

definition count_inv :: "profile \<Rightarrow> nat \<Rightarrow> ('d, 'w chan_state, nat, 'l) sys \<Rightarrow> bool" where
  "count_inv p N s \<longleftrightarrow>
     unat (senders (shared s)) = N - card (ended N s) \<and>
     (\<lambda>t. returned (threads s t)) ` ended N s = {N - card (ended N s)..<N} \<and>
     (\<forall>t < N. t \<notin> ended N s \<longrightarrow> pending p (threads s t)) \<and> (\<forall>t. N \<le> t \<longrightarrow> (\<exists>m. threads s t = Return m))"

lemma ended_finite [simp]: "finite (ended N s)" "ended N s \<subseteq> {..<N}"
  by (auto simp: ended_def)

lemma count_inv_stays:
  assumes inv: "count_inv p N s" and t: "t < N" "t \<notin> ended N s" and q: "pending p q"
    and sh: "senders (shared s') = senders (shared s)" and th: "threads s' = (threads s)(t := q)"
  shows "count_inv p N s'"
proof -
  have "ended N s' = ended N s" using t q th by (auto simp: ended_def)
  moreover have "(\<lambda>t. returned (threads s' t)) ` ended N s = (\<lambda>t. returned (threads s t)) ` ended N s"
    using t(2) th by (intro image_cong) auto
  ultimately show ?thesis using inv q sh th t by (auto simp: count_inv_def)
qed

lemma ended_card: "t < N \<Longrightarrow> t \<notin> ended N s \<Longrightarrow> card (ended N s) < N"
  using psubset_card_mono [of "{..<N}" "ended N s"] ended_finite(2) [of N s] by (metis card_lessThan finite_lessThan lessThan_iff psubsetI)

lemma count_inv_ends:
  assumes inv: "count_inv p N s" and t: "t < N" "t \<notin> ended N s"
    and sh: "unat (senders (shared s')) = N - card (ended N s) - 1"
    and th: "threads s' = (threads s)(t := Return (N - card (ended N s) - 1))"
  shows "count_inv p N s'"
proof -
  let ?c = "card (ended N s)"
  have c: "?c < N" using ended_card [OF t] .
  have e: "ended N s' = insert t (ended N s)" using t th by (auto simp: ended_def)
  then have card: "card (ended N s') = Suc ?c" using t(2) by simp
  have "(\<lambda>t. returned (threads s' t)) ` ended N s = (\<lambda>t. returned (threads s t)) ` ended N s"
    using t(2) th by (intro image_cong) auto
  then have "(\<lambda>t. returned (threads s' t)) ` ended N s' = insert (N - ?c - 1) {N - ?c..<N}"
    using e inv th by (simp add: count_inv_def returned_def)
  also have "\<dots> = {N - Suc ?c..<N}" using c by auto
  finally show ?thesis using inv sh th t e card by (auto simp: count_inv_def)
qed

lemma count_inv_step:
  assumes "sys_step P s s'" "count_inv p N s"
  shows "count_inv p N s'"
proof -
  have run: "t < N \<and> t \<notin> ended N s \<and> pending p (threads s t)" if "\<forall>m. threads s t \<noteq> Return m" for t
  proof -
    have "t < N" using assms(2) that unfolding count_inv_def by (meson not_le)
    with assms(2) that show ?thesis by (simp add: count_inv_def ended_def)
  qed
  have nz: "senders (shared s) \<noteq> 0" "unat (senders (shared s) - 1) = N - card (ended N s) - 1" if "t < N" "t \<notin> ended N s" for t
  proof -
    have "unat (senders (shared s)) = N - card (ended N s)" "card (ended N s) < N"
      using assms(2) ended_card [OF that] by (simp_all add: count_inv_def)
    then show n: "senders (shared s) \<noteq> 0" by auto
    then show "unat (senders (shared s) - 1) = N - card (ended N s) - 1"
      using \<open>unat (senders (shared s)) = N - card (ended N s)\<close> by (simp add: unat_minus_one)
  qed
  show ?thesis
    using assms(1)
  proof cases
    case (step_loop t b n)
    with run [of t] have "pending p (unroll b n)" "t < N" "t \<notin> ended N s"
      by (auto simp: pending_forms unroll_sub)
    then show ?thesis using step_loop by (intro count_inv_stays [OF assms(2)]) auto
  next
    case (step_weak t k b)
    with run [of t] have "pending p (k b)" "t < N" "t \<notin> ended N s"
      by (auto simp: pending_forms) (auto simp: pending_def)
    then show ?thesis using step_weak by (intro count_inv_stays [OF assms(2)]) auto
  next
    case (step_atomic t w k)
    then have t: "t < N" "t \<notin> ended N s" "pending p (Atomic w k)" using run [of t] by auto
    from pending_atomic [OF t(3) nz(1) [OF t(1,2)]] show ?thesis
    proof (elim disjE conjE)
      assume "pending p (k (shared s))" "senders (w (shared s)) = senders (shared s)"
      then show ?thesis using step_atomic t by (intro count_inv_stays [OF assms(2)]) auto
    next
      assume r: "k (shared s) = Return (unat (senders (shared s)) - 1)" "senders (w (shared s)) = senders (shared s) - 1"
      moreover have "unat (senders (shared s)) = N - card (ended N s)" using assms(2) by (simp add: count_inv_def)
      ultimately show ?thesis using step_atomic t nz(2) [OF t(1,2)] by (intro count_inv_ends [OF assms(2) t(1,2)]) simp_all
    qed
  qed (use run pending_forms in \<open>metis prog.distinct\<close>)+
qed

definition drops_start :: "profile \<Rightarrow> nat \<Rightarrow> ('d, 'w chan_state, nat, 'l) sys \<Rightarrow> bool" where
  "drops_start p N s \<longleftrightarrow> unat (senders (shared s)) = N \<and> (\<forall>t. threads s t =
     (if t < N then atomic_checked_sub p senders (\<lambda>f s. s\<lparr>senders := f (senders s)\<rparr>) Return else Return 0))"

lemma drops_start_inv: "drops_start p N s \<Longrightarrow> count_inv p N s"
proof -
  assume s: "drops_start p N s"
  then have "ended N s = {}" by (auto simp: drops_start_def ended_def checked_sub_loop load_def)
  with s show ?thesis by (simp add: drops_start_def count_inv_def checked_sub_loop pending_def)
qed

lemma count_inv_reach: "sys_reach P s0 s \<Longrightarrow> drops_start p N s0 \<Longrightarrow> count_inv p N s"
  by (induction rule: sys_reach.induct) (simp_all add: drops_start_inv count_inv_step)

text \<open>
  C10: \<open>N\<close> handles dropped by \<open>N\<close> threads at once are counted exactly: in every reachable state
  the counter is the number of handles not yet dropped, and the values returned so far are all
  different, the numbers from there up to \<open>N - 1\<close>. So no decrement is lost, the counter never
  wraps below zero, and when all are through exactly one drop has returned 0, the one that
  broadcasts.
\<close>

theorem concurrent_drops_count_down:
  assumes "drops_start p N s0" "sys_reach P s0 s"
  shows "unat (senders (shared s)) = N - card (ended N s) \<and>
    (\<lambda>t. returned (threads s t)) ` ended N s = {N - card (ended N s)..<N} \<and>
    inj_on (\<lambda>t. returned (threads s t)) (ended N s)"
proof -
  have inv: "count_inv p N s" using count_inv_reach assms by blast
  let ?f = "\<lambda>t. returned (threads s t)"
  have "card (ended N s) \<le> N" using card_mono [OF _ ended_finite(2) [of N s]] by simp
  then have "card (?f ` ended N s) = card (ended N s)" using inv by (simp add: count_inv_def)
  then have "inj_on ?f (ended N s)" by (rule eq_card_imp_inj_on [rotated]) simp
  with inv show ?thesis by (simp add: count_inv_def)
qed

definition two_drops :: "(unit, unit chan_state, nat, wake_state) sys" where
  "two_drops = \<lparr>threads = (\<lambda>t. if t < 2 then atomic_checked_sub dev_profile senders (\<lambda>f s. s\<lparr>senders := f (senders s)\<rparr>) Return
       else Return 0),
     asleep = (\<lambda>_. False), cell = (),
     shared = \<lparr>receivers = 1, senders = 2, dropping = False, references = (\<lambda>_. \<lparr>counter = 2, rc_pid = 7\<rparr>), world = ()\<rparr>,
     lib = \<lparr>wk_holder = None, wk_sleeping = [], wk_woken = []\<rparr>\<rparr>"

lemma two_drops_run:
  "\<exists>s. run_schedule [(0, Go), (1, Go), (0, Go), (0, Fails True), (1, Go), (1, Fails False), (1, Go), (0, Go), (0, Go), (0, Fails False), (0, Go)]
     two_drops = Some s \<and> threads s 0 = Return 0 \<and> threads s 1 = Return 1"
  by (simp add: two_drops_def move_in_def set_thread_def atomic_checked_sub_def load_def unroll_def usize_checked_sub_def debug_assert_def)

theorem concurrent_drops_count_down_witness:
  "\<exists>s. sys_reach wake_pthread two_drops s \<and> threads s 0 = Return 0 \<and> threads s 1 = Return 1 \<and> senders (shared s) = 0"
proof -
  obtain s where s: "sys_reach wake_pthread two_drops s" "threads s 0 = Return 0" "threads s 1 = Return 1"
    using two_drops_run run_schedule_reach by blast
  have "drops_start dev_profile 2 two_drops" by (simp add: drops_start_def two_drops_def)
  from concurrent_drops_count_down [OF this s(1)] have "unat (senders (shared s)) = 2 - card (ended 2 s)" by simp
  moreover have "ended 2 s = {0, 1}" using s(2,3) by (auto simp: ended_def less_2_cases_iff)
  ultimately show ?thesis using s by (auto simp: unat_eq_0)
qed

end
