(* ===== verification/Wake_Accounts.thy ===== *)
theory Wake_Accounts
  imports Schedules
begin

text \<open>
  A thread logic for wake-ups. The protected value has a measure \<open>m\<close> (the number of items, say),
  and threads sleep on the condition variable \<open>c\<close> when it is zero. The judgement \<open>balanced\<close> keeps a debt: what
  the thread has added to the measure since it took the mutex, less the signals it has sent;
  a thread woken from \<open>c\<close> starts with a debt of one, the wake-up it has used. It may give the
  mutex up only without debt, or when the measure is zero. \<open>A\<close> is an invariant of the atomics, which every
  step keeps. Then in every reachable state the measure is at most
  the number of threads that have been woken and are on their way, as long as anybody sleeps.
\<close>

section \<open>One thread\<close>

datatype 'd account = Off | On 'd int

primrec balanced :: "('s \<Rightarrow> bool) \<Rightarrow> ('d \<Rightarrow> nat) \<Rightarrow> cond_id \<Rightarrow> ('d, 's, 'r) prog \<Rightarrow> 'd account \<Rightarrow> (nat \<Rightarrow> 'd account \<Rightarrow> bool) \<Rightarrow> bool" where
  "balanced A m c (Return r) v J \<longleftrightarrow> v = Off"
| "balanced A m c (Panic q) v J \<longleftrightarrow> v = Off"
| "balanced A m c (Continue n) v J \<longleftrightarrow> J n v"
| "balanced A m c (Loop b n) v J \<longleftrightarrow> (\<exists>J'. J' n v \<and> (\<forall>i v'. J' i v' \<longrightarrow> balanced A m c (b i) v' J'))"
| "balanced A m c (Weak k) v J \<longleftrightarrow> (\<forall>b. balanced A m c (k b) v J)"
| "balanced A m c (Access u k) v J \<longleftrightarrow> (\<exists>d j. v = On d j \<and> balanced A m c (k d) (On (u d) (j + int (m (u d)) - int (m d))) J)"
| "balanced A m c (Exclusive u k) v J \<longleftrightarrow> False"
| "balanced A m c (Atomic u k) v J \<longleftrightarrow> (\<forall>s. A s \<longrightarrow> A (u s) \<and> balanced A m c (k s) v J)"
| "balanced A m c (Pthread q k) v J \<longleftrightarrow>
     (if takes_lock q then v = Off \<and> (\<forall>d. balanced A m c (k 0) (On d 0) J) \<and> (\<forall>e. e \<noteq> 0 \<longrightarrow> balanced A m c (k e) Off J)
      else if waits q then (\<exists>d j. v = On d j \<and> (m d = 0 \<or> cond_of q \<noteq> c \<and> j \<le> 0)) \<and> (\<forall>d. balanced A m c (k 0) (On d (if cond_of q = c then 1 else 0)) J)
      else if q = Pmutex_unlock then (\<exists>d j. v = On d j \<and> (j \<le> 0 \<or> m d = 0)) \<and> balanced A m c (k 0) Off J
      else if q = Pcond_signal c then (\<exists>d j. v = On d j \<and> balanced A m c (k 0) (On d (j - 1)) J)
      else balanced A m c (k 0) v J)"
| "balanced A m c (Gettime g k) v J \<longleftrightarrow> (\<forall>r. balanced A m c (k r) v J)"
| "balanced A m c (Instant_now k) v J \<longleftrightarrow> (\<forall>i. balanced A m c (k i) v J)"
| "balanced A m c (Getpid k) v J \<longleftrightarrow> (\<forall>i. balanced A m c (k i) v J)"

abbreviation balanced_top :: "('s \<Rightarrow> bool) \<Rightarrow> ('d \<Rightarrow> nat) \<Rightarrow> cond_id \<Rightarrow> ('d, 's, 'r) prog \<Rightarrow> 'd account \<Rightarrow> bool" where
  "balanced_top A m c p v \<equiv> balanced A m c p v (\<lambda>_ _. False)"

lemma balanced_call_mono:
  assumes "balanced A m c (Pthread q k) v J" "\<And>e v. balanced A m c (k e) v J \<Longrightarrow> balanced A m c (k' e) v J'"
  shows "balanced A m c (Pthread q k') v J'"
proof (cases "waits q")
  case True
  then have "\<not> takes_lock q" using takes_lock_not by blast
  with True assms(1) have v: "\<exists>d j. v = On d j \<and> (m d = 0 \<or> cond_of q \<noteq> c \<and> j \<le> 0)"
    and "\<And>d. balanced A m c (k 0) (On d (if cond_of q = c then 1 else 0)) J" by auto
  from this(2) have "balanced A m c (k' 0) (On d (if cond_of q = c then 1 else 0)) J'" for d by (rule assms(2))
  with v \<open>\<not> takes_lock q\<close> True show ?thesis by simp
next
  case False
  then show ?thesis using assms(1)
    by (cases "takes_lock q"; cases "q = Pmutex_unlock"; cases "q = Pcond_signal c") (auto intro: assms(2))
qed

lemma balanced_mono:
  assumes "\<And>n v. J n v \<Longrightarrow> J' n v"
  shows "balanced A m c p v J \<Longrightarrow> balanced A m c p v J'"
proof (induction p arbitrary: v)
  case (Pthread q k)
  show ?case using Pthread.prems by (rule balanced_call_mono) (rule Pthread.IH [OF rangeI])
qed (auto intro: assms)

lemma balanced_from_top: "balanced_top A m c p v \<Longrightarrow> balanced A m c p v J"
  by (erule balanced_mono [rotated]) simp

lemma balanced_plug:
  assumes after: "\<And>n v. J' n v \<Longrightarrow> balanced A m c (q n) v J"
  shows "balanced A m c p v J' \<Longrightarrow> balanced A m c (plug p q) v J"
proof (induction p arbitrary: v)
  case (Pthread f k)
  show ?case unfolding plug.simps
    using Pthread.prems by (rule balanced_call_mono) (rule Pthread.IH [OF rangeI])
qed (auto intro: after)

lemma balanced_unroll:
  assumes "balanced A m c (Loop b n) v J"
  shows "balanced A m c (unroll b n) v J"
proof -
  obtain J' where J': "J' n v" "\<forall>i v'. J' i v' \<longrightarrow> balanced A m c (b i) v' J'" using assms by auto
  then have "balanced A m c (b n) v J'" by blast
  moreover have "balanced A m c (Loop b i) v' J" if "J' i v'" for i v' using J'(2) that by auto
  ultimately show ?thesis unfolding unroll_def by (rule balanced_plug [rotated])
qed

section \<open>All threads\<close>

definition wait_cond :: "('d, 's, 'r) prog \<Rightarrow> cond_id option" where
  "wait_cond p = (case p of Pthread q k \<Rightarrow> if waits q then Some (cond_of q) else None | _ \<Rightarrow> None)"

definition sleepers :: "cond_id \<Rightarrow> ('d, 's, 'r, wake_state) sys \<Rightarrow> tid set" where
  "sleepers c s = {t. (t, c) \<in> set (wk_sleeping (lib s))}"

text \<open>The threads woken from \<open>c\<close> that do not have the mutex back yet.\<close>

definition on_their_way :: "cond_id \<Rightarrow> ('d, 's, 'r, wake_state) sys \<Rightarrow> tid set" where
  "on_their_way c s = {t \<in> set (wk_woken (lib s)). wait_cond (threads s t) = Some c}"

lemma on_their_way_finite [simp]: "finite (on_their_way c s)"
  by (simp add: on_their_way_def)

definition thread_balanced :: "('s \<Rightarrow> bool) \<Rightarrow> ('d \<Rightarrow> nat) \<Rightarrow> cond_id \<Rightarrow> int \<Rightarrow> ('d, 's, 'r, wake_state) sys \<Rightarrow> tid \<Rightarrow> bool" where
  "thread_balanced A m c j s t \<longleftrightarrow>
     (if asleep s t then wk_holder (lib s) \<noteq> Some t \<and> (\<exists>q k. threads s t = Pthread q k \<and> waits q \<and>
        (\<forall>d. balanced_top A m c (k 0) (On d (if cond_of q = c then 1 else 0))))
      else balanced_top A m c (threads s t) (if wk_holder (lib s) = Some t then On (cell s) j else Off))"

definition waiting_ok :: "('d, 's, 'r, wake_state) sys \<Rightarrow> bool" where
  "waiting_ok s \<longleftrightarrow>
     (\<forall>t i. (t, i) \<in> set (wk_sleeping (lib s)) \<longrightarrow> asleep s t \<and> t \<notin> set (wk_woken (lib s)) \<and> wait_cond (threads s t) = Some i) \<and>
     (\<forall>t \<in> set (wk_woken (lib s)). asleep s t)"

definition covered :: "('d \<Rightarrow> nat) \<Rightarrow> cond_id \<Rightarrow> int \<Rightarrow> ('d, 's, 'r, wake_state) sys \<Rightarrow> bool" where
  "covered m c j s \<longleftrightarrow> (sleepers c s \<noteq> {} \<longrightarrow>
     int (m (cell s)) \<le> int (card (on_their_way c s)) + (if wk_holder (lib s) = None then 0 else j))"

definition account_inv :: "('s \<Rightarrow> bool) \<Rightarrow> ('d \<Rightarrow> nat) \<Rightarrow> cond_id \<Rightarrow> int \<Rightarrow> ('d, 's, 'r, wake_state) sys \<Rightarrow> bool" where
  "account_inv A m c j s \<longleftrightarrow> A (shared s) \<and> waiting_ok s \<and> (\<forall>t. thread_balanced A m c j s t) \<and> covered m c j s"

lemma account_awake:
  "account_inv A m c j s \<Longrightarrow> \<not> asleep s t \<Longrightarrow>
     balanced_top A m c (threads s t) (if wk_holder (lib s) = Some t then On (cell s) j else Off)"
  unfolding account_inv_def thread_balanced_def by metis

text \<open>A step of thread \<open>t\<close> leaves the books of the others as they are.\<close>

lemma thread_balanced_frame:
  assumes "thread_balanced A m c j s t" "threads s' t = threads s t" "asleep s' t = asleep s t"
    and "wk_holder (lib s') = Some t \<longleftrightarrow> wk_holder (lib s) = Some t"
    and "wk_holder (lib s) = Some t \<Longrightarrow> cell s' = cell s \<and> j' = j"
  shows "thread_balanced A m c j' s' t"
  using assms unfolding thread_balanced_def by (cases "asleep s t") auto

text \<open>The step of a thread that is awake and stays so, when nobody falls asleep or is woken.\<close>

lemma account_local:
  assumes inv: "account_inv A m c j s" and t: "\<not> asleep s t"
    and q: "balanced_top A m c q (if wk_holder l' = Some t then On d' j' else Off)"
    and wk: "wk_sleeping l' = wk_sleeping (lib s)" "wk_woken l' = wk_woken (lib s)"
    and others: "\<And>t'. t' \<noteq> t \<Longrightarrow> (wk_holder l' = Some t' \<longleftrightarrow> wk_holder (lib s) = Some t') \<and>
      (wk_holder (lib s) = Some t' \<longrightarrow> d' = cell s \<and> j' = j)"
    and w: "A w" and cov: "sleepers c s \<noteq> {} \<Longrightarrow> int (m d') \<le> int (card (on_their_way c s)) + (if wk_holder l' = None then 0 else j')"
  shows "account_inv A m c j' (s\<lparr>threads := (threads s)(t := q), cell := d', shared := w, lib := l'\<rparr>)"
    (is "account_inv _ _ _ _ ?s'")
proof -
  have ok: "waiting_ok s" using inv by (simp add: account_inv_def)
  then have nw: "t \<notin> set (wk_woken (lib s))" "\<And>i. (t, i) \<notin> set (wk_sleeping (lib s))" using t by (auto simp: waiting_ok_def)
  have "waiting_ok ?s'" using ok wk nw unfolding waiting_ok_def by fastforce
  moreover have "thread_balanced A m c j' ?s' t'" for t'
  proof (cases "t' = t")
    case True
    then show ?thesis using t q by (cases "wk_holder l' = Some t") (simp_all add: thread_balanced_def)
  next
    case False
    have "thread_balanced A m c j s t'" using inv by (simp add: account_inv_def)
    then show ?thesis by (rule thread_balanced_frame) (use False others [OF False] in auto)
  qed
  moreover have "sleepers c ?s' = sleepers c s" "on_their_way c ?s' = on_their_way c s"
    using wk nw by (auto simp: sleepers_def on_their_way_def)
  ultimately show ?thesis using cov w by (simp add: account_inv_def covered_def)
qed

text \<open>A signal or broadcast on \<open>i\<close>: the threads in \<open>W0\<close> are woken, and a debt may be paid.\<close>

lemma account_wakes:
  assumes inv: "account_inv A m c j s" and t: "\<not> asleep s t"
    and q: "balanced_top A m c q (if wk_holder (lib s) = Some t then On (cell s) j' else Off)"
    and S': "\<And>t' x. (t', x) \<in> set S' \<Longrightarrow> (t', x) \<in> set (wk_sleeping (lib s)) \<and> t' \<notin> set W0"
    and W0: "\<And>t'. t' \<in> set W0 \<Longrightarrow> (t', i) \<in> set (wk_sleeping (lib s))"
    and paid: "j' = j \<or> j' = j - 1 \<and> wk_holder (lib s) = Some t \<and> ((\<forall>t'. (t', c) \<notin> set S') \<or> i = c \<and> W0 \<noteq> [])"
  shows "account_inv A m c j' (s\<lparr>threads := (threads s)(t := q), lib := (lib s)\<lparr>wk_sleeping := S', wk_woken := W0 @ wk_woken (lib s)\<rparr>\<rparr>)"
    (is "account_inv _ _ _ _ ?s'")
proof -
  have ok: "waiting_ok s" using inv by (simp add: account_inv_def)
  then have nw: "t \<notin> set (wk_woken (lib s))" "\<And>i. (t, i) \<notin> set (wk_sleeping (lib s))"
    and slept: "\<And>t' i. (t', i) \<in> set (wk_sleeping (lib s)) \<Longrightarrow> asleep s t' \<and> t' \<notin> set (wk_woken (lib s)) \<and> wait_cond (threads s t') = Some i"
    using t by (auto simp: waiting_ok_def)
  have "waiting_ok ?s'" using ok nw S' W0 unfolding waiting_ok_def by fastforce
  moreover have "thread_balanced A m c j' ?s' t'" for t'
  proof (cases "t' = t")
    case True
    then show ?thesis using t q by (cases "wk_holder (lib s) = Some t") (simp_all add: thread_balanced_def)
  next
    case False
    have "thread_balanced A m c j s t'" using inv by (simp add: account_inv_def)
    then show ?thesis by (rule thread_balanced_frame) (use False paid in auto)
  qed
  moreover have "covered m c j' ?s'"
    unfolding covered_def
  proof
    assume sl: "sleepers c ?s' \<noteq> {}"
    then have "sleepers c s \<noteq> {}" using S' by (fastforce simp: sleepers_def)
    then have old: "int (m (cell s)) \<le> int (card (on_their_way c s)) + (if wk_holder (lib s) = None then 0 else j)"
      using inv by (simp add: account_inv_def covered_def)
    have keep: "on_their_way c s \<subseteq> on_their_way c ?s'" using nw by (auto simp: on_their_way_def)
    show "int (m (cell ?s')) \<le> int (card (on_their_way c ?s')) + (if wk_holder (lib ?s') = None then 0 else j')"
    proof (cases "j' = j")
      case True
      then show ?thesis using old card_mono [OF on_their_way_finite keep] by auto
    next
      case False
      with paid sl have p: "j' = j - 1" "wk_holder (lib s) = Some t" "i = c" "W0 \<noteq> []" by (auto simp: sleepers_def)
      then obtain t0 where t0: "t0 \<in> set W0" "(t0, c) \<in> set (wk_sleeping (lib s))" using W0 by (cases W0) auto
      then have "t0 \<notin> on_their_way c s" "t0 \<noteq> t" "wait_cond (threads s t0) = Some c" using slept [of t0 c] nw by (auto simp: on_their_way_def)
      moreover from this have "insert t0 (on_their_way c s) \<subseteq> on_their_way c ?s'" using keep t0 by (auto simp: on_their_way_def)
      ultimately have "Suc (card (on_their_way c s)) \<le> card (on_their_way c ?s')"
        using card_mono [of "on_their_way c ?s'" "insert t0 (on_their_way c s)"] by simp
      then show ?thesis using old p by simp
    qed
  qed
  ultimately show ?thesis using inv by (simp add: account_inv_def)
qed

lemma account_sleep:
  assumes inv: "account_inv A m c j s" and p: "threads s t = Pthread q k" "waits q" "\<not> asleep s t"
  shows "account_inv A m c 0 (s\<lparr>asleep := (asleep s)(t := True), lib := wake_sleep (lib s) t q\<rparr>)" (is "account_inv _ _ _ _ ?s'")
proof -
  have nl: "\<not> takes_lock q" using p(2) takes_lock_not by blast
  then obtain d i where v: "(if wk_holder (lib s) = Some t then On (cell s) j else Off) = On d i" "m d = 0 \<or> cond_of q \<noteq> c \<and> i \<le> 0"
    and k: "\<And>d. balanced_top A m c (k 0) (On d (if cond_of q = c then 1 else 0))"
    using account_awake [OF inv p(3)] p(1,2) by auto
  then have h: "wk_holder (lib s) = Some t" "d = cell s" "i = j" by (simp_all split: if_split_asm)
  have ok: "waiting_ok s" using inv by (simp add: account_inv_def)
  then have nw: "t \<notin> set (wk_woken (lib s))" "\<And>i. (t, i) \<notin> set (wk_sleeping (lib s))" using p(3) by (auto simp: waiting_ok_def)
  have "waiting_ok ?s'" using ok nw p by (auto simp: waiting_ok_def wake_sleep_def wait_cond_def)
  moreover have "thread_balanced A m c 0 ?s' t'" for t'
  proof (cases "t' = t")
    case True
    then show ?thesis using p k by (simp add: thread_balanced_def wake_sleep_def)
  next
    case False
    have "thread_balanced A m c j s t'" using inv by (simp add: account_inv_def)
    then show ?thesis by (rule thread_balanced_frame) (use False h in \<open>auto simp: wake_sleep_def\<close>)
  qed
  moreover have "covered m c 0 ?s'"
  proof -
    have same: "on_their_way c ?s' = on_their_way c s" by (simp add: on_their_way_def wake_sleep_def)
    have "int (m (cell s)) \<le> int (card (on_their_way c s))" if "sleepers c ?s' \<noteq> {}"
    proof (cases "m (cell s) = 0")
      case False
      with v(2) h have "cond_of q \<noteq> c" "j \<le> 0" by auto
      with that have "sleepers c s \<noteq> {}" by (auto simp: sleepers_def wake_sleep_def)
      with inv h \<open>j \<le> 0\<close> show ?thesis by (simp add: account_inv_def covered_def)
    qed simp
    with same show ?thesis by (simp add: covered_def)
  qed
  ultimately show ?thesis using inv by (simp add: account_inv_def)
qed

lemma account_wake_up:
  assumes inv: "account_inv A m c j s" and p: "threads s t = Pthread q k" "waits q" "asleep s t" and l': "wake_up (lib s) t = Some l'"
  shows "account_inv A m c (if cond_of q = c then 1 else 0) (s\<lparr>threads := (threads s)(t := k 0), asleep := (asleep s)(t := False), lib := l'\<rparr>)"
    (is "account_inv _ _ _ ?j ?s'")
proof -
  have h: "wk_holder (lib s) = None" "t \<in> set (wk_woken (lib s))"
    and l: "l' = (lib s)\<lparr>wk_holder := Some t, wk_woken := removeAll t (wk_woken (lib s))\<rparr>"
    using l' by (auto simp: wake_up_def split: if_split_asm)
  have ok: "waiting_ok s" and tb: "\<And>t. thread_balanced A m c j s t" using inv by (simp_all add: account_inv_def)
  have nosleep: "(t, i) \<notin> set (wk_sleeping (lib s))" for i using ok h(2) by (auto simp: waiting_ok_def)
  have "waiting_ok ?s'" using ok nosleep l by (auto simp: waiting_ok_def)
  moreover have "thread_balanced A m c ?j ?s' t'" for t'
  proof (cases "t' = t")
    case True
    then show ?thesis using tb [of t] p l by (auto simp: thread_balanced_def)
  next
    case False
    show ?thesis by (rule thread_balanced_frame [OF tb [of t']]) (use False h l in auto)
  qed
  moreover have "covered m c ?j ?s'"
    unfolding covered_def
  proof
    assume "sleepers c ?s' \<noteq> {}"
    then have "sleepers c s \<noteq> {}" using l by (auto simp: sleepers_def)
    then have old: "int (m (cell s)) \<le> int (card (on_their_way c s))" using inv h by (simp add: account_inv_def covered_def)
    have "on_their_way c ?s' = on_their_way c s - {t}" using l by (auto simp: on_their_way_def)
    moreover have "t \<in> on_their_way c s \<longleftrightarrow> cond_of q = c" using h p by (auto simp: on_their_way_def wait_cond_def)
    ultimately have "int (card (on_their_way c s)) \<le> int (card (on_their_way c ?s')) + ?j"
      by (cases "cond_of q = c") (simp_all add: card_Diff_singleton_if)
    then show "int (m (cell ?s')) \<le> int (card (on_their_way c ?s')) + (if wk_holder (lib ?s') = None then 0 else ?j)"
      using old l by simp
  qed
  ultimately show ?thesis using inv by (simp add: account_inv_def)
qed

lemma sleeps_on_one:
  assumes "waiting_ok s" "(t', x) \<in> set (wk_sleeping (lib s))" "(t', y) \<in> set (wk_sleeping (lib s))"
  shows "x = y"
proof -
  have "wait_cond (threads s t') = Some x" "wait_cond (threads s t') = Some y" using assms unfolding waiting_ok_def by blast+
  then show ?thesis by simp
qed

text \<open>The remaining calls, by what they do to the library's state.\<close>

lemma account_signal:
  assumes inv: "account_inv A m c j s" and p: "threads s t = Pthread (Pcond_signal i) k" "\<not> asleep s t"
    and ans: "l' = wake_all i (lib s) \<or> (\<exists>t'. (t', i) \<in> set (wk_sleeping (lib s)) \<and> l' = wake_one t' i (lib s))"
  shows "\<exists>j'. account_inv A m c j' (s\<lparr>threads := (threads s)(t := k 0), lib := l'\<rparr>)"
proof -
  let ?j = "if i = c then j - 1 else j"
  have b: "balanced_top A m c (Pthread (Pcond_signal i) k) (if wk_holder (lib s) = Some t then On (cell s) j else Off)"
    using account_awake [OF inv p(2)] p(1) by simp
  have h: "i = c \<Longrightarrow> wk_holder (lib s) = Some t" using b by (auto split: if_split_asm)
  have q: "balanced_top A m c (k 0) (if wk_holder (lib s) = Some t then On (cell s) ?j else Off)"
    using b by (cases "i = c") (auto split: if_split_asm)
  from ans obtain S' W0 where l': "l' = (lib s)\<lparr>wk_sleeping := S', wk_woken := W0 @ wk_woken (lib s)\<rparr>"
    and sw: "\<And>t' x. (t', x) \<in> set S' \<Longrightarrow> (t', x) \<in> set (wk_sleeping (lib s)) \<and> t' \<notin> set W0"
      "\<And>t'. t' \<in> set W0 \<Longrightarrow> (t', i) \<in> set (wk_sleeping (lib s))"
      "(\<forall>t'. (t', i) \<notin> set S') \<or> W0 \<noteq> []"
  proof
    have ok: "waiting_ok s" using inv by (simp add: account_inv_def)
    note one_cond = sleeps_on_one [OF ok]
    {
      assume "l' = wake_all i (lib s)"
      then show ?thesis
        by (intro that [of "map fst (filter (\<lambda>x. snd x = i) (wk_sleeping (lib s)))" "filter (\<lambda>x. snd x \<noteq> i) (wk_sleeping (lib s))"])
          (auto simp: wake_all_def dest: one_cond)
    next
      assume "\<exists>t'. (t', i) \<in> set (wk_sleeping (lib s)) \<and> l' = wake_one t' i (lib s)"
      then obtain t' where t': "(t', i) \<in> set (wk_sleeping (lib s))" "l' = wake_one t' i (lib s)" by blast
      then show ?thesis
        by (intro that [of "[t']" "removeAll (t', i) (wk_sleeping (lib s))"]) (auto simp: wake_one_def dest: one_cond)
    }
  qed
  have "account_inv A m c ?j (s\<lparr>threads := (threads s)(t := k 0),
      lib := (lib s)\<lparr>wk_sleeping := S', wk_woken := W0 @ wk_woken (lib s)\<rparr>\<rparr>)"
    by (rule account_wakes [OF inv p(2) q sw(1,2)]) (use sw(3) h in auto)
  with l' show ?thesis by blast
qed

lemma account_broadcast:
  assumes inv: "account_inv A m c j s" and p: "threads s t = Pthread (Pcond_broadcast i) k" "\<not> asleep s t"
  shows "account_inv A m c j (s\<lparr>threads := (threads s)(t := k 0), lib := wake_all i (lib s)\<rparr>)"
proof -
  have ok: "waiting_ok s" using inv by (simp add: account_inv_def)
  have q: "balanced_top A m c (k 0) (if wk_holder (lib s) = Some t then On (cell s) j else Off)"
    using account_awake [OF inv p(2)] p(1) by (cases "wk_holder (lib s) = Some t") (simp_all add: takes_lock_def waits_def)
  show ?thesis unfolding wake_all_def
  proof (rule account_wakes [OF inv p(2) q, of _ _ i])
    fix t' x assume "(t', x) \<in> set (filter (\<lambda>x. snd x \<noteq> i) (wk_sleeping (lib s)))"
    then have a: "(t', x) \<in> set (wk_sleeping (lib s))" "x \<noteq> i" by auto
    with sleeps_on_one [OF ok a(1), of i]
    show "(t', x) \<in> set (wk_sleeping (lib s)) \<and> t' \<notin> set (map fst (filter (\<lambda>x. snd x = i) (wk_sleeping (lib s))))"
      by auto
  qed auto
qed

lemma account_lock:
  assumes inv: "account_inv A m c j s" and p: "threads s t = Pthread q k" "\<not> asleep s t" "takes_lock q"
    and ans: "wake_call (lib s) t q e = Some l'"
  shows "\<exists>j'. account_inv A m c j' (s\<lparr>threads := (threads s)(t := k e), lib := l'\<rparr>)"
proof -
  have b: "balanced_top A m c (Pthread q k) (if wk_holder (lib s) = Some t then On (cell s) j else Off)"
    using account_awake [OF inv p(2)] p(1) by simp
  then have h: "wk_holder (lib s) \<noteq> Some t" and k: "\<And>d. balanced_top A m c (k 0) (On d 0)" "e \<noteq> 0 \<Longrightarrow> balanced_top A m c (k e) Off"
    using p(3) by (auto split: if_split_asm)
  have cov: "covered m c j s" "A (shared s)" using inv by (simp_all add: account_inv_def)
  show ?thesis
  proof (cases "e = 0")
    case True
    with ans p(3) have l: "wk_holder (lib s) = None" "l' = (lib s)\<lparr>wk_holder := Some t\<rparr>" by (auto simp: wake_call_def EBUSY_def ETIMEDOUT_def split: if_split_asm)
    with k True cov show ?thesis
      by (intro exI [of _ 0]) (rule account_local [OF inv p(2), of "k e" l' "cell s" 0 "shared s", simplified], auto simp: covered_def)
  next
    case False
    with ans p(3) have l: "l' = lib s" by (auto simp: wake_call_def split: if_split_asm)
    with k False h cov show ?thesis
      by (intro exI [of _ j]) (rule account_local [OF inv p(2), of "k e" l' "cell s" j "shared s", simplified], auto simp: covered_def)
  qed
qed

lemma account_unlock:
  assumes inv: "account_inv A m c j s" and p: "threads s t = Pthread Pmutex_unlock k" "\<not> asleep s t"
  shows "\<exists>j'. account_inv A m c j' (s\<lparr>threads := (threads s)(t := k 0), lib := (lib s)\<lparr>wk_holder := None\<rparr>\<rparr>) \<and> wk_holder (lib s) = Some t"
proof -
  have b: "balanced_top A m c (Pthread Pmutex_unlock k) (if wk_holder (lib s) = Some t then On (cell s) j else Off)"
    using account_awake [OF inv p(2)] p(1) by simp
  then have h: "wk_holder (lib s) = Some t" "j \<le> 0 \<or> m (cell s) = 0" and k: "balanced_top A m c (k 0) Off"
    by (auto split: if_split_asm)
  have cov: "covered m c j s" "A (shared s)" using inv by (simp_all add: account_inv_def)
  show ?thesis
    using k h cov
    by (intro exI [of _ 0] conjI)
      (rule account_local [OF inv p(2), of "k 0" "(lib s)\<lparr>wk_holder := None\<rparr>" "cell s" 0 "shared s", simplified],
        auto simp: covered_def)
qed

lemma account_other:
  assumes inv: "account_inv A m c j s" and p: "threads s t = Pthread q k" "\<not> asleep s t"
    and q: "\<not> takes_lock q" "\<not> waits q" "q \<noteq> Pmutex_unlock" "\<And>i. q \<noteq> Pcond_signal i"
  shows "account_inv A m c j (s\<lparr>threads := (threads s)(t := k 0), lib := lib s\<rparr>)"
proof -
  have "balanced_top A m c (k 0) (if wk_holder (lib s) = Some t then On (cell s) j else Off)"
    using account_awake [OF inv p(2)] p(1) q by (cases "wk_holder (lib s) = Some t") simp_all
  moreover have "covered m c j s" "A (shared s)" using inv by (simp_all add: account_inv_def)
  ultimately have "account_inv A m c j (s\<lparr>threads := (threads s)(t := k 0), cell := cell s, shared := shared s, lib := lib s\<rparr>)"
    by (intro account_local [OF inv p(2)]) (auto simp: covered_def)
  then show ?thesis by simp
qed

lemma account_call:
  assumes inv: "account_inv A m c j s" and p: "threads s t = Pthread q k" "\<not> waits q" "\<not> asleep s t"
    and ans: "call_ans wake_pthread (lib s) t q e l'"
  shows "\<exists>j'. account_inv A m c j' (s\<lparr>threads := (threads s)(t := k e), lib := l'\<rparr>)"
proof (cases "takes_lock q")
  case True
  with ans signal_one_other have "wake_call (lib s) t q e = Some l'" by fastforce
  with account_lock [OF inv p(1,3) True] show ?thesis by blast
next
  case nl: False
  then have e: "e = 0" using ans by (auto simp: wake_call_def split: if_split_asm)
  have other: ?thesis if "\<And>i. q \<noteq> Pcond_signal i" "\<And>i. q \<noteq> Pcond_broadcast i" "q \<noteq> Pmutex_unlock"
  proof -
    have "l' = lib s" using ans that nl by (cases q) (auto simp: wake_call_def signal_one_def split: if_split_asm)
    with account_other [OF inv p(1,3) nl p(2) that(3,1)] e show ?thesis by auto
  qed
  show ?thesis
  proof (cases "(\<exists>i. q = Pcond_signal i) \<or> (\<exists>i. q = Pcond_broadcast i) \<or> q = Pmutex_unlock")
    case True
    then consider i where "q = Pcond_signal i" | i where "q = Pcond_broadcast i" | "q = Pmutex_unlock" by blast
    then show ?thesis
    proof cases
      case (1 i)
      with ans have "l' = wake_all i (lib s) \<or> (\<exists>t'. (t', i) \<in> set (wk_sleeping (lib s)) \<and> l' = wake_one t' i (lib s))"
        by (auto simp: wake_call_def signal_one_def split: if_split_asm)
      with account_signal [OF inv _ p(3)] p(1) 1 e show ?thesis by blast
    next
      case (2 i)
      with ans have "l' = wake_all i (lib s)" by (auto simp: wake_call_def signal_one_def takes_lock_def split: if_split_asm)
      with account_broadcast [OF inv _ p(3)] p(1) 2 e show ?thesis by blast
    next
      case 3
      with account_unlock [OF inv _ p(3)] p(1) obtain j' where
        "account_inv A m c j' (s\<lparr>threads := (threads s)(t := k 0), lib := (lib s)\<lparr>wk_holder := None\<rparr>\<rparr>)" "wk_holder (lib s) = Some t" by blast
      moreover from this(2) have "l' = (lib s)\<lparr>wk_holder := None\<rparr>"
        using ans 3 by (auto simp: wake_call_def signal_one_def split: if_split_asm)
      ultimately show ?thesis using e by blast
    qed
  qed (use other in blast)
qed

section \<open>Every reachable state\<close>

lemma account_asleep:
  "account_inv A m c j s \<Longrightarrow> asleep s t \<Longrightarrow> \<exists>q k. threads s t = Pthread q k \<and> waits q"
  unfolding account_inv_def thread_balanced_def by metis

lemma account_still:
  assumes inv: "account_inv A m c j s" and t: "\<not> asleep s t"
    and q: "balanced_top A m c q (if wk_holder (lib s) = Some t then On (cell s) j else Off)" and w: "A w"
  shows "account_inv A m c j (s\<lparr>threads := (threads s)(t := q), shared := w\<rparr>)"
proof -
  have "covered m c j s" "A (shared s)" using inv by (simp_all add: account_inv_def)
  then have "account_inv A m c j (s\<lparr>threads := (threads s)(t := q), cell := cell s, shared := w, lib := lib s\<rparr>)"
    using q w by (intro account_local [OF inv t]) (auto simp: covered_def)
  then show ?thesis by simp
qed

lemma account_access:
  assumes inv: "account_inv A m c j s" and p: "threads s t = Access u k" "\<not> asleep s t"
  shows "account_inv A m c (j + int (m (u (cell s))) - int (m (cell s))) (s\<lparr>threads := (threads s)(t := k (cell s)), cell := u (cell s)\<rparr>)"
proof -
  let ?j = "j + int (m (u (cell s))) - int (m (cell s))"
  have "balanced_top A m c (Access u k) (if wk_holder (lib s) = Some t then On (cell s) j else Off)"
    using account_awake [OF inv p(2)] p(1) by simp
  then have h: "wk_holder (lib s) = Some t" and k: "balanced_top A m c (k (cell s)) (On (u (cell s)) ?j)"
    by (auto split: if_split_asm)
  have "covered m c j s" "A (shared s)" using inv by (simp_all add: account_inv_def)
  then have "account_inv A m c ?j (s\<lparr>threads := (threads s)(t := k (cell s)), cell := u (cell s), shared := shared s, lib := lib s\<rparr>)"
    using h k by (intro account_local [OF inv p(2)]) (auto simp: covered_def)
  then show ?thesis by simp
qed

lemma account_step:
  assumes "sys_step wake_pthread s s'" "account_inv A m c j s"
  shows "\<exists>j'. account_inv A m c j' s'"
proof -
  have aw: "\<not> asleep s t" if "\<And>q k. threads s t = Pthread q k \<Longrightarrow> \<not> waits q" for t
    using account_asleep [OF assms(2), of t] that by blast
  have b: "balanced_top A m c (threads s t) (if wk_holder (lib s) = Some t then On (cell s) j else Off)"
    if "\<And>q k. threads s t = Pthread q k \<Longrightarrow> \<not> waits q" for t
    using account_awake [OF assms(2) aw [OF that]] .
  have at: "A (shared s)" using assms(2) by (simp add: account_inv_def)
  note still = account_still [OF assms(2) aw]
  show ?thesis
    using assms(1)
  proof cases
    case (step_loop t bd n)
    have "balanced_top A m c (unroll bd n) (if wk_holder (lib s) = Some t then On (cell s) j else Off)"
      using b [of t] step_loop by (intro balanced_unroll) simp
    with still [of t "unroll bd n" "shared s"] step_loop at show ?thesis by auto
  next
    case (step_weak t k bl)
    with b [of t] still [of t "k bl" "shared s"] at show ?thesis by auto
  next
    case (step_access t u k)
    with account_access [OF assms(2) step_access(2) aw] show ?thesis by auto
  next
    case (step_exclusive t u k)
    with b [of t] show ?thesis by simp
  next
    case (step_atomic t w k)
    with b [of t] still [of t "k (shared s)" "w (shared s)"] at show ?thesis by auto
  next
    case (step_time t g k r)
    then have "balanced_top A m c (k r) (if wk_holder (lib s) = Some t then On (cell s) j else Off)"
      using b [of t] by (cases r) auto
    with step_time still [of t "k r" "shared s"] at show ?thesis by auto
  next
    case (step_now t k i)
    with b [of t] still [of t "k i" "shared s"] at show ?thesis by auto
  next
    case (step_pid t k i)
    with b [of t] still [of t "k i" "shared s"] at show ?thesis by auto
  next
    case (step_call t q k e l')
    with account_call [OF assms(2) step_call(2,3) aw step_call(4)] show ?thesis by auto
  next
    case (step_sleep t q k l')
    with account_sleep [OF assms(2) step_sleep(2-4)] show ?thesis by auto
  next
    case (step_wake t q k e l')
    with account_wake_up [OF assms(2) step_wake(2-4)] show ?thesis by auto
  qed
qed

lemma account_reach: "sys_reach wake_pthread s0 s \<Longrightarrow> account_inv A m c j0 s0 \<Longrightarrow> \<exists>j. account_inv A m c j s"
  by (induction rule: sys_reach.induct) (use account_step in blast)+

lemma account_start:
  assumes "A (shared s)" "lib s = \<lparr>wk_holder = None, wk_sleeping = [], wk_woken = []\<rparr>" "\<And>t. \<not> asleep s t \<and> balanced_top A m c (threads s t) Off"
  shows "account_inv A m c 0 s"
  using assms by (simp add: account_inv_def waiting_ok_def thread_balanced_def covered_def sleepers_def)

end
