(* ===== verification/Wake_Ups.thy ===== *)
theory Wake_Ups
  imports Channel_Guarantees Wake_Accounts
begin

text \<open>
  Wake-ups of receivers. A push signals \<open>item_maybe_available\<close>, which is sure to wake one sleeper only.
  The thread logic \<open>balanced\<close> keeps the books: a thread that holds the mutex may not
  give it up while it owes a wake-up for an item. With blocking and non-blocking sends and receives
  the books balance, so no receiver sleeps while items are there that nobody is on the way to fetch;
  with \<open>wait_for_message\<close>, which takes a wake-up and leaves the item, they do not.
\<close>

section \<open>A wake-up taken away\<close>

definition three_threads :: "(nat \<times> nat list, unit chan_state, (nat chan_op \<times> nat outcome) list, wake_state) sys" where
  "three_threads = (two_threads (1, []) 1 1 [] [])\<lparr>threads := (\<lambda>t. chan_prog dev_profile list_deque 7 sample_channel
     (if t = 0 then [Op_wait_until 5] else if t = 1 then [Op_receive] else if t = 2 then [Op_try_send 9] else []) [])\<rparr>"

lemma five_nanoseconds_after_epoch:
  "unix_from_instant dev_profile (\<lambda>_. epoch) 0 5 = Done \<lparr>tv_sec = 0, tv_nsec = 5\<rparr>"
  by (simp add: epoch_def unix_from_instant_def unix_monotonic_def checked_duration_since_def duration_of_nanos_def with_clock_id_def
      unix_add_def as_nanos_def as_i64_def wrap_i64_def i64_try_from_def in_i64_def debug_assert_def)

text \<open>
  C23: \<open>wait_for_message_until\<close> can take the wake-up meant for a receiver. Two threads sleep on the
  empty queue, one in \<open>wait_for_message_until\<close>, one in \<open>receive\<close>; a send signals once and wakes the first,
  which reports that a message is there and leaves it in the queue. The receiver sleeps on beside
  the item, and no thread can take a step any more.
\<close>

theorem waiter_takes_wake_up:
  "\<exists>s. sys_reach wake_pthread three_threads s \<and> threads s 0 = Return [(Op_wait_until 5, Nothing)] \<and>
     threads s 2 = Return [(Op_try_send 9, Sent)] \<and> asleep s 1 \<and> cell s = (1, [9]) \<and> (\<forall>s'. \<not> sys_step wake_pthread s s')"
proof -
  have "\<exists>s. run_schedule [(1, Go), (1, Go), (1, Clock epoch), (1, Code 0), (1, Go), (1, Go), (1, Go), (1, Go), (1, Sleeps),
      (0, Go), (0, Now 0), (0, Clock epoch), (0, Code 0), (0, Now 0), (0, Clock epoch), (0, Go), (0, Go), (0, Go), (0, Sleeps),
      (2, Go), (2, Code 0), (2, Go), (2, Go), (2, Go), (2, Go), (2, Wakes 0), (2, Code 0),
      (0, Go), (0, Go), (0, Go), (0, Code 0)]
    three_threads = Some s \<and> threads s 0 = Return [(Op_wait_until 5, Nothing)] \<and>
     threads s 2 = Return [(Op_try_send 9, Sent)] \<and> asleep s 1 \<and> cell s = (1, [9]) \<and> all_stuck s"
    by (simp add: three_threads_def blocking_defs inner_wait_for_message_until_def item_or_dropping_def mutex_try_lock_until_def
        condvar_wait_until_def condvar_wait_until_internal_def unix_from_def five_nanoseconds_after_epoch signal_one_def wake_one_def
        all_stuck_def stuck_thread_def)
  then show ?thesis using run_schedule_reach all_stuck_no_step by blast
qed

section \<open>Operations that every account admits\<close>

lemma cond_ids [simp]: "space_maybe_available \<noteq> item_maybe_available" "item_maybe_available \<noteq> space_maybe_available"
  by (simp_all add: item_maybe_available_def space_maybe_available_def)

lemma balanced_guard_drop:
  "j \<le> 0 \<or> m q = 0 \<Longrightarrow> balanced_top A m c k Off \<Longrightarrow> balanced A m c (guard_drop k) (On q j) J"
  by (auto simp: guard_drop_def intro: balanced_from_top)

lemma balanced_load: "(\<And>s. A s \<Longrightarrow> balanced A m c (k (get s)) v J) \<Longrightarrow> balanced A m c (load get k) v J"
  by (simp add: load_def)

lemma balanced_none_or_dropping: "(\<And>b. balanced A m c (k b) v J) \<Longrightarrow> balanced A m c (none_or_dropping get k) v J"
  by (simp add: none_or_dropping_def load_def)

lemma balanced_lift_exec:
  "(\<And>q. balanced A m c (unwind q) v J) \<Longrightarrow> (\<And>x. balanced A m c (k x) v J) \<Longrightarrow> balanced A m c (lift_exec unwind e k) v J"
  by (cases e) (auto intro!: exI [of _ "\<lambda>_ _. True"])

lemma balanced_timedlock:
  "(\<And>d. balanced A m c (k True) (On d 0) J) \<Longrightarrow> balanced A m c (k False) Off J \<Longrightarrow>
     balanced A m c (mutex_try_lock_until_internal t k) Off J"
  by (simp add: mutex_try_lock_until_internal_def)

lemma balanced_lock_unless_dropping:
  assumes "balanced_top A m c dropped Off" "\<And>q. balanced_top A m c k (On q 0)"
  shows "balanced A m c (lock_unless_dropping p dropped k) Off J"
proof -
  let ?J = "\<lambda>(_::nat) v. v = Off"
  have "balanced A m c (mutex_try_lock_for p (secs 1) (\<lambda>guard. if guard then k else Continue 0)) Off ?J"
    unfolding mutex_try_lock_for_def balanced.simps
    by (intro allI balanced_lift_exec balanced_timedlock) (simp_all add: balanced_from_top [OF assms(2)])
  then have "balanced A m c (load dropping (\<lambda>b. if b then dropped
      else mutex_try_lock_for p (secs 1) (\<lambda>guard. if guard then k else Continue 0))) Off ?J"
    using balanced_from_top [OF assms(1), of ?J] by (intro balanced_load) simp
  then show ?thesis unfolding lock_unless_dropping_def balanced.simps by (intro exI [of _ ?J]) simp
qed

section \<open>The books of the receivers\<close>

abbreviation items_left :: "('t, 'v, 'e) deque_lib \<Rightarrow> 'v \<Rightarrow> nat" where
  "items_left D q \<equiv> length (dq_items D q)"

abbreviation keeps :: "('t, 'v, 'e) deque_lib \<Rightarrow> ('v, 's, 'r) prog \<Rightarrow> 'v account \<Rightarrow> (nat \<Rightarrow> 'v account \<Rightarrow> bool) \<Rightarrow> bool" where
  "keeps D \<equiv> balanced (\<lambda>_. True) (items_left D) item_maybe_available"

abbreviation keeps_top :: "('t, 'v, 'e) deque_lib \<Rightarrow> ('v, 's, 'r) prog \<Rightarrow> 'v account \<Rightarrow> bool" where
  "keeps_top D p v \<equiv> keeps D p v (\<lambda>_ _. False)"

lemma keeps_guard_drop:
  "j \<le> 0 \<or> dq_items D q = [] \<Longrightarrow> keeps_top D k Off \<Longrightarrow> keeps D (guard_drop k) (On q j) J"
  by (rule balanced_guard_drop) simp_all

lemma keeps_push:
  assumes D: "deque_laws D" and j: "j \<le> 0" and k: "keeps_top D k Off"
  shows "keeps D (push_or_panic D item k) (On q j) J"
proof -
  obtain r q' where p: "dq_push_back D q item = (r, q')" by (cases "dq_push_back D q item")
  show ?thesis
  proof (cases r)
    case (Inl e)
    with p deque_law_rules(3) [OF D] have "q' = q" by blast
    with p Inl j show ?thesis
      by (simp add: push_or_panic_def inner_push_def keeps_guard_drop)
  next
    case (Inr u)
    with p deque_law_rules(2) [OF D] have "items_left D q' = Suc (items_left D q)" by simp
    with p Inr j k show ?thesis
      by (simp add: push_or_panic_def inner_push_def condvar_signal_def keeps_guard_drop)
  qed
qed

lemma keeps_pop:
  assumes D: "deque_laws D" and j: "j \<le> 1" and k: "\<And>q j. j \<le> 0 \<or> dq_items D q = [] \<Longrightarrow> (\<And>r. keeps D (k r) (On q j) J)"
  shows "keeps D (inner_pop D k) (On q j) J"
proof -
  obtain r q' where p: "dq_pop_front D q = (r, q')" by (cases "dq_pop_front D q")
  show ?thesis
  proof (cases r)
    case None
    with p deque_law_rules(5) [OF D] have "dq_items D q = []" "q' = q" by blast+
    with p None k show ?thesis by (simp add: inner_pop_def)
  next
    case (Some x)
    with p deque_law_rules(6) [OF D] have "items_left D q = Suc (items_left D q')" by simp
    with p Some k [of "j - 1" q'] j show ?thesis
      by (simp add: inner_pop_def condvar_signal_def)
  qed
qed

text \<open>The waits: on the receivers' condition with an empty queue, on the senders' without debt.\<close>

lemma keeps_receive:
  assumes D: "deque_laws D" and k: "\<And>r. keeps_top D (k r) Off"
  shows "keeps D (inner_receive p D k) Off J"
  unfolding inner_receive_def
proof (rule balanced_lock_unless_dropping [OF k])
  fix q
  let ?J = "\<lambda>(_::nat) v. \<exists>d j. v = On d j \<and> j \<le> 1"
  have pop: "keeps D (inner_pop D (\<lambda>item. guard_drop (k item))) (On d j) ?J" if "j \<le> 1" for d j
    using k by (intro keeps_pop [OF D that] keeps_guard_drop) auto
  have "keeps D (item_or_no_senders D (\<lambda>ready. if ready then inner_pop D (\<lambda>item. guard_drop (k item))
      else Pthread (Pcond_wait item_maybe_available) (\<lambda>errno.
        if errno \<noteq> 0 then unlock_and_panic (Os_failure errno) else Continue 0))) (On d j) ?J" if j: "j \<le> 1" for d j
    using pop [OF j] deque_law_rules(1) [OF D, of d]
    by (simp add: item_or_no_senders_def load_def cond_of_def)
  then show "keeps_top D (condvar_wait item_maybe_available (item_or_no_senders D) unlock_and_panic
      (inner_pop D (\<lambda>item. guard_drop (k item)))) (On q 0)"
    unfolding condvar_wait_def balanced.simps by (intro exI [of _ ?J]) auto
qed

lemma keeps_send:
  assumes D: "deque_laws D" and k: "\<And>r. keeps_top D (k r) Off"
  shows "keeps D (inner_try_send p D item k) Off J"
  unfolding inner_try_send_def
proof (rule balanced_lock_unless_dropping [OF k])
  fix q
  let ?J = "\<lambda>(_::nat) v. \<exists>d j. v = On d j \<and> j \<le> 0"
  let ?k = "none_or_dropping receivers (\<lambda>b. if b then guard_drop (k (Inl item)) else push_or_panic D item (k (Inr ())))"
  have rest: "keeps D ?k (On d j) ?J" if "j \<le> 0" for d j
    using k that by (auto intro!: balanced_none_or_dropping keeps_push [OF D] keeps_guard_drop)
  have "keeps D (space_or_no_receivers D (\<lambda>ready. if ready then ?k
      else Pthread (Pcond_wait space_maybe_available) (\<lambda>errno.
        if errno \<noteq> 0 then unlock_and_panic (Os_failure errno) else Continue 0))) (On d j) ?J" if j: "j \<le> 0" for d j
    using rest [OF j] j by (simp add: space_or_no_receivers_def load_def cond_of_def)
  then show "keeps_top D (condvar_wait space_maybe_available (space_or_no_receivers D) unlock_and_panic ?k) (On q 0)"
    unfolding condvar_wait_def balanced.simps by (intro exI [of _ ?J]) auto
qed

lemma keeps_try_send:
  assumes D: "deque_laws D" and k: "\<And>r. keeps_top D (k r) Off"
  shows "keeps D (inner_try_send_once D item k) Off J"
  using k by (auto simp: inner_try_send_once_def mutex_try_lock_def
      intro!: balanced_load balanced_none_or_dropping keeps_push [OF D] keeps_guard_drop balanced_from_top [OF k])

lemma keeps_try_receive:
  assumes D: "deque_laws D" and k: "\<And>r. keeps_top D (k r) Off"
  shows "keeps D (inner_try_receive_once D k) Off J"
  using k by (auto simp: inner_try_receive_once_def mutex_try_lock_def balanced_from_top [OF k] split: option.split
      intro!: balanced_load balanced_none_or_dropping keeps_pop [OF D] keeps_guard_drop)

section \<open>No item is left behind\<close>

text \<open>The operations that fetch what they are woken for: all but the timed receives and the waits.\<close>

definition fetches :: "'t chan_op \<Rightarrow> bool" where
  "fetches op \<longleftrightarrow> (case op of Op_send _ \<Rightarrow> True | Op_try_send _ \<Rightarrow> True | Op_receive \<Rightarrow> True | Op_try_receive \<Rightarrow> True
     | Op_make_sender \<Rightarrow> True | Op_make_receiver \<Rightarrow> True | _ \<Rightarrow> False)"

lemma keeps_run_op:
  assumes "deque_laws D" "fetches op" "\<And>r. keeps_top D (k r) Off"
  shows "keeps_top D (run_op p D proc ch op k) Off"
  using assms(2)
  by (cases op) (simp_all add: fetches_def run_op_def public_defs make_sender_def make_receiver_def channel_clone_def rc_increase_def Let_def
      keeps_send [OF assms(1)] keeps_receive [OF assms(1)] keeps_try_send [OF assms(1)] keeps_try_receive [OF assms(1)] assms(3))

lemma keeps_chan_prog:
  assumes "deque_laws D"
  shows "list_all fetches ops \<Longrightarrow> keeps_top D (chan_prog p D proc ch ops out) Off"
proof (induction ops arbitrary: out)
  case (Cons op ops)
  then show ?case unfolding chan_prog.simps by (intro keeps_run_op [OF assms]) simp_all
qed simp

lemma woken_can_step:
  assumes "account_inv A m c j s" "wk_holder (lib s) = None" "on_their_way c s \<noteq> {}"
  shows "\<exists>s'. sys_step wake_pthread s s'"
proof -
  obtain t where t: "t \<in> set (wk_woken (lib s))" using assms(3) by (auto simp: on_their_way_def)
  then have a: "asleep s t" using assms(1) by (auto simp: account_inv_def waiting_ok_def)
  then obtain q k where p: "threads s t = Pthread q k" "waits q" using account_asleep [OF assms(1)] by blast
  have "wait_end wake_pthread (lib s) t q 0 ((lib s)\<lparr>wk_holder := Some t, wk_woken := removeAll t (wk_woken (lib s))\<rparr>)"
    using assms(2) t by (simp add: wake_up_def)
  from step_wake [OF p a this] show ?thesis by blast
qed

text \<open>
  C5: as long as the threads only send, receive and make handles, no item is left behind: whatever
  the interleaving, and though a signal is sure to wake one sleeper only, whenever the mutex is free and
  a receiver sleeps unwoken, there are at most as many items as receivers that have been woken and
  are on their way to fetch them. In particular, if no thread can take a step, no receiver
  sleeps beside an item.
\<close>

theorem no_item_left_behind:
  assumes D: "deque_laws D" and start: "chan_start p D wake_pthread ch proc ops s0"
    "lib s0 = \<lparr>wk_holder = None, wk_sleeping = [], wk_woken = []\<rparr>" and ops: "\<And>t. list_all fetches (ops t)"
    and reach: "sys_reach wake_pthread s0 s" and free: "wk_holder (lib s) = None"
    and sleeps: "(t, item_maybe_available) \<in> set (wk_sleeping (lib s))"
  shows "length (dq_items D (cell s)) \<le> card (on_their_way item_maybe_available s) \<and>
    ((\<forall>s'. \<not> sys_step wake_pthread s s') \<longrightarrow> dq_items D (cell s) = [])"
proof -
  have "account_inv (\<lambda>_. True) (items_left D) item_maybe_available 0 s0"
    using start keeps_chan_prog [OF D ops] by (intro account_start) (simp_all add: chan_start_def)
  with account_reach [OF reach] obtain j where inv: "account_inv (\<lambda>_. True) (items_left D) item_maybe_available j s" by blast
  moreover have "sleepers item_maybe_available s \<noteq> {}" using sleeps by (auto simp: sleepers_def)
  ultimately have n: "length (dq_items D (cell s)) \<le> card (on_their_way item_maybe_available s)"
    using free by (simp add: account_inv_def covered_def)
  with woken_can_step [OF inv free] show ?thesis by force
qed

lemma sample_sleeper:
  "\<exists>s. run_schedule [(0, Go), (0, Go), (0, Clock epoch), (0, Code 0), (0, Go), (0, Go), (0, Go), (0, Go), (0, Sleeps)]
     (two_threads (1, []) 1 1 [Op_receive] [Op_try_send 5]) = Some s \<and> wk_holder (lib s) = None \<and>
     (0, item_maybe_available) \<in> set (wk_sleeping (lib s))"
  by (simp add: blocking_defs)

theorem no_item_left_behind_witness:
  "\<exists>s. sys_reach wake_pthread (two_threads (1, []) 1 1 [Op_receive] [Op_try_send 5]) s \<and>
     (0, item_maybe_available) \<in> set (wk_sleeping (lib s)) \<and>
     length (snd (cell s)) \<le> card (on_their_way item_maybe_available s)"
proof -
  obtain s where s: "sys_reach wake_pthread (two_threads (1, []) 1 1 [Op_receive] [Op_try_send 5]) s"
    "wk_holder (lib s) = None" "(0, item_maybe_available) \<in> set (wk_sleeping (lib s))"
    using sample_sleeper run_schedule_reach by blast
  have f: "list_all fetches (if t = 0 then [Op_receive] else if t = 1 then [Op_try_send (5 :: nat)] else [])" for t :: nat
    by (simp add: fetches_def)
  have l: "lib (two_threads (1, []) 1 1 [Op_receive] [Op_try_send 5]) = \<lparr>wk_holder = None, wk_sleeping = [], wk_woken = []\<rparr>"
    by (simp add: two_threads_def)
  from no_item_left_behind [OF list_deque_laws two_threads_start l f s] s show ?thesis by auto
qed

end
