(* ===== verification/Pagesize.thy ===== *)
theory Pagesize
  imports Allocator Schedules
begin

text \<open>
  \<open>src/pagesize.rs\<close>: the page size, asked of the system once and cached. The cell is a static of
  the process (\<open>OnceCell\<close>), shared by its threads; \<open>sysconf\<close> is a parameter, which may answer
  differently every time. \<open>OnceCell::get\<close> and \<open>get_or_init\<close> are one atomic step each.
\<close>

datatype 'e pagesize_error = PageSize 'e | IncorrectPageSize "int option"

record 'w page_state =
  size_cell :: "nat option"
  system :: 'w

text \<open>\<open>usize::try_from(i64).ok()\<close>\<close>

definition usize_try_from :: "int \<Rightarrow> nat option" where
  "usize_try_from i = (if 0 \<le> i then Some (nat i) else None)"

definition get_or_init :: "nat \<Rightarrow> (nat \<Rightarrow> ('d, 'w page_state, 'r) prog) \<Rightarrow> ('d, 'w page_state, 'r) prog" where
  "get_or_init n k = Atomic (\<lambda>s. case size_cell s of Some _ \<Rightarrow> s | None \<Rightarrow> s\<lparr>size_cell := Some n\<rparr>)
     (\<lambda>s. case size_cell s of Some m \<Rightarrow> k m | None \<Rightarrow> k n)"

definition get_pagesize :: "('w \<Rightarrow> ('e + int option) \<times> 'w) \<Rightarrow>
    ('e pagesize_error + nat \<Rightarrow> ('d, 'w page_state, 'r) prog) \<Rightarrow> ('d, 'w page_state, 'r) prog" where
  "get_pagesize sysconf k = Atomic (\<lambda>s. s) (\<lambda>s. case size_cell s of
     Some pagesize \<Rightarrow> k (Inr pagesize)
   | None \<Rightarrow> world_call (\<lambda>s. case sysconf (system s) of (r, w) \<Rightarrow> (r, s\<lparr>system := w\<rparr>)) (\<lambda>r. case r of
       Inl e \<Rightarrow> k (Inl (PageSize e))
     | Inr maybe_pagesize \<Rightarrow>
         (case Option.bind maybe_pagesize usize_try_from of
            None \<Rightarrow> k (Inl (IncorrectPageSize maybe_pagesize))
          | Some pagesize \<Rightarrow> get_or_init pagesize (\<lambda>n. k (Inr n)))))"

section \<open>Agreement\<close>

text \<open>Where a thread that asks for the page size can be, given the cell.\<close>

inductive asking :: "('w \<Rightarrow> ('e + int option) \<times> 'w) \<Rightarrow> nat option \<Rightarrow> ('d, 'w page_state, 'e pagesize_error + nat) prog \<Rightarrow> bool"
  for sysconf sc where
  "asking sysconf sc (get_pagesize sysconf Return)"
| "asking sysconf sc (world_call (\<lambda>s. case sysconf (system s) of (r, w) \<Rightarrow> (r, s\<lparr>system := w\<rparr>)) (\<lambda>r. case r of
       Inl e \<Rightarrow> Return (Inl (PageSize e))
     | Inr maybe_pagesize \<Rightarrow>
         (case Option.bind maybe_pagesize usize_try_from of
            None \<Rightarrow> Return (Inl (IncorrectPageSize maybe_pagesize))
          | Some pagesize \<Rightarrow> get_or_init pagesize (\<lambda>n. Return (Inr n)))))"
| "asking sysconf sc (get_or_init n (\<lambda>n. Return (Inr n)))"
| "asking sysconf sc (Return (Inl e))"
| "sc = Some n \<Longrightarrow> asking sysconf sc (Return (Inr n))"

inductive_simps asking_Return: "asking sysconf sc (Return (Inr n))"

lemma asking_atomic:
  assumes "asking sysconf (size_cell s) p"
  shows "\<exists>w k. p = Atomic w k \<and> asking sysconf (size_cell (w s)) (k s) \<and> (size_cell s = None \<or> size_cell (w s) = size_cell s) \<or>
    (\<exists>r. p = Return r)"
  using assms
proof cases
  case 1
  then show ?thesis by (auto simp: get_pagesize_def intro: asking.intros split: option.split)
next
  case 2
  then show ?thesis
    by (auto simp: world_call_def intro: asking.intros split: option.split sum.split prod.split)
next
  case (3 n)
  then show ?thesis by (auto simp: get_or_init_def intro: asking.intros split: option.split)
qed auto

lemma asking_mono: "asking sysconf sc p \<Longrightarrow> sc = None \<or> sc = sc' \<Longrightarrow> asking sysconf sc' p"
  by (induction rule: asking.induct) (auto intro: asking.intros)

definition all_asking :: "('w \<Rightarrow> ('e + int option) \<times> 'w) \<Rightarrow> ('d, 'w page_state, 'e pagesize_error + nat, 'l) sys \<Rightarrow> bool" where
  "all_asking sysconf s \<longleftrightarrow> (\<forall>t. asking sysconf (size_cell (shared s)) (threads s t))"

lemma all_asking_step:
  assumes "sys_step P s s'" "all_asking sysconf s"
  shows "all_asking sysconf s' \<and> (size_cell (shared s) = None \<or> size_cell (shared s') = size_cell (shared s))"
proof -
  have form: "(\<exists>w k. threads s t = Atomic w k \<and> asking sysconf (size_cell (w (shared s))) (k (shared s)) \<and>
      (size_cell (shared s) = None \<or> size_cell (w (shared s)) = size_cell (shared s))) \<or> (\<exists>r. threads s t = Return r)" for t
    using asking_atomic [of sysconf "shared s" "threads s t"] assms(2) by (auto simp: all_asking_def)
  have no: "threads s t \<noteq> Loop b n" "threads s t \<noteq> Weak kw" "threads s t \<noteq> Access u ka" "threads s t \<noteq> Exclusive u ka"
    "threads s t \<noteq> Gettime g kg" "threads s t \<noteq> Instant_now ki" "threads s t \<noteq> Getpid kp" "threads s t \<noteq> Pthread c kc"
    for t b n kw u ka g kg ki kp c kc using form [of t] by auto
  show ?thesis
    using assms(1)
  proof cases
    case (step_atomic t w k)
    with form [of t] have a: "asking sysconf (size_cell (w (shared s))) (k (shared s))"
      "size_cell (shared s) = None \<or> size_cell (w (shared s)) = size_cell (shared s)" by auto
    have "asking sysconf (size_cell (w (shared s))) (threads s t')" for t'
      using asking_mono [of sysconf "size_cell (shared s)" "threads s t'" "size_cell (w (shared s))"] a(2) assms(2)
      by (auto simp: all_asking_def)
    then show ?thesis using step_atomic(1) a by (simp add: all_asking_def)
  qed (use no in auto)
qed

lemma all_asking_reach: "sys_reach P s0 s \<Longrightarrow> all_asking sysconf s0 \<Longrightarrow> all_asking sysconf s"
  by (induction rule: sys_reach.induct) (auto dest: all_asking_step)

text \<open>
  C39: all threads of a process agree on the page size: however the first calls race and whatever
  the system answers each of them, every call that returns a size returns the one in the cell, so
  any two sizes returned are equal.
\<close>

theorem page_size_agreed:
  assumes "\<And>t. threads s0 t = get_pagesize sysconf Return" "sys_reach P s0 s" "threads s t = Return (Inr n)"
  shows "size_cell (shared s) = Some n"
proof -
  have "all_asking sysconf s0" using assms(1) by (simp add: all_asking_def asking.intros(1))
  with assms(2) have "all_asking sysconf s" by (rule all_asking_reach)
  then have "asking sysconf (size_cell (shared s)) (threads s t)" by (simp add: all_asking_def)
  with assms(3) show ?thesis by (simp add: asking_Return get_pagesize_def world_call_def get_or_init_def)
qed

text \<open>Two threads race; the system reports two different sizes to them.\<close>

definition two_askers :: "(unit, bool page_state, unit pagesize_error + nat, wake_state) sys" where
  "two_askers = \<lparr>threads = (\<lambda>_. get_pagesize (\<lambda>b. (Inr (Some (if b then 4096 else 8192)), True)) Return), asleep = (\<lambda>_. False), cell = (),
     shared = \<lparr>size_cell = None, system = False\<rparr>, lib = \<lparr>wk_holder = None, wk_sleeping = [], wk_woken = []\<rparr>\<rparr>"

lemma two_askers_run:
  "\<exists>s. run_schedule [(0, Go), (1, Go), (0, Go), (1, Go), (1, Go), (0, Go)] two_askers = Some s \<and>
     threads s 0 = Return (Inr 4096) \<and> threads s 1 = Return (Inr 4096)"
  by (simp add: two_askers_def get_pagesize_def get_or_init_def world_call_def move_in_def set_thread_def usize_try_from_def)

theorem page_size_agreed_witness:
  "\<exists>s. sys_reach wake_pthread two_askers s \<and> size_cell (shared s) = Some 4096"
proof -
  obtain s where s: "sys_reach wake_pthread two_askers s" "threads s 0 = Return (Inr 4096)"
    using two_askers_run run_schedule_reach by blast
  from page_size_agreed [OF _ s] s(1) show ?thesis by (auto simp: two_askers_def)
qed

end
