(* ===== verification/Shmem_Safe.thy ===== *)
theory Shmem_Safe
  imports Prelude
begin

text \<open>
  \<open>src/shmem_safe.rs\<close>, with the implementations in \<open>allocator.rs\<close>, \<open>mutex.rs\<close>, \<open>condvar.rs\<close> and
  \<open>channel.rs\<close>: which types may be sent between processes. The marker trait has no code; its
  \<open>impl\<close> items are the rules of a predicate on types. \<open>Foreign\<close> stands for every type the crate
  has no rule for (floats, strings, references to heap containers and so on).
\<close>

section \<open>Types\<close>

datatype prim = U8 | U16 | U32 | U64 | U128 | Usize | I8 | I16 | I32 | I64 | I128 | Isize | Char | Bool







section \<open>What a safe type is made of\<close>






end
