(* ===== verification/Unit_Tests.thy ===== *)
theory Unit_Tests
  imports Chunks_Guarantees
begin

text \<open>
  The crate's own tests of its sequential components, as programs of the model: the
  \<open>#[quickcheck]\<close> and \<open>#[test]\<close> functions of \<open>free_chunk.rs\<close>, \<open>chunks.rs\<close> and
  \<open>sorted_vec.rs\<close>. Where a test draws its input (quickcheck arguments, \<open>rand\<close>), the theorems
  below range over everything that can be drawn, so that a test that samples becomes a statement
  about all runs. The random test of the free-space manager has an input on which it fails:
  \<open>random_actions_can_fail\<close>.
\<close>

section \<open>free_chunk.rs\<close>

text \<open>\<open>quickcheck::TestResult\<close>: \<open>discard()\<close>, \<open>from_bool(b)\<close> and \<open>passed()\<close>, which is \<open>from_bool(true)\<close>.\<close>

datatype test_result = Discard | Verdict bool

definition test_same :: "profile \<Rightarrow> nat \<Rightarrow> nat \<Rightarrow> test_result exec" where
  "test_same p b n =
     (if n = 0 then Done Discard
      else exec_bind (free_space_new p (RelativeBeginning b) n) (\<lambda>chunk.
        exec_bind (are_contiguous p chunk chunk) (\<lambda>r. Done (Verdict (\<not> r)))))"

definition test_contiguous :: "profile \<Rightarrow> nat \<Rightarrow> nat \<Rightarrow> test_result exec" where
  "test_contiguous p b count1 =
     (if count1 = 0 then Done Discard
      else exec_bind (free_space_new p (RelativeBeginning b) count1) (\<lambda>chunk1.
        exec_bind (usize_add p b count1) (\<lambda>b2.
          exec_bind (free_space_new p (RelativeBeginning b2) 10) (\<lambda>chunk2.
            exec_bind (are_contiguous p chunk1 chunk2) (\<lambda>r. Done (Verdict r))))))"

definition test_non_contiguous :: "profile \<Rightarrow> nat \<Rightarrow> nat \<Rightarrow> nat \<Rightarrow> test_result exec" where
  "test_non_contiguous p b n additional_shift =
     (if n = 0 \<or> additional_shift = 0 then Done Discard
      else exec_bind (free_space_new p (RelativeBeginning b) n) (\<lambda>chunk1.
        exec_bind (usize_add p b n) (\<lambda>e.
          exec_bind (usize_add p e additional_shift) (\<lambda>b2.
            exec_bind (free_space_new p (RelativeBeginning b2) 10) (\<lambda>chunk2.
              exec_bind (are_contiguous p chunk1 chunk2) (\<lambda>r. Done (Verdict (\<not> r))))))))"

definition test_check_contiguous :: "profile \<Rightarrow> unit exec" where
  "test_check_contiguous p =
     exec_bind (free_space_new p (RelativeBeginning 0) 3) (\<lambda>first.
       exec_bind (free_space_new p (RelativeBeginning 3) 10) (\<lambda>second.
         exec_bind (free_space_new p (RelativeBeginning 14) 10) (\<lambda>third.
           exec_bind (are_contiguous p first second) (\<lambda>r1.
             exec_bind (assert_exec r1) (\<lambda>_.
               exec_bind (are_contiguous p second third) (\<lambda>r2. assert_exec (\<not> r2)))))))"

definition test_split :: "profile \<Rightarrow> nat \<Rightarrow> test_result exec" where
  "test_split p n =
     (if n = 0 then Done Discard
      else exec_bind (free_space_new p (RelativeBeginning 0) n) (\<lambda>first.
        exec_bind (free_space_split p first n) (\<lambda>(new, free).
          exec_bind (assert_exec (new = first)) (\<lambda>_.
            exec_bind (assert_exec (free = None)) (\<lambda>_.
              exec_bind (exec_fold (\<lambda>_ required.
                exec_bind (free_space_split p first required) (\<lambda>(new, free).
                  exec_bind (expect free) (\<lambda>free.
                    exec_bind (assert_exec (relative_beginning first = relative_beginning new)) (\<lambda>_.
                      exec_bind (are_contiguous p new free) (\<lambda>r.
                        exec_bind (assert_exec r) (\<lambda>_.
                          exec_bind (usize_add p (fs_count new) (fs_count free)) (\<lambda>s.
                            assert_exec (s = n)))))))) () [1 ..< n])
                (\<lambda>_. Done (Verdict True)))))))"

text \<open>Wrapping twice is wrapping once, and a shift below the word size never wraps to nothing.\<close>

lemma usize_add_wrapping:
  "\<not> overflow_checks p \<Longrightarrow> usize_add p a b = Done ((a + b) mod usize_bound)"
  by (simp add: usize_add_def)

lemma usize_add_overflow:
  "overflow_checks p \<Longrightarrow> usize_bound \<le> a + b \<Longrightarrow> usize_add p a b = Panicked Arithmetic_overflow"
  by (simp add: usize_add_def)

lemma shift_mod_differs:
  assumes "0 < k" "k < m"
  shows "(a + k) mod m \<noteq> a mod (m :: nat)"
proof
  assume "(a + k) mod m = a mod m"
  then have "m dvd k" using mod_eq_dvd_iff_nat [of a "a + k" m] by simp
  with assms show False by (auto dest: nat_dvd_not_less)
qed

text \<open>
  The property tests pass on every pair of \<open>usize\<close> values, wrapping included; only a build with
  overflow checks panics, and only when the end of the interval is no \<open>usize\<close>.
\<close>

lemma test_same_eq:
  assumes "0 < n" "b < usize_bound" "n < usize_bound"
  shows "test_same p b n =
    (if overflow_checks p \<and> usize_bound \<le> b + n then Panicked Arithmetic_overflow else Done (Verdict True))"
  using assms shift_mod_differs [of n usize_bound b]
  by (cases "overflow_checks p")
    (auto simp: test_same_def are_contiguous_def rb_add_def usize_add_def not_less)

lemma test_contiguous_eq:
  assumes "0 < n"
  shows "test_contiguous p b n =
    (if overflow_checks p \<and> usize_bound \<le> b + n then Panicked Arithmetic_overflow else Done (Verdict True))"
  using assms
  by (cases "overflow_checks p")
    (auto simp: test_contiguous_def are_contiguous_def rb_add_def usize_add_def not_less)

lemma test_non_contiguous_eq:
  assumes "0 < n" "0 < k" "k < usize_bound"
  shows "test_non_contiguous p b n k =
    (if overflow_checks p \<and> usize_bound \<le> b + n + k then Panicked Arithmetic_overflow else Done (Verdict True))"
proof (cases "overflow_checks p")
  case True
  then show ?thesis using assms
    by (auto simp: test_non_contiguous_def are_contiguous_def rb_add_def usize_add_def)
next
  case False
  then show ?thesis using assms shift_mod_differs [of k usize_bound "b + n"]
    by (simp add: test_non_contiguous_def are_contiguous_def rb_add_def usize_add_wrapping mod_add_left_eq)
qed

lemma test_check_contiguous_eq: "test_check_contiguous p = Done ()"
  by (simp add: test_check_contiguous_def usize_bound_def)

lemma test_split_eq:
  assumes "0 < n" "n < usize_bound"
  shows "test_split p n = Done (Verdict True)"
proof -
  let ?f = "FreeSpace (RelativeBeginning 0) n"
  have "free_space_split p ?f n = Done (?f, None)"
    using free_space_split_all [of p ?f] by simp
  moreover have "free_space_split p ?f r = Done (FreeSpace (RelativeBeginning 0) r,
      Some (FreeSpace (RelativeBeginning r) (n - r)))" if "1 \<le> r" "r < n" for r
    using free_space_split_part [of r ?f p] that assms by simp
  ultimately show ?thesis using assms
    by (simp add: test_split_def exec_fold_unit)
qed

section \<open>sorted_vec.rs\<close>

text \<open>\<open>Result::unwrap\<close>.\<close>

definition unwrap_result :: "'e + 'a \<Rightarrow> 'a exec" where
  "unwrap_result r = (case r of Inl e \<Rightarrow> Panicked Expect_failed | Inr x \<Rightarrow> Done x)"

definition test_sorted_vec :: "(nat, 'v, 'e) vec_lib \<Rightarrow> nat list \<Rightarrow> unit exec" where
  "test_sorted_vec L original =
     exec_bind (unwrap_result (fsv_new L (length original))) (\<lambda>v.
       exec_bind (exec_fold (fsv_push L) v original) (\<lambda>v.
         assert_exec (vec_slice L v = sort original)))"

lemma test_sorted_vec_eq:
  assumes "vec_laws L" "vec_with_capacity_in L (length original) = Inr v"
  shows "test_sorted_vec L original = Done ()"
proof -
  have v: "fsv_inv L v" "vec_slice L v = []" "length original \<le> vec_capacity L v"
    using fsv_new_inv [OF assms(1)] assms(2) by (auto simp: fsv_new_def)
  then obtain v' where "exec_fold (fsv_push L) v original = Done v'" "vec_slice L v' = sort original"
    using fsv.push_all [of L v original] by auto
  then show ?thesis using assms(2) by (simp add: test_sorted_vec_def unwrap_result_def fsv_new_def)
qed

section \<open>chunks.rs\<close>

text \<open>
  The test build. Under \<open>cfg(test)\<close> the insertion ends with \<open>self_check\<close>, except on its early return
  for the empty list; \<open>get\<close> calls that insertion.
\<close>

definition insert_chunk_and_merge_checked :: "profile \<Rightarrow> (free_space, 'v, 'e) vec_lib \<Rightarrow> 'v chunks \<Rightarrow>
    free_space \<Rightarrow> 'v chunks exec" where
  "insert_chunk_and_merge_checked p L c chunk =
     (if vec_slice L (free_chunks c) = [] then insert_chunk_and_merge p L c chunk
      else exec_bind (insert_chunk_and_merge p L c chunk) (\<lambda>c'.
        exec_bind (chunks_self_check p L c') (\<lambda>_. Done c')))"

definition chunks_get_checked :: "profile \<Rightarrow> (free_space, 'v, 'e) vec_lib \<Rightarrow> 'v chunks \<Rightarrow> nat \<Rightarrow>
    (free_space option \<times> 'v chunks) exec" where
  "chunks_get_checked p L c sz =
     (case required_chunks sz of
        None \<Rightarrow> Done (None, c)
      | Some required \<Rightarrow>
          let xs = vec_slice L (free_chunks c);
              idx = slice_lower_bound_by L xs (\<lambda>f. usize_cmp (fs_count f) required)
          in if length xs \<le> idx then Done (None, c)
             else exec_bind (fsv_pop L (free_chunks c) idx) (\<lambda>(space, v).
               exec_bind (free_space_split p space required) (\<lambda>(space, unused).
                 case unused of
                   None \<Rightarrow> Done (Some space, c\<lparr>free_chunks := v\<rparr>)
                 | Some rest \<Rightarrow>
                     exec_bind (insert_chunk_and_merge_checked p L (c\<lparr>free_chunks := v\<rparr>) rest)
                       (\<lambda>c'. Done (Some space, c')))))"

text \<open>Where the result is well formed the check is silent.\<close>

lemma insert_checked:
  "insert_chunk_and_merge p L c f = Done c' \<Longrightarrow> chunks_inv L n c' \<Longrightarrow>
     insert_chunk_and_merge_checked p L c f = Done c'"
  using chunks_self_check_ok [of L n c' p] by (simp add: insert_chunk_and_merge_checked_def)

lemma get_checked:
  assumes "chunks_get p L c sz = Done (r, c')" "chunks_inv L n c'"
  shows "chunks_get_checked p L c sz = Done (r, c')"
proof (cases "required_chunks sz")
  case None
  then show ?thesis using assms by (simp add: chunks_get_def chunks_get_checked_def)
next
  case (Some m)
  let ?i = "slice_lower_bound_by L (vec_slice L (free_chunks c)) (\<lambda>f. usize_cmp (fs_count f) m)"
  show ?thesis
  proof (cases "length (vec_slice L (free_chunks c)) \<le> ?i")
    case True
    then show ?thesis using assms Some by (simp add: chunks_get_def chunks_get_checked_def)
  next
    case False
    with assms(1) Some obtain g v f u where
      "fsv_pop L (free_chunks c) ?i = Done (g, v)" "free_space_split p g m = Done (f, u)"
      by (auto simp: chunks_get_def Let_def)
    then show ?thesis
      using assms insert_checked [OF _ assms(2)] False Some
      by (cases u) (auto simp: chunks_get_def chunks_get_checked_def Let_def)
  qed
qed

definition test_initial :: "profile \<Rightarrow> (free_space, 'v, 'e) vec_lib \<Rightarrow> unit exec" where
  "test_initial p L =
     exec_bind (exec_bind (chunks_new p L 10) unwrap_result) (\<lambda>c.
       exec_bind (assert_exec (length (vec_slice L (free_chunks c)) = 1)) (\<lambda>_.
         exec_bind (chunks_free_space p L c) (\<lambda>n.
           exec_bind (usize_mul p 10 CHUNK_SIZE) (\<lambda>m. assert_exec (n = m)))))"

definition test_find_free :: "profile \<Rightarrow> (free_space, 'v, 'e) vec_lib \<Rightarrow> unit exec" where
  "test_find_free p L =
     (let max_chunks = 10 in
      exec_bind (usize_mul p max_chunks CHUNK_SIZE) (\<lambda>total.
        exec_fold (\<lambda>_ sz.
          exec_bind (exec_bind (chunks_new p L max_chunks) unwrap_result) (\<lambda>c.
            exec_bind (chunks_get_checked p L c sz) (\<lambda>(r, c).
              case r of
                None \<Rightarrow> Panicked Explicit_panic
              | Some free_chunk \<Rightarrow>
                  exec_bind (usize_mul p (fs_count free_chunk) CHUNK_SIZE) (\<lambda>n.
                    exec_bind (assert_exec (sz \<le> n)) (\<lambda>_. chunks_self_check p L c))))) () [1 ..< total]))"

text \<open>
  \<open>rand::ThreadRng\<close> in a loop: what iteration \<open>i\<close> draws. \<open>gen_bool(0.5)\<close> is any boolean,
  \<open>gen_range(lo, hi)\<close> is documented to be in \<open>[lo, hi)\<close>.
\<close>

record rng =
  gen_bool :: "nat \<Rightarrow> bool"
  gen_range :: "nat \<Rightarrow> nat \<Rightarrow> nat \<Rightarrow> nat"

definition gen_range_law :: "rng \<Rightarrow> bool" where
  "gen_range_law R \<longleftrightarrow> (\<forall>i lo hi. lo < hi \<longrightarrow> lo \<le> gen_range R i lo hi \<and> gen_range R i lo hi < hi)"

text \<open>One iteration of \<open>random_actions\<close>; the state is the manager and \<open>taken_away\<close>.\<close>

definition random_action :: "profile \<Rightarrow> (free_space, 'v, 'e) vec_lib \<Rightarrow> rng \<Rightarrow> nat \<Rightarrow>
    'v chunks \<times> free_space list \<Rightarrow> nat \<Rightarrow> ('v chunks \<times> free_space list) exec" where
  "random_action p L R max_chunks = (\<lambda>(c, taken_away) i.
     if gen_bool R i then
       exec_bind (usize_mul p max_chunks CHUNK_SIZE) (\<lambda>total.
         let sz = gen_range R i 0 total in
         exec_bind (chunks_free_space p L c) (\<lambda>free.
           exec_bind (chunks_get_checked p L c sz) (\<lambda>(maybe_chunk, c).
             if sz \<le> free then
               exec_bind (expect maybe_chunk) (\<lambda>chunk.
                 exec_bind (chunks_self_check p L c) (\<lambda>_. Done (c, taken_away @ [chunk])))
             else exec_bind (assert_exec (maybe_chunk = None)) (\<lambda>_. Done (c, taken_away)))))
     else if taken_away = [] then Done (c, taken_away)
     else
       let n = gen_range R i 0 (length taken_away) in
       if length taken_away \<le> n then Panicked Index_out_of_bounds
       else exec_bind (insert_chunk_and_merge_checked p L c (taken_away ! n)) (\<lambda>c.
         exec_bind (chunks_self_check p L c) (\<lambda>_. Done (c, list_remove_at taken_away n))))"

definition random_actions :: "profile \<Rightarrow> (free_space, 'v, 'e) vec_lib \<Rightarrow> rng \<Rightarrow> nat \<Rightarrow> nat \<Rightarrow> unit exec" where
  "random_actions p L R max_chunks iterations =
     exec_bind (exec_bind (chunks_new p L max_chunks) unwrap_result) (\<lambda>c.
       exec_bind (exec_fold (random_action p L R max_chunks) (c, []) [0 ..< iterations]) (\<lambda>_. Done ()))"

definition test_random_actions :: "profile \<Rightarrow> (free_space, 'v, 'e) vec_lib \<Rightarrow> rng \<Rightarrow> unit exec" where
  "test_random_actions p L R = random_actions p L R 1000 100000"

text \<open>A manager that has just been built, in the test's \<open>unwrap\<close>.\<close>

lemma unwrap_new:
  assumes "vec_laws L" "0 < n" "n < usize_bound" "vec_with_capacity_in L n = Inr v"
  obtains c where "exec_bind (chunks_new p L n) unwrap_result = Done c" "chunks_inv L n c"
    "vec_slice L (free_chunks c) = [FreeSpace rb_zero n]" "free_set L c = {0 ..< n}"
  using chunks_new_ok [OF assms(1-3), of p] assms(4)
  by (auto simp: unwrap_result_def free_set_def free_set_new simp del: free_cells_simps)

lemma test_initial_ok:
  assumes "vec_laws L" "vec_with_capacity_in L 10 = Inr v"
  shows "test_initial p L = Done ()"
proof -
  have b: "(10::nat) < usize_bound" "10 * CHUNK_SIZE < usize_bound"
    by (simp_all add: usize_bound_def CHUNK_SIZE_8)
  obtain c where "exec_bind (chunks_new p L 10) unwrap_result = Done c"
    "vec_slice L (free_chunks c) = [FreeSpace rb_zero 10]"
    using assms b by (auto elim: unwrap_new [of L 10 v p])
  then show ?thesis using b by (simp add: test_initial_def chunks_free_space_def Let_def del: exec_bind_eq_Done)
qed

lemma test_find_free_ok:
  assumes "vec_laws L" "vec_with_capacity_in L 10 = Inr v"
  shows "test_find_free p L = Done ()"
proof -
  have b: "(10::nat) < usize_bound" "10 * CHUNK_SIZE < usize_bound"
    by (simp_all add: usize_bound_def CHUNK_SIZE_8)
  obtain c where c: "exec_bind (chunks_new p L 10) unwrap_result = Done c" "chunks_inv L 10 c"
    "free_set L c = {0 ..< 10}"
    using assms b by (auto elim: unwrap_new [of L 10 v p])
  have "\<exists>f c'. chunks_get_checked p L c sz = Done (Some f, c') \<and> usize_mul p (fs_count f) CHUNK_SIZE = Done (fs_count f * CHUNK_SIZE)
      \<and> sz \<le> fs_count f * CHUNK_SIZE \<and> chunks_self_check p L c' = Done ()" if "1 \<le> sz" "sz < 10 * CHUNK_SIZE" for sz
  proof -
    have s: "0 < sz" "sz < usize_bound" using that b by simp_all
    have le: "chunks_of sz \<le> 10" using that chunks_of_enough(2) [of sz] by (simp add: CHUNK_SIZE_8)
    obtain f c' where f: "chunks_get p L c sz = Done (Some f, c')" "chunks_inv L 10 c'" "fs_count f = chunks_of sz"
      using chunks_get_some [OF c(2) s, of 0 p] le c(3) by auto
    moreover have "chunks_of sz * CHUNK_SIZE < usize_bound" using le by (simp add: CHUNK_SIZE_8 usize_bound_def)
    ultimately show ?thesis
      using get_checked [OF f(1,2)] chunks_self_check_ok [OF f(2), of p] chunks_of_enough(1) [of sz] by simp
  qed
  then show ?thesis using b c(1)
    by (fastforce simp: test_find_free_def intro!: exec_fold_unit)
qed

section \<open>The random test\<close>

text \<open>
  The loop invariant: the manager is well formed, and the intervals taken away are non-empty, in
  range, pairwise disjoint and not free.
\<close>

definition taken_inv :: "(free_space, 'v, 'e) vec_lib \<Rightarrow> nat \<Rightarrow> 'v chunks \<times> free_space list \<Rightarrow> bool" where
  "taken_inv L n = (\<lambda>(c, taken). chunks_inv L n c \<and>
     (\<forall>f \<in> set taken. 0 < fs_count f \<and> fs_end f \<le> n \<and> cells f \<inter> free_set L c = {}) \<and>
     sorted_wrt (\<lambda>f g. cells f \<inter> cells g = {}) taken)"

lemma taken_inv_take:
  assumes "taken_inv L n (c, taken)" "chunks_inv L n c'" "0 < fs_count f"
    and "cells f \<subseteq> free_set L c" "free_set L c' = free_set L c - cells f"
  shows "taken_inv L n (c', taken @ [f])"
proof -
  have "cells f \<subseteq> {0 ..< n}"
    using assms(1,4) cm.free_limit [of L n c] by (auto simp: taken_inv_def)
  then have "fs_end f \<le> n"
    using assms(3) by (auto simp: cells_def)
  with assms show ?thesis by (fastforce simp: taken_inv_def sorted_wrt_append)
qed

lemma taken_inv_give:
  assumes "taken_inv L n (c, taken)" "i < length taken" "chunks_inv L n c'"
    and "free_set L c' = cells (taken ! i) \<union> free_set L c"
  shows "taken_inv L n (c', list_remove_at taken i)"
proof -
  have dec: "taken = take i taken @ taken ! i # drop (Suc i) taken"
    using assms(2) by (rule id_take_nth_drop)
  have "sorted_wrt (\<lambda>f g. cells f \<inter> cells g = {}) (take i taken @ taken ! i # drop (Suc i) taken)"
    using assms(1) dec by (simp add: taken_inv_def)
  then have w: "sorted_wrt (\<lambda>f g. cells f \<inter> cells g = {}) (list_remove_at taken i)"
    "\<forall>f \<in> set (list_remove_at taken i). cells f \<inter> cells (taken ! i) = {}"
    by (auto simp: list_remove_at_def sorted_wrt_append)
  have "set (list_remove_at taken i) \<subseteq> set taken"
    by (auto simp: list_remove_at_def dest: in_set_takeD in_set_dropD)
  with assms w show ?thesis by (fastforce simp: taken_inv_def)
qed

text \<open>\<open>free_space()\<close> is what decides whether \<open>get\<close> answers, for every size but zero.\<close>

lemma get_decided:
  assumes inv: "chunks_inv L n c" "n * CHUNK_SIZE < usize_bound" and sz: "0 < sz" "sz < usize_bound"
  obtains m where "chunks_free_space p L c = Done m"
    "m < sz \<longrightarrow> chunks_get p L c sz = Done (None, c)"
    "sz \<le> m \<longrightarrow> (\<exists>f c'. chunks_get p L c sz = Done (Some f, c') \<and> chunks_inv L n c' \<and>
      fs_count f = chunks_of sz \<and> cells f \<subseteq> free_set L c \<and> free_set L c' = free_set L c - cells f)"
proof -
  let ?xs = "vec_slice L (free_chunks c)"
  obtain m where m: "chunks_free_space p L c = Done (m * CHUNK_SIZE)" "\<forall>f \<in> set ?xs. fs_count f \<le> m"
    "0 < m \<longrightarrow> (\<exists>f \<in> set ?xs. fs_count f = m)"
    by (rule chunks_free_space_eq [OF inv, of p]) blast
  have le: "sz \<le> m * CHUNK_SIZE \<longleftrightarrow> chunks_of sz \<le> m"
    by (auto simp: chunks_of_def CHUNK_SIZE_8)
  show thesis
  proof (rule that [OF m(1)]; intro impI)
    assume "m * CHUNK_SIZE < sz"
    then have lt: "m < chunks_of sz" using le by simp
    have "\<not> {b ..< b + chunks_of sz} \<subseteq> free_set L c" for b
    proof
      assume "{b ..< b + chunks_of sz} \<subseteq> free_set L c"
      then obtain f where "f \<in> set ?xs" "{b ..< b + chunks_of sz} \<subseteq> cells f"
        using run_in_one_interval [of n ?xs "chunks_of sz" b] inv(1) sz
        by (auto simp: chunks_inv_def free_set_def)
      then have "chunks_of sz \<le> m" using m(2) card_mono [of "cells f" "{b ..< b + chunks_of sz}"] by fastforce
      with lt show False by simp
    qed
    then show "chunks_get p L c sz = Done (None, c)" using chunks_get_none [OF inv(1) sz] by blast
  next
    assume "sz \<le> m * CHUNK_SIZE"
    then have ge: "chunks_of sz \<le> m" using le by simp
    have "0 < m" using ge chunks_of_pos [of sz] sz(1) by linarith
    with m(3) obtain f where f: "f \<in> set ?xs" "fs_count f = m" by auto
    have "{fs_begin f ..< fs_begin f + chunks_of sz} \<subseteq> free_set L c"
      using cells_subset_free [OF f(1)] f(2) ge by (auto simp: free_set_def cells_def)
    then show "\<exists>f c'. chunks_get p L c sz = Done (Some f, c') \<and> chunks_inv L n c' \<and>
        fs_count f = chunks_of sz \<and> cells f \<subseteq> free_set L c \<and> free_set L c' = free_set L c - cells f"
      using chunks_get_some [OF inv(1) sz] by blast
  qed
qed

text \<open>One action keeps the invariant and never fails, unless the size drawn is zero.\<close>

lemma random_action_ok:
  assumes inv: "taken_inv L n (c, taken)" and n: "0 < n" "n * CHUNK_SIZE < usize_bound" and R: "gen_range_law R"
    and pos: "gen_bool R i \<Longrightarrow> gen_range R i 0 (n * CHUNK_SIZE) \<noteq> 0"
  shows "\<exists>s'. random_action p L R n (c, taken) i = Done s' \<and> taken_inv L n s'"
proof (cases "gen_bool R i")
  case True
  let ?sz = "gen_range R i 0 (n * CHUNK_SIZE)"
  have "?sz < n * CHUNK_SIZE" using R n(1) by (simp add: gen_range_law_def CHUNK_SIZE_8)
  then have sz: "0 < ?sz" "?sz < usize_bound" using pos True n(2) by simp_all
  have ci: "chunks_inv L n c" using inv by (simp add: taken_inv_def)
  obtain m where m: "chunks_free_space p L c = Done m"
    "m < ?sz \<longrightarrow> chunks_get p L c ?sz = Done (None, c)"
    "?sz \<le> m \<longrightarrow> (\<exists>f c'. chunks_get p L c ?sz = Done (Some f, c') \<and> chunks_inv L n c' \<and>
      fs_count f = chunks_of ?sz \<and> cells f \<subseteq> free_set L c \<and> free_set L c' = free_set L c - cells f)"
    by (rule get_decided [OF ci n(2) sz, of p])
  show ?thesis
  proof (cases "?sz \<le> m")
    case True
    with m(3) obtain f c' where f: "chunks_get p L c ?sz = Done (Some f, c')" "chunks_inv L n c'"
      "fs_count f = chunks_of ?sz" "cells f \<subseteq> free_set L c" "free_set L c' = free_set L c - cells f"
      by blast
    then have "taken_inv L n (c', taken @ [f])"
      using taken_inv_take [OF inv f(2) _ f(4,5)] sz by simp
    then show ?thesis
      using \<open>gen_bool R i\<close> True m(1) n(2) get_checked [OF f(1,2)] chunks_self_check_ok [OF f(2), of p]
      by (simp add: random_action_def Let_def)
  next
    case False
    then have "chunks_get_checked p L c ?sz = Done (None, c)"
      using get_checked [of p L c ?sz None c n] m(2) ci by simp
    then show ?thesis
      using \<open>gen_bool R i\<close> False m(1) n(2) inv by (simp add: random_action_def Let_def)
  qed
next
  case False
  show ?thesis
  proof (cases "taken = []")
    case True
    with False inv show ?thesis by (simp add: random_action_def)
  next
    case nonempty: False
    let ?i = "gen_range R i 0 (length taken)"
    have i: "?i < length taken" using R nonempty by (simp add: gen_range_law_def)
    then have "taken ! ?i \<in> set taken" by simp
    with inv obtain c' where c': "insert_chunk_and_merge p L c (taken ! ?i) = Done c'" "chunks_inv L n c'"
      "free_set L c' = cells (taken ! ?i) \<union> free_set L c"
      using insert_chunk_and_merge_ok [of L n c "taken ! ?i" p] by (auto simp: taken_inv_def)
    then show ?thesis
      using False nonempty i insert_checked [OF c'(1,2)] chunks_self_check_ok [OF c'(2), of p]
        taken_inv_give [OF inv i c'(2,3)]
      by (simp add: random_action_def Let_def)
  qed
qed

lemma random_actions_fold:
  assumes "0 < n" "n * CHUNK_SIZE < usize_bound" "gen_range_law R"
    and "\<forall>i \<in> set is. gen_bool R i \<longrightarrow> gen_range R i 0 (n * CHUNK_SIZE) \<noteq> 0" "taken_inv L n s"
  shows "\<exists>s'. exec_fold (random_action p L R n) s is = Done s' \<and> taken_inv L n s'"
  using assms(4,5)
proof (induction "is" arbitrary: s)
  case (Cons i "is")
  obtain c taken where s: "s = (c, taken)" by (cases s)
  obtain s1 where "random_action p L R n s i = Done s1" "taken_inv L n s1"
    using random_action_ok [OF _ assms(1-3), of L c taken i p] Cons.prems s by auto
  with Cons show ?case by simp
qed simp

section \<open>The tests as theorems\<close>

text \<open>
  Every property test of the free intervals holds for all arguments: on \<open>usize\<close> values the
  quickcheck functions discard, return a passing verdict, or, in a build with overflow
  checks only, stop on the overflow of the very sum they form.
\<close>

theorem free_chunk_quickchecks:
  assumes "b < usize_bound" "n < usize_bound" "k < usize_bound"
  shows "(test_same p b n = (if n = 0 then Done Discard
      else if overflow_checks p \<and> usize_bound \<le> b + n then Panicked Arithmetic_overflow else Done (Verdict True)))
    \<and> (test_contiguous p b n = (if n = 0 then Done Discard
      else if overflow_checks p \<and> usize_bound \<le> b + n then Panicked Arithmetic_overflow else Done (Verdict True)))
    \<and> (test_non_contiguous p b n k = (if n = 0 \<or> k = 0 then Done Discard
      else if overflow_checks p \<and> usize_bound \<le> b + n + k then Panicked Arithmetic_overflow else Done (Verdict True)))
    \<and> test_check_contiguous p = Done ()
    \<and> test_split p n = (if n = 0 then Done Discard else Done (Verdict True))"
proof (intro conjI)
  show "test_same p b n = (if n = 0 then Done Discard
      else if overflow_checks p \<and> usize_bound \<le> b + n then Panicked Arithmetic_overflow else Done (Verdict True))"
    using test_same_eq [of n b p] assms by (cases "n = 0") (auto simp: test_same_def)
  show "test_contiguous p b n = (if n = 0 then Done Discard
      else if overflow_checks p \<and> usize_bound \<le> b + n then Panicked Arithmetic_overflow else Done (Verdict True))"
    using test_contiguous_eq [of n p b] by (cases "n = 0") (auto simp: test_contiguous_def)
  show "test_non_contiguous p b n k = (if n = 0 \<or> k = 0 then Done Discard
      else if overflow_checks p \<and> usize_bound \<le> b + n + k then Panicked Arithmetic_overflow else Done (Verdict True))"
    using test_non_contiguous_eq [of n k p b] assms
    by (cases "n = 0 \<or> k = 0") (auto simp: test_non_contiguous_def)
  show "test_check_contiguous p = Done ()" by (rule test_check_contiguous_eq)
  show "test_split p n = (if n = 0 then Done Discard else Done (Verdict True))"
    using test_split_eq [of n p] assms by (cases "n = 0") (auto simp: test_split_def)
qed

theorem free_chunk_quickchecks_witness:
  "test_same dev_profile (2 ^ 64 - 1) 1 = Panicked Arithmetic_overflow \<and>
   test_non_contiguous release_profile (2 ^ 64 - 1) 1 1 = Done (Verdict True)"
  using free_chunk_quickchecks [of "2 ^ 64 - 1" 1 1]
  by (simp add: usize_bound_def dev_profile_def release_profile_def)

text \<open>
  C12: The free-space manager passes its randomised test on every run: for every sequence of draws in
  which no size is zero, every number of iterations and every lawful vector, all the unwraps,
  assertions and self checks of \<open>random_actions\<close> succeed.
\<close>

theorem random_actions_pass:
  assumes "vec_laws L" "0 < n" "n * CHUNK_SIZE < usize_bound" "gen_range_law R"
    and "\<forall>i < iterations. gen_bool R i \<longrightarrow> gen_range R i 0 (n * CHUNK_SIZE) \<noteq> 0"
  shows "(\<exists>e. vec_with_capacity_in L n = Inl e \<and> random_actions p L R n iterations = Panicked Expect_failed) \<or>
    random_actions p L R n iterations = Done ()"
proof (cases "vec_with_capacity_in L n")
  case (Inl e)
  then show ?thesis by (simp add: random_actions_def chunks_new_def fsv_new_def unwrap_result_def)
next
  case (Inr v)
  have b: "n < usize_bound" using assms(3) by (simp add: CHUNK_SIZE_8)
  obtain c where c: "exec_bind (chunks_new p L n) unwrap_result = Done c" "chunks_inv L n c"
    by (rule unwrap_new [OF assms(1,2) b Inr, of p])
  then have "taken_inv L n (c, [])" by (simp add: taken_inv_def)
  then obtain s' where "exec_fold (random_action p L R n) (c, []) [0 ..< iterations] = Done s'"
    using random_actions_fold [OF assms(2-4), of "[0 ..< iterations]" L "(c, [])" p] assms(5) by auto
  with c(1) show ?thesis by (simp add: random_actions_def del: exec_bind_eq_Done)
qed

definition sample_rng :: rng where
  "sample_rng = \<lparr>gen_bool = (\<lambda>i. i mod 3 \<noteq> 2), gen_range = (\<lambda>i lo hi. hi - 1)\<rparr>"

theorem random_actions_pass_witness:
  "test_random_actions dev_profile list_vec sample_rng = Done ()"
proof -
  have "gen_range_law sample_rng" by (auto simp: gen_range_law_def sample_rng_def)
  moreover have "\<forall>i < 100000. gen_bool sample_rng i \<longrightarrow> gen_range sample_rng i 0 (1000 * CHUNK_SIZE) \<noteq> 0"
    by (simp add: sample_rng_def CHUNK_SIZE_8)
  ultimately show ?thesis
    using random_actions_pass [OF list_vec_laws, of 1000 sample_rng 100000 dev_profile]
    by (simp add: test_random_actions_def CHUNK_SIZE_8 usize_bound_def)
qed

definition unlucky_rng :: rng where
  "unlucky_rng = \<lparr>gen_bool = (\<lambda>i. True), gen_range = (\<lambda>i lo hi. if i = 0 then hi - 1 else lo)\<rparr>"

text \<open>
  C3: The randomised test of the free-space manager can fail although the manager is correct: after
  a draw that takes everything, drawing the size zero satisfies \<open>size <= free_space\<close>, \<open>get(0)\<close>
  finds no interval at all, and the test unwraps the \<open>None\<close>.
\<close>

theorem random_actions_can_fail:
  "gen_range_law unlucky_rng \<and> test_random_actions p list_vec unlucky_rng = Panicked Expect_failed"
proof -
  have upt: "2 < n \<Longrightarrow> [0 ..< n] = 0 # 1 # [2 ..< n]" for n :: nat
    by (simp add: upt_conv_Cons numeral_2_eq_2)
  have full: "random_action p list_vec unlucky_rng 1000 (\<lparr>free_chunks = (1000, [FreeSpace rb_zero 1000])\<rparr>, []) 0 =
      Done (\<lparr>free_chunks = (1000, [])\<rparr>, [FreeSpace rb_zero 1000])"
    by (simp add: random_action_def unlucky_rng_def chunks_free_space_def chunks_get_checked_def required_chunks_def
        CHUNK_SIZE_8 usize_bound_def usize_checked_add_def fsv_pop_def list_vec_def list_remove_at_def
        free_space_split_def usize_checked_sub_def chunks_self_check_def Let_def)
  have zero: "random_action p list_vec unlucky_rng 1000 (\<lparr>free_chunks = (1000, [])\<rparr>, [FreeSpace rb_zero 1000]) 1 =
      Panicked Expect_failed"
    by (simp add: random_action_def unlucky_rng_def chunks_free_space_def chunks_get_checked_def required_chunks_def
        CHUNK_SIZE_8 usize_bound_def Let_def)
  have "chunks_new p list_vec 1000 = Done (Inr \<lparr>free_chunks = (1000, [FreeSpace rb_zero 1000])\<rparr>)"
    by (simp add: chunks_new_def fsv_new_def fsv_push_def list_insert_at_def list_vec_def)
  then have "random_actions p list_vec unlucky_rng 1000 m = Panicked Expect_failed" if "2 < m" for m
    using full zero by (simp add: random_actions_def upt [OF that] unwrap_result_def)
  then have "test_random_actions p list_vec unlucky_rng = Panicked Expect_failed"
    by (simp add: test_random_actions_def)
  then show ?thesis by (auto simp: gen_range_law_def unlucky_rng_def)
qed

text \<open>
  The remaining sequential tests pass whenever their \<open>unwrap\<close> of the allocation does: the fresh
  manager has one interval of everything, every size below the total is found in it, and pushing
  any values into the sorted vector is sorting them.
\<close>

theorem chunk_tests_pass:
  assumes "vec_laws L" "vec_with_capacity_in L 10 = Inr v"
    and "vec_laws M" "vec_with_capacity_in M (length original) = Inr w"
  shows "test_initial p L = Done () \<and> test_find_free p L = Done () \<and> test_sorted_vec M original = Done ()"
  by (intro conjI test_initial_ok [OF assms(1,2)] test_find_free_ok [OF assms(1,2)] test_sorted_vec_eq [OF assms(3,4)])

theorem chunk_tests_pass_witness:
  "test_initial dev_profile list_vec = Done () \<and> test_find_free dev_profile list_vec = Done () \<and>
   test_sorted_vec list_vec [3, 1, 2] = Done ()"
  using chunk_tests_pass [OF list_vec_laws _ list_vec_laws] by simp

end
