(* ===== verification/Counter_Tests.thy ===== *)
theory Counter_Tests
  imports Channel_Guarantees
begin

text \<open>
  The crate's tests of the mutex and the condition variable: two threads, or two processes, that
  meet at a counter behind a mutex in memory they share. Thread 0 is the parent (or the main
  thread), thread 1 the child; both programs start where \<open>fork()\<close> or \<open>spawn\<close> has returned.
  \<open>thread::sleep\<close> promises nothing about the order of two threads, so it is no step here: the
  theorems say which assertions of the tests hold in every interleaving, and which of them only
  the sleeping makes likely.
  Every read and every increment of the counter is an event of its thread.
\<close>

section \<open>The counter\<close>

datatype count_event = Saw nat | Added

definition count_effect :: "(nat \<Rightarrow> bool) \<Rightarrow> nat \<Rightarrow> count_event \<Rightarrow> nat \<Rightarrow> bool" where
  "count_effect A d e d' \<longleftrightarrow> (case e of Saw x \<Rightarrow> x = d \<and> d' = d | Added \<Rightarrow> A d \<and> d' = Suc d mod usize_bound)"

lemma count_effect_simps [simp]:
  "count_effect A d (Saw x) d' \<longleftrightarrow> x = d \<and> d' = d" "count_effect A d Added d' \<longleftrightarrow> A d \<and> d' = Suc d mod usize_bound"
  by (simp_all add: count_effect_def)

text \<open>
  The contract of a thread: its histories are in \<open>H\<close>, it increments only values in \<open>A\<close>, ends with
  a history in \<open>Q\<close>, and fails an assertion only with a history in \<open>F\<close>.
\<close>

definition count_contract :: "(count_event list \<Rightarrow> bool) \<Rightarrow> (nat \<Rightarrow> bool) \<Rightarrow> (count_event list \<Rightarrow> bool) \<Rightarrow>
    (count_event list \<Rightarrow> bool) \<Rightarrow> (nat, 's, count_event, unit) contract" where
  "count_contract H A Q F = \<lparr>atomics = (\<lambda>_. True), res_inv = (\<lambda>_. True), effect = count_effect A, history = H, post = (\<lambda>_. Q),
     fault = (\<lambda>q h. q = Assertion_failed \<longrightarrow> F h)\<rparr>"

lemma count_contract_simps [simp]:
  "atomics (count_contract H A Q F) = (\<lambda>_. True)" "res_inv (count_contract H A Q F) = (\<lambda>_. True)" "effect (count_contract H A Q F) = count_effect A"
  "history (count_contract H A Q F) = H" "post (count_contract H A Q F) = (\<lambda>_. Q)"
  "fault (count_contract H A Q F) q h \<longleftrightarrow> (q = Assertion_failed \<longrightarrow> F h)"
  by (simp_all add: count_contract_def)

section \<open>The parts of the tests\<close>

text \<open>\<open>assert_eq!(*guard, x)\<close> and \<open>*guard += 1\<close>, through a guard that a panic drops.\<close>

definition assert_guard_eq :: "nat \<Rightarrow> (nat, 's, 'r) prog \<Rightarrow> (nat, 's, 'r) prog" where
  "assert_guard_eq x k = Access (\<lambda>d. d) (\<lambda>d. lift_exec unlock_and_panic (assert_exec (d = x)) (\<lambda>_. k))"

definition add_one :: "profile \<Rightarrow> (nat, 's, 'r) prog \<Rightarrow> (nat, 's, 'r) prog" where
  "add_one p k = access_exec unlock_and_panic
     (\<lambda>d. exec_bind (usize_add p d 1) (\<lambda>d'. Done ((), d'))) (\<lambda>_. k)"

text \<open>
  The end of the child, as the parent sees it: it has not ended, has returned, or has panicked.
  \<open>waitpid(child, None)\<close> waits for either, \<open>join().unwrap()\<close> panics when the thread did.
\<close>

type_synonym exit_state = "bool option"

definition wait_child :: "('d, exit_state, 'r) prog \<Rightarrow> ('d, exit_state, 'r) prog" where
  "wait_child k = Loop (\<lambda>_. Atomic (\<lambda>s. s) (\<lambda>s. case s of None \<Rightarrow> Continue 0 | Some ok \<Rightarrow> k)) 0"

definition join_child :: "(panic \<Rightarrow> ('d, exit_state, 'r) prog) \<Rightarrow> ('d, exit_state, 'r) prog \<Rightarrow> ('d, exit_state, 'r) prog" where
  "join_child unwind k = Loop (\<lambda>_. Atomic (\<lambda>s. s) (\<lambda>s. case s of
     None \<Rightarrow> Continue 0 | Some ok \<Rightarrow> if ok then k else unwind Expect_failed)) 0"

text \<open>\<open>on_panic u p\<close> runs \<open>u q\<close> where \<open>p\<close> leaves with the panic \<open>q\<close>.\<close>

primrec on_panic :: "(panic \<Rightarrow> ('d, 's, 'r) prog) \<Rightarrow> ('d, 's, 'r) prog \<Rightarrow> ('d, 's, 'r) prog" where
  "on_panic u (Return r) = Return r"
| "on_panic u (Panic q) = u q"
| "on_panic u (Continue m) = Continue m"
| "on_panic u (Loop b n) = Loop (\<lambda>m. on_panic u (b m)) n"
| "on_panic u (Weak k) = Weak (\<lambda>b. on_panic u (k b))"
| "on_panic u (Access w k) = Access w (\<lambda>d. on_panic u (k d))"
| "on_panic u (Exclusive w k) = Exclusive w (\<lambda>d. on_panic u (k d))"
| "on_panic u (Atomic w k) = Atomic w (\<lambda>s. on_panic u (k s))"
| "on_panic u (Pthread c k) = Pthread c (\<lambda>e. on_panic u (k e))"
| "on_panic u (Gettime c k) = Gettime c (\<lambda>r. on_panic u (k r))"
| "on_panic u (Instant_now k) = Instant_now (\<lambda>i. on_panic u (k i))"
| "on_panic u (Getpid k) = Getpid (\<lambda>i. on_panic u (k i))"

definition child_of :: "(('d, exit_state, unit) prog \<Rightarrow> ('d, exit_state, unit) prog) \<Rightarrow> ('d, exit_state, unit) prog" where
  "child_of body = on_panic (\<lambda>q. Atomic (\<lambda>_. Some False) (\<lambda>_. Panic q)) (body (Atomic (\<lambda>_. Some True) (\<lambda>_. Return ())))"

lemma safe_unlock_panic [safe_rules]:
  "(q = Assertion_failed \<Longrightarrow> F h) \<Longrightarrow> safe (count_contract H A Q F) (unlock_and_panic q) (Held d) h J"
  unfolding unlock_and_panic_def by (rule safe_guard_drop) simp_all

lemma safe_assert_guard_eq [safe_rules]:
  assumes "H (h @ [Saw d])" "d = x \<Longrightarrow> safe (count_contract H A Q F) k (Held d) (h @ [Saw d]) J"
    and "d \<noteq> x \<Longrightarrow> F (h @ [Saw d])"
  shows "safe (count_contract H A Q F) (assert_guard_eq x k) (Held d) h J"
  using assms unfolding assert_guard_eq_def unlock_and_panic_def guard_drop_def
  by (cases "d = x") (auto intro!: exI [of _ "Saw d"])

lemma safe_add_one [safe_rules]:
  assumes "A d" "H (h @ [Added])" "safe (count_contract H A Q F) k (Held (Suc d mod usize_bound)) (h @ [Added]) J"
  shows "safe (count_contract H A Q F) (add_one p k) (Held d) h J"
proof (cases "usize_add p d 1")
  case (Done d')
  then have "d' = Suc d mod usize_bound" by (auto simp: usize_add_def split: if_splits)
  then show ?thesis using Done assms unfolding add_one_def access_exec_def
    by (auto intro!: exI [of _ Added])
next
  case (Panicked q)
  then have "q \<noteq> Assertion_failed" by (auto simp: usize_add_def split: if_splits)
  then show ?thesis using Panicked unfolding add_one_def access_exec_def
    by (auto intro!: disjI1 safe_unlock_panic)
qed (simp add: usize_add_def split: if_splits)

lemma safe_wait_child [safe_rules]:
  assumes "safe_top C k v h"
  shows "safe C (wait_child k) v h J"
  unfolding wait_child_def safe.simps
  by (rule exI [of _ "\<lambda>_ v' h'. v' = v \<and> h' = h"]) (simp add: safe_from_top [OF assms] split: option.split)

lemma safe_join_child [safe_rules]:
  assumes "safe_top C k v h" "safe_top C (unwind Expect_failed) v h"
  shows "safe C (join_child unwind k) v h J"
  unfolding join_child_def safe.simps
  by (rule exI [of _ "\<lambda>_ v' h'. v' = v \<and> h' = h"])
    (simp add: safe_from_top [OF assms(1)] safe_from_top [OF assms(2)] split: option.split)

text \<open>Telling the parent does not touch the counter.\<close>

lemma safe_on_panic:
  assumes "\<And>q h J. fault C q h \<Longrightarrow> safe C (u q) Free h J"
  shows "safe C p v h J \<Longrightarrow> safe C (on_panic u p) v h J"
proof (induction p arbitrary: v h J)
  case (Panic q)
  then show ?case using assms by simp
next
  case (Loop b n)
  from Loop.prems obtain J' where J': "J' n v h" "\<forall>m v' h'. J' m v' h' \<longrightarrow> safe C (b m) v' h' J'" by auto
  have "safe C (on_panic u (b m)) v' h' J'" if "J' m v' h'" for m v' h'
    using Loop.IH [OF rangeI] J'(2) that by blast
  with J'(1) show ?case by auto
next
  case (Pthread c k)
  show ?case unfolding on_panic.simps
    using Pthread.prems by (rule safe_call_mono) (rule Pthread.IH [OF rangeI])
next
  case (Access w k)
  show ?case unfolding on_panic.simps
    using Access.prems by (rule safe_access_mono) (rule Access.IH [OF rangeI])
qed auto

lemma safe_child_of:
  assumes "\<And>k. (\<And>h J. Q h \<Longrightarrow> safe (count_contract H A Q F) k Free h J) \<Longrightarrow> safe_top (count_contract H A Q F) (body k) Free []"
  shows "safe_top (count_contract H A Q F) (child_of body) Free []"
  unfolding child_of_def by (rule safe_on_panic) (use assms in \<open>auto\<close>)

section \<open>The tests\<close>

text \<open>
  \<open>mutex::test::check_spawn\<close> after the spawn: the main thread already holds the lock. The join comes
  while the second guard is still alive.
\<close>

definition mutex_check_spawn_main :: "(nat, exit_state, unit) prog" where
  "mutex_check_spawn_main = assert_guard_eq 0 (guard_drop (
     mutex_lock (assert_guard_eq 1 (join_child unlock_and_panic (guard_drop (Return ()))))))"

definition mutex_check_spawn_child :: "profile \<Rightarrow> (nat, exit_state, unit) prog" where
  "mutex_check_spawn_child p = child_of (\<lambda>exit. mutex_lock (add_one p (guard_drop exit)))"

text \<open>\<open>mutex::test::check_fork\<close> after the fork; both guards of the parent are called \<open>guard\<close>.\<close>

definition mutex_check_fork_parent :: "(nat, exit_state, unit) prog" where
  "mutex_check_fork_parent = mutex_lock (assert_guard_eq 0 (guard_drop (
     mutex_lock (assert_guard_eq 1 (wait_child (guard_drop (Return ())))))))"

definition mutex_check_fork_child :: "profile \<Rightarrow> (nat, exit_state, unit) prog" where
  "mutex_check_fork_child p = child_of (\<lambda>exit. mutex_lock (add_one p (guard_drop exit)))"

text \<open>\<open>mutex::test::check_wait_until\<close> after the fork.\<close>

definition check_wait_until_parent :: "(nat, exit_state, unit) prog" where
  "check_wait_until_parent = mutex_lock (assert_guard_eq 0 (guard_drop (
     wait_child (mutex_lock (assert_guard_eq 1 (guard_drop (Return ())))))))"

definition check_wait_until_child :: "profile \<Rightarrow> (nat, exit_state, unit) prog" where
  "check_wait_until_child p = child_of (\<lambda>exit.
     mutex_try_lock_for p \<lparr>dur_secs = 0, dur_nanos = 1\<rparr> (\<lambda>guard.
       if guard then unlock_and_panic Assertion_failed
       else mutex_try_lock_for p (secs 1) (\<lambda>guard.
         if \<not> guard then Panic Expect_failed else add_one p (guard_drop exit))))"

text \<open>\<open>condvar::test::check_spawn\<close>: the two threads of the scope, up to its end.\<close>

definition value_is :: "nat \<Rightarrow> (bool \<Rightarrow> (nat, 's, 'r) prog) \<Rightarrow> (nat, 's, 'r) prog" where
  "value_is x k = Access (\<lambda>d. d) (\<lambda>d. k (d = x))"

definition condvar_check_spawn_main :: "profile \<Rightarrow> (nat, exit_state, unit) prog" where
  "condvar_check_spawn_main p = mutex_lock (assert_guard_eq 0 (add_one p (
     condvar_signal 0 unlock_and_panic (guard_drop (
       mutex_lock (assert_guard_eq 2 (guard_drop (Return ()))))))))"

definition condvar_check_spawn_child :: "profile \<Rightarrow> (nat, exit_state, unit) prog" where
  "condvar_check_spawn_child p = child_of (\<lambda>exit. mutex_lock (
     condvar_wait 0 (value_is 1) unlock_and_panic (add_one p (guard_drop exit))))"

text \<open>\<open>condvar::test::check_wait_timeout\<close>: the spawned thread, and the main thread that joins it.\<close>

definition ms :: "nat \<Rightarrow> duration" where
  "ms n = \<lparr>dur_secs = 0, dur_nanos = n * 1000000\<rparr>"

definition check_wait_timeout_child :: "profile \<Rightarrow> (nat, exit_state, unit) prog" where
  "check_wait_timeout_child p = child_of (\<lambda>exit. mutex_lock (
     condvar_wait_for p 0 (ms 100) (value_is 1) unlock_and_panic (\<lambda>ok.
       if ok then unlock_and_panic Assertion_failed
       else Instant_now (\<lambda>now. lift_exec unlock_and_panic (instant_add now (ms 100)) (\<lambda>until.
         condvar_wait_until p 0 until (value_is 1) unlock_and_panic (\<lambda>ok.
           if ok then unlock_and_panic Assertion_failed else guard_drop exit))))))"

definition check_wait_timeout_main :: "(nat, exit_state, unit) prog" where
  "check_wait_timeout_main = join_child Panic (Return ())"

section \<open>Each thread alone\<close>

text \<open>The predicate of a wait leaves no event: it changes nothing.\<close>

lemma pred_value_is: "pred_safe C (value_is x) (\<lambda>d b. b \<longleftrightarrow> d = x)"
  by (auto simp: pred_safe_def value_is_def)

abbreviation one_add :: "count_event list \<Rightarrow> bool" where
  "one_add h \<equiv> h = [] \<or> h = [Added]"

abbreviation no_add :: "count_event list \<Rightarrow> bool" where
  "no_add h \<equiv> Added \<notin> set h"

text \<open>A child that locks, increments and unlocks.\<close>

abbreviation adder_contract :: "(nat, exit_state, count_event, unit) contract" where
  "adder_contract \<equiv> count_contract one_add (\<lambda>_. True) (\<lambda>h. h = [Added]) (\<lambda>_. False)"

lemma safe_spawn_main:
  "safe_top (count_contract no_add (\<lambda>_. False) (\<lambda>h. h = [Saw 0, Saw 1]) (\<lambda>h. \<exists>x. h = [Saw 0, Saw x] \<and> x \<noteq> 1))
     mutex_check_spawn_main (Held 0) []"
  unfolding mutex_check_spawn_main_def by (intro safe_rules) auto

lemma safe_spawn_child: "safe_top adder_contract (mutex_check_spawn_child p) Free []"
  unfolding mutex_check_spawn_child_def by (rule safe_child_of, intro safe_rules) auto

lemma safe_fork_parent:
  "safe_top (count_contract no_add (\<lambda>_. False) (\<lambda>h. h = [Saw 0, Saw 1])
     (\<lambda>h. (\<exists>x. h = [Saw x] \<and> x \<noteq> 0) \<or> (\<exists>x. h = [Saw 0, Saw x] \<and> x \<noteq> 1))) mutex_check_fork_parent Free []"
  unfolding mutex_check_fork_parent_def by (intro safe_rules) auto

lemma safe_fork_child: "safe_top adder_contract (mutex_check_fork_child p) Free []"
  unfolding mutex_check_fork_child_def by (rule safe_child_of, intro safe_rules) auto

lemma safe_until_parent:
  "safe_top (count_contract no_add (\<lambda>_. False) (\<lambda>h. h = [Saw 0, Saw 1])
     (\<lambda>h. (\<exists>x. h = [Saw x] \<and> x \<noteq> 0) \<or> (\<exists>x. h = [Saw 0, Saw x] \<and> x \<noteq> 1))) check_wait_until_parent Free []"
  unfolding check_wait_until_parent_def by (intro safe_rules) auto

lemma safe_until_child:
  "safe_top (count_contract one_add (\<lambda>_. True) (\<lambda>h. h = [Added]) (\<lambda>h. h = [])) (check_wait_until_child p) Free []"
  unfolding check_wait_until_child_def
  by (rule safe_child_of, intro safe_try_lock_for) (auto intro!: safe_rules)

lemma safe_cond_main:
  "safe_top (count_contract (\<lambda>h. Added \<in> set h \<longrightarrow> (\<exists>h'. h = Saw 0 # Added # h' \<and> Added \<notin> set h')) (\<lambda>d. d = 0)
       (\<lambda>h. h = [Saw 0, Added, Saw 2])
     (\<lambda>h. (\<exists>x. h = [Saw x] \<and> x \<noteq> 0) \<or> (\<exists>x. h = [Saw 0, Added, Saw x] \<and> x \<noteq> 2))) (condvar_check_spawn_main p) Free []"
  unfolding condvar_check_spawn_main_def by (intro safe_rules) auto

lemma safe_cond_child:
  "safe_top (count_contract one_add (\<lambda>d. d = 1) (\<lambda>h. h = [Added]) (\<lambda>_. False)) (condvar_check_spawn_child p) Free []"
  unfolding condvar_check_spawn_child_def
  by (rule safe_child_of, intro safe_lock safe_wait [OF pred_value_is] safe_rules) (auto intro!: safe_rules)

text \<open>The counter of \<open>check_wait_timeout\<close> is always zero, so no wait can succeed.\<close>

definition zero_contract :: "(nat, exit_state, count_event, unit) contract" where
  "zero_contract = \<lparr>atomics = (\<lambda>_. True), res_inv = (\<lambda>d. d = 0), effect = (\<lambda>_ _ _. False), history = (\<lambda>_. True), post = (\<lambda>_ _. True),
     fault = (\<lambda>q _. q \<noteq> Assertion_failed)\<rparr>"

lemma zero_contract_simps [simp]:
  "atomics zero_contract = (\<lambda>_. True)" "res_inv zero_contract = (\<lambda>d. d = 0)" "history zero_contract h" "post zero_contract r h"
  "fault zero_contract q h \<longleftrightarrow> q \<noteq> Assertion_failed"
  by (simp_all add: zero_contract_def)

lemma safe_zero_panic: "q \<noteq> Assertion_failed \<Longrightarrow> safe zero_contract (unlock_and_panic q) (Held 0) h J"
  unfolding unlock_and_panic_def by (rule safe_guard_drop) simp_all

lemma safe_timeout_child: "safe_top zero_contract (check_wait_timeout_child p) Free []"
proof -
  let ?C = "zero_contract"
  have second: "safe_top ?C (condvar_wait_until p 0 until (value_is 1) unlock_and_panic (\<lambda>ok.
      if ok then unlock_and_panic Assertion_failed else guard_drop k)) (Held 0) h"
    if "\<And>h J. safe ?C k Free h J" for until k h
    by (rule safe_wait_until [OF pred_value_is]) (auto intro!: safe_guard_drop safe_zero_panic that)
  have add: "instant_add now d \<noteq> Panicked Assertion_failed" for now d
    by (simp add: instant_add_def)
  have "safe_top ?C (mutex_lock (condvar_wait_for p 0 (ms 100) (value_is 1) unlock_and_panic (\<lambda>ok.
       if ok then unlock_and_panic Assertion_failed
       else Instant_now (\<lambda>now. lift_exec unlock_and_panic (instant_add now (ms 100)) (\<lambda>until.
         condvar_wait_until p 0 until (value_is 1) unlock_and_panic (\<lambda>ok.
           if ok then unlock_and_panic Assertion_failed else guard_drop k)))))) Free []"
    if k: "\<And>h J. safe ?C k Free h J" for k
    by (rule safe_lock, rule safe_wait_for [OF pred_value_is])
      (auto intro!: safe_lift_exec safe_zero_panic second [OF k] simp: add simp del: One_nat_def)
  note body = this
  show ?thesis
    unfolding check_wait_timeout_child_def child_of_def
    by (rule safe_on_panic, simp, rule body) simp
qed

lemma safe_timeout_main: "safe_top zero_contract check_wait_timeout_main Free []"
  unfolding check_wait_timeout_main_def by (rule safe_join_child) simp_all

section \<open>Counting events\<close>

lemma owned_count: "effect (C t) = count_effect A \<Longrightarrow> owned_effect C d (t, e) d' = count_effect A d e d'"
  by (simp add: owned_effect_def)

lemma chain_count:
  assumes "\<And>t. \<exists>A. effect (C t) = count_effect A" "d + count_list (map snd log) Added < usize_bound"
  shows "event_chain (owned_effect C) d log d' \<Longrightarrow> d' = d + count_list (map snd log) Added"
  using assms(2)
proof (induction log arbitrary: d)
  case (Cons x log)
  obtain t e where x: "x = (t, e)" by (cases x)
  obtain A where A: "effect (C t) = count_effect A" using assms(1) by blast
  from Cons.prems x A obtain d1 where "count_effect A d e d1" "event_chain (owned_effect C) d1 log d'"
    by (auto simp: owned_count)
  then show ?case using Cons.IH [of d1] Cons.prems(2) x by (cases e) auto
qed simp

text \<open>As long as nobody increments zero, the counter is zero.\<close>

lemma chain_zero:
  assumes "\<And>t e. (t, e) \<in> set log \<Longrightarrow> \<exists>A. effect (C t) = count_effect A \<and> (e = Added \<longrightarrow> \<not> A 0)"
  shows "event_chain (owned_effect C) 0 log d' \<Longrightarrow> d' = 0"
  using assms
proof (induction log)
  case (Cons x log)
  obtain t e where x: "x = (t, e)" by (cases x)
  then obtain A where A: "effect (C t) = count_effect A" "e = Added \<longrightarrow> \<not> A 0" using Cons.prems(2) by auto
  with Cons.prems(1) x have "event_chain (owned_effect C) 0 log d'"
    by (cases e) (auto simp: owned_count)
  then show ?case using Cons by auto
qed simp

lemma event_chain_append: "event_chain G d (xs @ ys) d' \<longleftrightarrow> (\<exists>d1. event_chain G d xs d1 \<and> event_chain G d1 ys d')"
  by (induction xs arbitrary: d) auto

lemma of_thread_append [simp]: "of_thread t (xs @ ys) = of_thread t xs @ of_thread t ys"
  by (simp add: of_thread_def)

lemma of_thread_single [simp]: "of_thread t [(t', e)] = (if t' = t then [e] else [])"
  by (simp add: of_thread_def)

lemma of_thread_Nil: "of_thread t log = [] \<longleftrightarrow> (\<forall>e. (t, e) \<notin> set log)"
  by (force simp: of_thread_def filter_empty_conv)

text \<open>Where the last event of a thread stands in the log.\<close>

lemma of_thread_last:
  "of_thread t log = h @ [e] \<Longrightarrow> \<exists>xs ys. log = xs @ (t, e) # ys \<and> of_thread t xs = h"
proof (induction log rule: rev_induct)
  case (snoc x log)
  obtain t' e' where x: "x = (t', e')" by (cases x)
  show ?case
  proof (cases "t' = t")
    case True
    then have "e' = e" "of_thread t log = h" using snoc.prems x by auto
    then show ?thesis using x True by (intro exI [of _ log] exI [of _ "[]"]) simp
  next
    case False
    with snoc x obtain xs ys where "log = xs @ (t, e) # ys" "of_thread t xs = h" by auto
    then show ?thesis using x by (intro exI [of _ xs] exI [of _ "ys @ [x]"]) simp
  qed
qed simp

lemma count_two_threads:
  assumes "\<And>t. 2 \<le> t \<Longrightarrow> of_thread t log = []"
  shows "count_list (map snd log) Added = count_list (of_thread 0 log) Added + count_list (of_thread 1 log) Added"
  using assms
proof (induction log rule: rev_induct)
  case (snoc x log)
  obtain t e where x: "x = (t, e)" by (cases x)
  have "\<not> 2 \<le> t" using snoc.prems [of t] x by auto
  then have "t = 0 \<or> t = 1" by auto
  moreover have "of_thread t log = []" if "2 \<le> t" for t using snoc.prems [OF that] x by (simp split: if_splits)
  ultimately show ?case using snoc.IH x by auto
qed simp

section \<open>The two threads together\<close>

text \<open>
  The state in which the child has been started: the counter is zero, the child has not ended, and
  \<open>held\<close> says whether the parent holds the mutex.
\<close>

definition counter_start :: "'l pthread \<Rightarrow> bool \<Rightarrow> (nat, exit_state, unit) prog \<Rightarrow> (nat, exit_state, unit) prog \<Rightarrow>
    (nat, exit_state, unit, 'l) sys \<Rightarrow> bool" where
  "counter_start P held parent child s \<longleftrightarrow> cell s = 0 \<and> shared s = None \<and> (\<forall>t. \<not> asleep s t) \<and>
     holder P (lib s) = (if held then Some 0 else None) \<and>
     threads s = (\<lambda>t. if t = 0 then parent else if t = 1 then child else Return ())"

definition pair_contract :: "(nat, exit_state, count_event, unit) contract \<Rightarrow> (nat, exit_state, count_event, unit) contract \<Rightarrow> tid \<Rightarrow>
    (nat, exit_state, count_event, unit) contract" where
  "pair_contract C0 C1 t = (if t = 0 then C0 else if t = 1 then C1
     else C0\<lparr>history := (\<lambda>h. h = []), post := (\<lambda>_ h. h = [])\<rparr>)"

lemma pair_contract_simps [simp]:
  "pair_contract C0 C1 0 = C0" "pair_contract C0 C1 1 = C1" "pair_contract C0 C1 (Suc 0) = C1"
  "2 \<le> t \<Longrightarrow> pair_contract C0 C1 t = C0\<lparr>history := (\<lambda>h. h = []), post := (\<lambda>_ h. h = [])\<rparr>"
  by (auto simp: pair_contract_def)

lemma counter_run:
  assumes "pthread_laws P" "counter_start P held parent child s0" "sys_reach P s0 s"
    and R: "res_inv C0 = R" "res_inv C1 = R" "R 0" and A: "atomics C0 = (\<lambda>_. True)" "atomics C1 = (\<lambda>_. True)" and H: "history C0 []" "history C1 []"
    and safe: "safe_top C0 parent (if held then Held 0 else Free) []" "safe_top C1 child Free []"
  shows "\<exists>log. sys_inv R (pair_contract C0 C1) P 0 s log"
proof -
  have "history (pair_contract C0 C1 t) [] \<and> thread_ok (pair_contract C0 C1 t) P s0 [] t" for t
    using assms(2) H safe by (cases "t = 0"; cases "t = 1")
      (auto simp: counter_start_def thread_ok_def view_of_def pair_contract_def split: if_splits)
  moreover have "res_inv (pair_contract C0 C1 t) = R" "atomics (pair_contract C0 C1 t) = (\<lambda>_. True)" for t
    using R A by (simp_all add: pair_contract_def)
  ultimately have "sys_inv R (pair_contract C0 C1) P (cell s0) s0 []"
    using assms(2) R(3) A by (simp add: counter_start_def sys_inv_def)
  from interleaving_sound [OF assms(1) this assms(3)] assms(2) show ?thesis
    by (simp add: counter_start_def)
qed

text \<open>
  What a log explains: the counter is zero at first, every read saw the value at its place, and the
  increments lead to the present value.
\<close>

definition explains :: "(tid \<times> count_event) list \<Rightarrow> nat \<Rightarrow> bool" where
  "explains log d \<longleftrightarrow> event_chain (count_effect (\<lambda>_. True)) 0 (map snd log) d"

lemma chain_explains:
  assumes "\<And>t. \<exists>A. effect (C t) = count_effect A"
  shows "event_chain (owned_effect C) d log d' \<Longrightarrow> event_chain (count_effect (\<lambda>_. True)) d (map snd log) d'"
proof (induction log arbitrary: d)
  case (Cons x log)
  obtain t e where x: "x = (t, e)" by (cases x)
  obtain A where A: "effect (C t) = count_effect A" using assms by blast
  with Cons.prems x obtain d1 where "count_effect A d e d1" "event_chain (owned_effect C) d1 log d'"
    by (auto simp: owned_count)
  with Cons.IH x show ?case by (cases e) auto
qed simp

text \<open>
  A parent that never increments and a child that does so at most once: what the parent reads last
  is zero or one, and the counter is what the child has done.
\<close>

lemma reads_of_parent:
  assumes inv: "sys_inv R (pair_contract (count_contract no_add A0 Q0 F0) (count_contract one_add A1 Q1 F1)) P 0 s log"
  shows "explains log (cell s)" "cell s = count_list (of_thread 1 log) Added"
    "of_thread 0 log = h @ [Saw x] \<Longrightarrow> x \<le> 1 \<and> x \<le> cell s"
proof -
  let ?C = "pair_contract (count_contract no_add A0 Q0 F0) (count_contract one_add A1 Q1 F1)"
  have eff: "\<exists>A. effect (?C t) = count_effect A" for t by (auto simp: pair_contract_def)
  have chain: "event_chain (owned_effect ?C) 0 log (cell s)" using inv by (simp add: sys_inv_def)
  show "explains log (cell s)" unfolding explains_def using eff chain by (rule chain_explains)
  have none: "of_thread t log = []" if "2 \<le> t" for t
    using sys_inv_history [OF inv, of t] that by simp
  have h0: "Added \<notin> set (of_thread 0 log)" and h1: "one_add (of_thread 1 log)"
    using sys_inv_history [OF inv, of 0] sys_inv_history [OF inv, of 1] by simp_all
  have le: "count_list (of_thread 1 log) Added \<le> 1" using h1 by auto
  have all: "count_list (map snd log) Added = count_list (of_thread 1 log) Added"
    using count_two_threads [OF none] h0 by (simp add: count_list_0_iff)
  show c: "cell s = count_list (of_thread 1 log) Added"
    using chain_count [OF eff _ chain] all le by (simp add: usize_bound_def)
  assume "of_thread 0 log = h @ [Saw x]"
  from of_thread_last [OF this] obtain xs ys where log: "log = xs @ (0, Saw x) # ys" by blast
  then obtain d where d: "event_chain (owned_effect ?C) 0 xs d" "x = d"
    using chain by (auto simp: event_chain_append owned_count)
  have "count_list (map snd xs) Added \<le> count_list (map snd log) Added" using log by simp
  then show "x \<le> 1 \<and> x \<le> cell s"
    using chain_count [OF eff _ d(1)] d(2) all le c by (simp add: usize_bound_def)
qed

text \<open>
  A parent that increments zero once and a child that increments one: the first read is zero, and a
  read after the parent's increment is one or two.
\<close>

abbreviation main_history :: "count_event list \<Rightarrow> bool" where
  "main_history h \<equiv> Added \<in> set h \<longrightarrow> (\<exists>h'. h = Saw 0 # Added # h' \<and> Added \<notin> set h')"

lemma reads_of_main:
  assumes inv: "sys_inv R (pair_contract (count_contract main_history (\<lambda>d. d = 0) Q0 F0) (count_contract one_add (\<lambda>d. d = 1) Q1 F1)) P 0 s log"
  shows "explains log (cell s)" "of_thread 0 log = [Saw x] \<Longrightarrow> x = 0"
    "of_thread 0 log = [Saw 0, Added, Saw x] \<Longrightarrow> (x = 1 \<or> x = 2) \<and> x \<le> cell s \<and> cell s \<le> 2"
proof -
  let ?C = "pair_contract (count_contract main_history (\<lambda>d. d = 0) Q0 F0) (count_contract one_add (\<lambda>d. d = 1) Q1 F1)"
  have eff: "\<exists>A. effect (?C t) = count_effect A" for t by (auto simp: pair_contract_def)
  have chain: "event_chain (owned_effect ?C) 0 log (cell s)" using inv by (simp add: sys_inv_def)
  show "explains log (cell s)" unfolding explains_def using eff chain by (rule chain_explains)
  have none: "of_thread t log = []" if "2 \<le> t" for t
    using sys_inv_history [OF inv, of t] that by simp
  have h1: "one_add (of_thread 1 log)" using sys_inv_history [OF inv, of 1] by simp
  have before: "\<exists>xs ys d. log = xs @ (0, Saw x) # ys \<and> of_thread 0 xs = h \<and> event_chain (owned_effect ?C) 0 xs d \<and> x = d"
    if "of_thread 0 log = h @ [Saw x]" for h
    using of_thread_last [OF that] chain by (fastforce simp: event_chain_append owned_count)
  show "x = 0" if sx: "of_thread 0 log = [Saw x]"
  proof -
    obtain xs ys where xs: "log = xs @ (0, Saw x) # ys" "of_thread 0 xs = []" "event_chain (owned_effect ?C) 0 xs x"
      using before [of "[]"] sx by (simp del: One_nat_def) blast
    have "\<exists>A. effect (?C t) = count_effect A \<and> (e = Added \<longrightarrow> \<not> A 0)" if te: "(t, e) \<in> set xs" for t e
    proof -
      have "t \<noteq> 0" using te xs(2) by (cases "t = 0") (auto simp: of_thread_Nil)
      moreover have "\<not> 2 \<le> t" using te xs(1) none [of t] by (auto simp: of_thread_Nil)
      ultimately have "t = 1" by auto
      then show ?thesis by (intro exI [of _ "\<lambda>d. d = 1"]) simp
    qed
    from chain_zero [OF this xs(3)] show "x = 0" by blast
  qed
  assume h: "of_thread 0 log = [Saw 0, Added, Saw x]"
  then obtain xs ys where xs: "log = xs @ (0, Saw x) # ys" "of_thread 0 xs = [Saw 0, Added]" "event_chain (owned_effect ?C) 0 xs x"
    using before [of "[Saw 0, Added]"] by (simp del: One_nat_def) blast
  have all: "count_list (map snd log) Added = 1 + count_list (of_thread 1 log) Added"
    using count_two_threads [OF none] h by simp
  have none': "of_thread t xs = []" if "2 \<le> t" for t using none [OF that] xs(1) by simp
  have "count_list (map snd xs) Added = 1 + count_list (of_thread 1 xs) Added"
    using count_two_threads [OF none'] xs(2) by simp
  moreover have "count_list (of_thread 1 xs) Added \<le> count_list (of_thread 1 log) Added" using xs(1) by simp
  moreover have "count_list (of_thread 1 log) Added \<le> 1" using h1 by auto
  ultimately show "(x = 1 \<or> x = 2) \<and> x \<le> cell s \<and> cell s \<le> 2"
    using chain_count [OF eff _ xs(3)] chain_count [OF eff _ chain] all by (auto simp: usize_bound_def)
qed

text \<open>
  A parent that increments zero, a child that increments one, whatever else they do: shared by the two tests of the
  condition variable.
\<close>

lemma waiting_child_sound:
  assumes "pthread_laws P" "counter_start P False parent child s0" "sys_reach P s0 s"
    and "safe_top (count_contract main_history (\<lambda>d. d = 0) (\<lambda>h. h = [Saw 0, Added, Saw 2])
      (\<lambda>h. (\<exists>x. h = [Saw x] \<and> x \<noteq> 0) \<or> (\<exists>x. h = [Saw 0, Added, Saw x] \<and> x \<noteq> 2))) parent Free []"
    and "safe_top (count_contract one_add (\<lambda>d. d = 1) (\<lambda>h. h = [Added]) (\<lambda>_. False)) child Free []"
  shows "\<exists>log. explains log (cell s) \<and>
    (threads s 0 = Panic Assertion_failed \<longrightarrow> of_thread 0 log = [Saw 0, Added, Saw 1]) \<and>
    (threads s 0 = Return () \<longrightarrow> of_thread 0 log = [Saw 0, Added, Saw 2] \<and> cell s = 2) \<and>
    threads s 1 \<noteq> Panic Assertion_failed"
proof -
  let ?C0 = "count_contract main_history (\<lambda>d. d = 0) (\<lambda>h. h = [Saw 0, Added, Saw 2])
    (\<lambda>h. (\<exists>x. h = [Saw x] \<and> x \<noteq> 0) \<or> (\<exists>x. h = [Saw 0, Added, Saw x] \<and> x \<noteq> 2))"
  let ?C1 = "count_contract one_add (\<lambda>d. d = 1) (\<lambda>h. h = [Added]) (\<lambda>_. False)"
  obtain log where inv: "sys_inv (\<lambda>_. True) (pair_contract ?C0 ?C1) P 0 s log"
    using counter_run [OF assms(1-3), of ?C0 _ ?C1] assms(4,5) by (simp del: One_nat_def) blast
  note reads = reads_of_main [OF inv]
  have "of_thread 0 log = [Saw 0, Added, Saw 1]" if "threads s 0 = Panic Assertion_failed"
    using sys_inv_panicked [OF inv that] reads(2,3) by auto
  moreover have "of_thread 0 log = [Saw 0, Added, Saw 2] \<and> cell s = 2" if "threads s 0 = Return ()"
    using sys_inv_returned [OF inv that] reads(3) [of 2] by simp
  moreover have "threads s 1 \<noteq> Panic Assertion_failed"
    using sys_inv_panicked [OF inv, of 1 Assertion_failed] by auto
  ultimately show ?thesis using reads(1) by blast
qed

section \<open>Runs\<close>

definition counter_state :: "bool \<Rightarrow> (nat, exit_state, unit) prog \<Rightarrow> (nat, exit_state, unit) prog \<Rightarrow>
    (nat, exit_state, unit, wake_state) sys" where
  "counter_state held parent child = \<lparr>
     threads = (\<lambda>t. if t = 0 then parent else if t = 1 then child else Return ()), asleep = (\<lambda>_. False),
     cell = 0, shared = None,
     lib = \<lparr>wk_holder = (if held then Some 0 else None), wk_sleeping = [], wk_woken = []\<rparr>\<rparr>"

lemma counter_state_start [simp]: "counter_start wake_pthread held parent child (counter_state held parent child)"
  by (simp add: counter_start_def counter_state_def)

lemma add_one_small: "(case usize_add p 0 1 of Done x \<Rightarrow> Done ((), x) | Panicked q \<Rightarrow> Panicked q | Diverges \<Rightarrow> Diverges) = Done ((), 1)"
  by (simp add: usize_add_def usize_bound_def)

lemmas counter_defs = counter_state_def move_in_def set_thread_def mutex_check_spawn_main_def mutex_check_spawn_child_def
  mutex_check_fork_parent_def mutex_check_fork_child_def condvar_check_spawn_main_def condvar_check_spawn_child_def
  child_of_def assert_guard_eq_def add_one_def access_exec_def usize_add_def usize_bound_def guard_drop_def
  mutex_lock_def join_child_def wait_child_def unlock_and_panic_def unroll_def wake_call_def value_is_def
  condvar_wait_def condvar_signal_def wake_sleep_def wake_up_def wake_all_def cond_of_def

text \<open>A run that passes each test.\<close>

lemma spawn_passes:
  "\<exists>s. run_schedule [(0, Go), (0, Code 0), (1, Code 0), (1, Go), (1, Code 0), (1, Go), (0, Code 0), (0, Go), (0, Go), (0, Go), (0, Code 0)]
     (counter_state True mutex_check_spawn_main (mutex_check_spawn_child dev_profile)) = Some s \<and> threads s 0 = Return ()"
  by (simp add: counter_defs)

lemma fork_passes:
  "\<exists>s. run_schedule [(0, Code 0), (0, Go), (0, Code 0), (1, Code 0), (1, Go), (1, Code 0), (1, Go), (0, Code 0), (0, Go), (0, Go), (0, Go), (0, Code 0)]
     (counter_state False mutex_check_fork_parent (mutex_check_fork_child dev_profile)) = Some s \<and> threads s 0 = Return ()"
  by (simp add: counter_defs)

text \<open>The child tries for a nanosecond while the parent holds the lock, and for a second when it is free.\<close>

lemma nanosecond_after_epoch:
  "exec_bind (unix_realtime (\<lambda>_. epoch)) (\<lambda>now. unix_add dev_profile now \<lparr>dur_secs = 0, dur_nanos = Suc 0\<rparr>) = Done \<lparr>tv_sec = 0, tv_nsec = 1\<rparr>"
  by (simp add: epoch_def unix_realtime_def with_clock_id_def unix_add_def as_nanos_def as_i64_def wrap_i64_def
      i64_try_from_def in_i64_def debug_assert_def)

lemma until_passes:
  "\<exists>s. run_schedule [(0, Code 0), (0, Go), (1, Clock epoch), (1, Code ETIMEDOUT), (1, Clock epoch), (0, Code 0), (1, Code 0), (1, Go), (1, Code 0), (1, Go),
      (0, Go), (0, Go), (0, Code 0), (0, Go), (0, Code 0)]
     (counter_state False check_wait_until_parent (check_wait_until_child dev_profile)) = Some s \<and> threads s 0 = Return ()"
  by (simp add: counter_defs check_wait_until_parent_def check_wait_until_child_def mutex_try_lock_for_def
      mutex_try_lock_until_internal_def nanosecond_after_epoch one_second_after_epoch)

text \<open>The child sleeps before the main thread signals.\<close>

lemma cond_passes:
  "\<exists>s. run_schedule [(1, Code 0), (1, Go), (1, Go), (1, Sleeps), (0, Code 0), (0, Go), (0, Go), (0, Code 0), (0, Code 0),
      (1, Go), (1, Go), (1, Go), (1, Go), (1, Code 0), (1, Go), (0, Code 0), (0, Go), (0, Code 0)]
     (counter_state False (condvar_check_spawn_main dev_profile) (condvar_check_spawn_child dev_profile)) = Some s \<and> threads s 0 = Return ()"
  by (simp add: counter_defs)

lemma timeout_sleeps:
  "\<exists>s. run_schedule [(1, Code 0), (1, Clock epoch), (1, Go), (1, Go), (1, Sleeps)]
     (counter_state False check_wait_timeout_main (check_wait_timeout_child dev_profile)) = Some s \<and> asleep s 1 \<and> wk_holder (lib s) = None"
  by (simp add: counter_defs check_wait_timeout_child_def condvar_wait_for_def condvar_wait_until_internal_def ms_def
      epoch_def unix_monotonic_def with_clock_id_def unix_add_def as_nanos_def as_i64_def wrap_i64_def
      i64_try_from_def in_i64_def debug_assert_def)

section \<open>The tests under every interleaving\<close>

text \<open>
  The mutex test \<open>check_spawn\<close>, in every interleaving: its first assertion always holds, because the
  main thread has the lock; a failing assertion can only be the last one, with the child's increment
  still to come (nothing but a sleep precedes it); when the main thread returns, it has read zero and
  then one, and the counter is one. The child fails no assertion.
\<close>

theorem mutex_check_spawn_sound:
  assumes "pthread_laws P" "counter_start P True mutex_check_spawn_main (mutex_check_spawn_child p) s0" "sys_reach P s0 s"
  shows "\<exists>log. explains log (cell s) \<and>
    (threads s 0 = Panic Assertion_failed \<longrightarrow> of_thread 0 log = [Saw 0, Saw 0]) \<and>
    (threads s 0 = Return () \<longrightarrow> of_thread 0 log = [Saw 0, Saw 1] \<and> cell s = 1) \<and>
    threads s 1 \<noteq> Panic Assertion_failed"
proof -
  obtain log where inv: "sys_inv (\<lambda>_. True) (pair_contract (count_contract no_add (\<lambda>_. False) (\<lambda>h. h = [Saw 0, Saw 1])
      (\<lambda>h. \<exists>x. h = [Saw 0, Saw x] \<and> x \<noteq> 1)) adder_contract) P 0 s log"
    using counter_run [OF assms, of "count_contract no_add (\<lambda>_. False) (\<lambda>h. h = [Saw 0, Saw 1])
      (\<lambda>h. \<exists>x. h = [Saw 0, Saw x] \<and> x \<noteq> 1)" _ adder_contract] safe_spawn_main safe_spawn_child by (simp del: One_nat_def) blast
  note reads = reads_of_parent [OF inv]
  have "of_thread 0 log = [Saw 0, Saw 0]" if "threads s 0 = Panic Assertion_failed"
    using sys_inv_panicked [OF inv that] reads(3) [of "[Saw 0]"] by auto
  moreover have "of_thread 0 log = [Saw 0, Saw 1] \<and> cell s = 1" if "threads s 0 = Return ()"
  proof -
    have h: "of_thread 0 log = [Saw 0, Saw 1]" using sys_inv_returned [OF inv that] by simp
    moreover have "cell s \<le> 1" using reads(2) sys_inv_history [OF inv, of 1] by auto
    ultimately show ?thesis using reads(3) [of "[Saw 0]" 1] by simp
  qed
  moreover have "threads s 1 \<noteq> Panic Assertion_failed"
    using sys_inv_panicked [OF inv, of 1 Assertion_failed] by auto
  ultimately show ?thesis using reads(1) by blast
qed

theorem mutex_check_spawn_sound_witness:
  "\<exists>s. sys_reach wake_pthread (counter_state True mutex_check_spawn_main (mutex_check_spawn_child dev_profile)) s \<and> threads s 0 = Return () \<and> cell s = 1"
proof -
  obtain s where s: "sys_reach wake_pthread (counter_state True mutex_check_spawn_main (mutex_check_spawn_child dev_profile)) s" "threads s 0 = Return ()"
    using spawn_passes run_schedule_reach by blast
  from mutex_check_spawn_sound [OF wake_pthread_laws counter_state_start s(1)] s show ?thesis by blast
qed

text \<open>
  The mutex test \<open>check_fork\<close>, in every interleaving: it fails only by timing, when the child's
  increment comes before the parent's first read or after its last one.
\<close>

theorem mutex_check_fork_sound:
  assumes "pthread_laws P" "counter_start P False mutex_check_fork_parent (mutex_check_fork_child p) s0" "sys_reach P s0 s"
  shows "\<exists>log. explains log (cell s) \<and>
    (threads s 0 = Panic Assertion_failed \<longrightarrow> of_thread 0 log = [Saw 1] \<or> of_thread 0 log = [Saw 0, Saw 0]) \<and>
    (threads s 0 = Return () \<longrightarrow> of_thread 0 log = [Saw 0, Saw 1] \<and> cell s = 1) \<and>
    threads s 1 \<noteq> Panic Assertion_failed"
proof -
  obtain log where inv: "sys_inv (\<lambda>_. True) (pair_contract (count_contract no_add (\<lambda>_. False) (\<lambda>h. h = [Saw 0, Saw 1])
      (\<lambda>h. (\<exists>x. h = [Saw x] \<and> x \<noteq> 0) \<or> (\<exists>x. h = [Saw 0, Saw x] \<and> x \<noteq> 1))) adder_contract) P 0 s log"
    using counter_run [OF assms, of "count_contract no_add (\<lambda>_. False) (\<lambda>h. h = [Saw 0, Saw 1])
      (\<lambda>h. (\<exists>x. h = [Saw x] \<and> x \<noteq> 0) \<or> (\<exists>x. h = [Saw 0, Saw x] \<and> x \<noteq> 1))" _ adder_contract]
      safe_fork_parent safe_fork_child by (simp del: One_nat_def) blast
  note reads = reads_of_parent [OF inv]
  have "of_thread 0 log = [Saw 1] \<or> of_thread 0 log = [Saw 0, Saw 0]" if "threads s 0 = Panic Assertion_failed"
    using sys_inv_panicked [OF inv that] reads(3) [of "[]"] reads(3) [of "[Saw 0]"] by auto
  moreover have "of_thread 0 log = [Saw 0, Saw 1] \<and> cell s = 1" if "threads s 0 = Return ()"
  proof -
    have h: "of_thread 0 log = [Saw 0, Saw 1]" using sys_inv_returned [OF inv that] by simp
    moreover have "cell s \<le> 1" using reads(2) sys_inv_history [OF inv, of 1] by auto
    ultimately show ?thesis using reads(3) [of "[Saw 0]" 1] by simp
  qed
  moreover have "threads s 1 \<noteq> Panic Assertion_failed"
    using sys_inv_panicked [OF inv, of 1 Assertion_failed] by auto
  ultimately show ?thesis using reads(1) by blast
qed

theorem mutex_check_fork_sound_witness:
  "\<exists>s. sys_reach wake_pthread (counter_state False mutex_check_fork_parent (mutex_check_fork_child dev_profile)) s \<and> threads s 0 = Return () \<and> cell s = 1"
proof -
  obtain s where s: "sys_reach wake_pthread (counter_state False mutex_check_fork_parent (mutex_check_fork_child dev_profile)) s" "threads s 0 = Return ()"
    using fork_passes run_schedule_reach by blast
  from mutex_check_fork_sound [OF wake_pthread_laws counter_state_start s(1)] s show ?thesis by blast
qed

text \<open>
  The mutex test \<open>check_wait_until\<close>, in every interleaving: its assertions fail only by timing: the
  parent's when the child incremented before the parent's first read, or not at all by the time it
  had ended; the child's when it found the mutex free. When both return, the counter is one.
\<close>

theorem check_wait_until_sound:
  assumes "pthread_laws P" "counter_start P False check_wait_until_parent (check_wait_until_child p) s0" "sys_reach P s0 s"
  shows "\<exists>log. explains log (cell s) \<and>
    (threads s 0 = Panic Assertion_failed \<longrightarrow> of_thread 0 log = [Saw 1] \<or> of_thread 0 log = [Saw 0, Saw 0]) \<and>
    (threads s 0 = Return () \<longrightarrow> of_thread 0 log = [Saw 0, Saw 1] \<and> cell s = 1) \<and>
    (threads s 1 = Panic Assertion_failed \<longrightarrow> of_thread 1 log = [])"
proof -
  obtain log where inv: "sys_inv (\<lambda>_. True) (pair_contract (count_contract no_add (\<lambda>_. False) (\<lambda>h. h = [Saw 0, Saw 1])
      (\<lambda>h. (\<exists>x. h = [Saw x] \<and> x \<noteq> 0) \<or> (\<exists>x. h = [Saw 0, Saw x] \<and> x \<noteq> 1)))
      (count_contract one_add (\<lambda>_. True) (\<lambda>h. h = [Added]) (\<lambda>h. h = []))) P 0 s log"
    using counter_run [OF assms, of "count_contract no_add (\<lambda>_. False) (\<lambda>h. h = [Saw 0, Saw 1])
      (\<lambda>h. (\<exists>x. h = [Saw x] \<and> x \<noteq> 0) \<or> (\<exists>x. h = [Saw 0, Saw x] \<and> x \<noteq> 1))" _
      "count_contract one_add (\<lambda>_. True) (\<lambda>h. h = [Added]) (\<lambda>h. h = [])"]
      safe_until_parent safe_until_child by (simp del: One_nat_def) blast
  note reads = reads_of_parent [OF inv]
  have "of_thread 0 log = [Saw 1] \<or> of_thread 0 log = [Saw 0, Saw 0]" if "threads s 0 = Panic Assertion_failed"
    using sys_inv_panicked [OF inv that] reads(3) [of "[]"] reads(3) [of "[Saw 0]"] by auto
  moreover have "of_thread 0 log = [Saw 0, Saw 1] \<and> cell s = 1" if "threads s 0 = Return ()"
  proof -
    have h: "of_thread 0 log = [Saw 0, Saw 1]" using sys_inv_returned [OF inv that] by simp
    moreover have "cell s \<le> 1" using reads(2) sys_inv_history [OF inv, of 1] by auto
    ultimately show ?thesis using reads(3) [of "[Saw 0]" 1] by simp
  qed
  moreover have "of_thread 1 log = []" if "threads s 1 = Panic Assertion_failed"
    using sys_inv_panicked [OF inv that] by simp
  ultimately show ?thesis using reads(1) by blast
qed

theorem check_wait_until_sound_witness:
  "\<exists>s. sys_reach wake_pthread (counter_state False check_wait_until_parent (check_wait_until_child dev_profile)) s \<and> threads s 0 = Return () \<and> cell s = 1"
proof -
  obtain s where s: "sys_reach wake_pthread (counter_state False check_wait_until_parent (check_wait_until_child dev_profile)) s" "threads s 0 = Return ()"
    using until_passes run_schedule_reach by blast
  from check_wait_until_sound [OF wake_pthread_laws counter_state_start s(1)] s show ?thesis by blast
qed

text \<open>
  C15: The condition variable's test \<open>check_spawn\<close>, in every interleaving: the main thread's first
  assertion always holds, since the child waits for an increment only the main thread makes; a
  failing assertion can only be the last one, with the child's increment still to come. The child
  fails none, whatever wakes it.
\<close>

theorem condvar_check_spawn_sound:
  assumes "pthread_laws P" "counter_start P False (condvar_check_spawn_main p) (condvar_check_spawn_child p) s0" "sys_reach P s0 s"
  shows "\<exists>log. explains log (cell s) \<and>
    (threads s 0 = Panic Assertion_failed \<longrightarrow> of_thread 0 log = [Saw 0, Added, Saw 1]) \<and>
    (threads s 0 = Return () \<longrightarrow> of_thread 0 log = [Saw 0, Added, Saw 2] \<and> cell s = 2) \<and>
    threads s 1 \<noteq> Panic Assertion_failed"
  using assms by (rule waiting_child_sound [OF _ _ _ safe_cond_main safe_cond_child])

theorem condvar_check_spawn_sound_witness:
  "\<exists>s. sys_reach wake_pthread (counter_state False (condvar_check_spawn_main dev_profile) (condvar_check_spawn_child dev_profile)) s \<and> threads s 0 = Return () \<and> cell s = 2"
proof -
  obtain s where s: "sys_reach wake_pthread (counter_state False (condvar_check_spawn_main dev_profile) (condvar_check_spawn_child dev_profile)) s" "threads s 0 = Return ()"
    using cond_passes run_schedule_reach by blast
  from condvar_check_spawn_sound [OF wake_pthread_laws counter_state_start s(1)] s show ?thesis by blast
qed

text \<open>
  The condition variable's test \<open>check_wait_timeout\<close> never fails an assertion: whatever the clocks
  and the waits answer, a wait for a value nobody writes never reports success.
\<close>

theorem check_wait_timeout_sound:
  assumes "pthread_laws P" "counter_start P False check_wait_timeout_main (check_wait_timeout_child p) s0" "sys_reach P s0 s"
  shows "threads s t \<noteq> Panic Assertion_failed \<and> (holder P (lib s) = None \<longrightarrow> cell s = 0)"
proof -
  obtain log where inv: "sys_inv (\<lambda>d. d = 0) (pair_contract zero_contract zero_contract) P 0 s log"
    using counter_run [OF assms, of zero_contract _ zero_contract] safe_timeout_main safe_timeout_child by auto
  have "\<not> fault (pair_contract zero_contract zero_contract t) Assertion_failed h" for h
    by (simp add: pair_contract_def zero_contract_def)
  with sys_inv_panicked [OF inv, of t Assertion_failed] inv show ?thesis by (auto simp: sys_inv_def)
qed

theorem check_wait_timeout_sound_witness:
  "\<exists>s. sys_reach wake_pthread (counter_state False check_wait_timeout_main (check_wait_timeout_child dev_profile)) s \<and> asleep s 1 \<and>
     threads s 1 \<noteq> Panic Assertion_failed \<and> cell s = 0"
proof -
  obtain s where s: "sys_reach wake_pthread (counter_state False check_wait_timeout_main (check_wait_timeout_child dev_profile)) s"
    "asleep s 1" "wk_holder (lib s) = None"
    using timeout_sleeps run_schedule_reach by blast
  from check_wait_timeout_sound [OF wake_pthread_laws counter_state_start s(1), of 1] s show ?thesis by auto
qed

text \<open>
  The mutex test \<open>check_spawn\<close> can fail although the mutex is correct: the sleep between the two
  critical sections orders nothing, and if the child has not run by then the second read is still zero.
\<close>

theorem mutex_check_spawn_can_fail:
  "\<exists>s. sys_reach wake_pthread (counter_state True mutex_check_spawn_main (mutex_check_spawn_child dev_profile)) s \<and>
     threads s 0 = Panic Assertion_failed \<and> cell s = 0"
proof -
  have "\<exists>s. run_schedule [(0, Go), (0, Code 0), (0, Code 0), (0, Go), (0, Code 0)]
     (counter_state True mutex_check_spawn_main (mutex_check_spawn_child dev_profile)) = Some s \<and>
     threads s 0 = Panic Assertion_failed \<and> cell s = 0"
    by (simp add: counter_defs)
  then show ?thesis using run_schedule_reach by blast
qed

end
