(* ===== verification/Simple_Example.thy ===== *)
theory Simple_Example
  imports Counter_Tests Sync_Guarantees
begin

text \<open>
  \<open>examples/simple.rs\<close>: a parent and its forked child share a channel of \<open>i32\<close>; the child sends its
  process id, the parent waits for a message, receives it and asserts that it is the child's id.
  Both programs start where \<open>fork()\<close> has returned, with one receiver and no sender. Logging and
  \<open>thread::sleep\<close> are no steps; \<open>waitpid\<close> reads the \<open>world\<close>, which says how the child has ended. The
  handles' destructors, which run after the last statement of \<open>main\<close>, are not part of the programs
  here (\<open>Wake_Ups\<close> and \<open>Handle_Counting\<close> have them).
\<close>

section \<open>The program\<close>

type_synonym simple_state = "exit_state chan_state"

definition simple_parent :: "profile \<Rightarrow> (int, 'v, 'e) deque_lib \<Rightarrow> int \<Rightarrow> ('v, simple_state, unit) prog" where
  "simple_parent p D child =
     receiver_wait_for_message_timeout p D (secs 1) (\<lambda>r. case r of
       Inl e \<Rightarrow> Panic Expect_failed
     | Inr _ \<Rightarrow> receiver_receive p D (\<lambda>x. case x of
         None \<Rightarrow> Panic Expect_failed
       | Some x \<Rightarrow> lift_exec Panic (assert_exec (x = child)) (\<lambda>_.
           Loop (\<lambda>_. load world (\<lambda>e. case e of None \<Rightarrow> Continue 0 | Some ok \<Rightarrow> Return ())) 0)))"

text \<open>\<open>Pid::this()\<close> in the child is the id \<open>fork\<close> gave the parent.\<close>

definition simple_child :: "profile \<Rightarrow> (int, 'v, 'e) deque_lib \<Rightarrow> channel \<Rightarrow> int \<Rightarrow> ('v, simple_state, unit) prog" where
  "simple_child p D ch child = on_panic (\<lambda>q. Atomic (\<lambda>s. s\<lparr>world := Some False\<rparr>) (\<lambda>_. Panic q))
     (make_sender child ch (\<lambda>sender. sender_send p D child (\<lambda>r. case r of
       Inl x \<Rightarrow> Panic Expect_failed
     | Inr _ \<Rightarrow> Atomic (\<lambda>s. s\<lparr>world := Some True\<rparr>) (\<lambda>_. Return ()))))"


section \<open>Each process alone\<close>




section \<open>Both together\<close>



section \<open>A run\<close>

definition simple_state :: "(nat \<times> int list, simple_state, unit, wake_state) sys" where
  "simple_state = \<lparr>
     threads = (\<lambda>t. if t = 0 then simple_parent dev_profile list_deque 9
       else if t = 1 then simple_child dev_profile list_deque sample_channel 9 else Return ()),
     asleep = (\<lambda>_. False), cell = (4, []),
     shared = \<lparr>receivers = 1, senders = 0, dropping = False, references = (\<lambda>_. \<lparr>counter = 2, rc_pid = 7\<rparr>), world = None\<rparr>,
     lib = \<lparr>wk_holder = None, wk_sleeping = [], wk_woken = []\<rparr>\<rparr>"




section \<open>The example works\<close>



end
