(* ===== verification/Observations.thy ===== *)
theory Observations
  imports Condvar
begin

text \<open>
  What a thread has seen when it answers. A run of one thread is a list of observations (\<open>feed\<close> in
  \<open>Program\<close>); here they are also consistent with the lock: between taking and giving up the mutex,
  an access sees what the thread itself left (\<open>locked_feed\<close>). \<open>traced\<close> is a judgement over all such
  runs, whose postcondition relates the result to the observations. \<open>observed_runs\<close> connects it to
  the interleaved system: every thread of it makes such a run, and the shared state it observes is
  that of a moment of the execution.
\<close>

section \<open>Runs that respect the lock\<close>

text \<open>\<open>Some d\<close>: the thread knows that the protected value is \<open>d\<close>.\<close>

definition agrees :: "'d option \<Rightarrow> 'd \<Rightarrow> bool" where
  "agrees v d \<longleftrightarrow> v = None \<or> v = Some d"

definition moves_lock :: "pcall \<Rightarrow> bool" where
  "moves_lock c \<longleftrightarrow> takes_lock c \<or> waits c \<or> c = Pmutex_unlock"

definition next_view :: "('d, 's, 'r) prog \<Rightarrow> ('d, 's) obs \<Rightarrow> 'd option \<Rightarrow> 'd option option" where
  "next_view p x v = (case p of
     Access u k \<Rightarrow> (case x of O_access d \<Rightarrow> if agrees v d then Some (Some (u d)) else None | _ \<Rightarrow> None)
   | Exclusive u k \<Rightarrow> (case x of O_exclusive d \<Rightarrow> Some None | _ \<Rightarrow> None)
   | Pthread c k \<Rightarrow> Some (if moves_lock c then None else v)
   | _ \<Rightarrow> Some v)"

fun locked_feed :: "('d, 's, 'r) prog \<Rightarrow> 'd option \<Rightarrow> ('d, 's) obs list \<Rightarrow> (('d, 's, 'r) prog \<times> 'd option) option" where
  "locked_feed p v [] = Some (p, v)"
| "locked_feed p v (x # xs) = (case pstep p x of None \<Rightarrow> None | Some p' \<Rightarrow>
     (case next_view p x v of None \<Rightarrow> None | Some v' \<Rightarrow> locked_feed p' v' xs))"

lemma locked_feed_snoc:
  "locked_feed p v xs = Some (p1, v1) \<Longrightarrow> pstep p1 x = Some p2 \<Longrightarrow> next_view p1 x v1 = Some v2 \<Longrightarrow>
     locked_feed p v (xs @ [x]) = Some (p2, v2)"
  by (induction p v xs rule: locked_feed.induct) (auto split: option.splits)

section \<open>The judgement\<close>

type_synonym ('d, 's) trace = "('d, 's) obs list"

primrec traced :: "('r \<Rightarrow> ('d, 's) trace \<Rightarrow> bool) \<Rightarrow> ('d, 's, 'r) prog \<Rightarrow> 'd option \<Rightarrow> ('d, 's) trace \<Rightarrow>
    (nat \<Rightarrow> 'd option \<Rightarrow> ('d, 's) trace \<Rightarrow> bool) \<Rightarrow> bool" where
  "traced Q (Return r) v h J \<longleftrightarrow> Q r h"
| "traced Q (Panic q) v h J \<longleftrightarrow> True"
| "traced Q (Continue m) v h J \<longleftrightarrow> J m v h"
| "traced Q (Loop b n) v h J \<longleftrightarrow>
     (\<exists>J'. J' n v (h @ [O_loop]) \<and> (\<forall>m v' h'. J' m v' h' \<longrightarrow> traced Q (b m) v' h' (\<lambda>m v h. J' m v (h @ [O_loop]))))"
| "traced Q (Weak k) v h J \<longleftrightarrow> (\<forall>b. traced Q (k b) v (h @ [O_weak b]) J)"
| "traced Q (Access u k) v h J \<longleftrightarrow> (\<forall>d. agrees v d \<longrightarrow> traced Q (k d) (Some (u d)) (h @ [O_access d]) J)"
| "traced Q (Exclusive u k) v h J \<longleftrightarrow> (\<forall>d. traced Q (k d) None (h @ [O_exclusive d]) J)"
| "traced Q (Atomic u k) v h J \<longleftrightarrow> (\<forall>s. traced Q (k s) v (h @ [O_atomic s]) J)"
| "traced Q (Pthread c k) v h J \<longleftrightarrow> (\<forall>e. traced Q (k e) (if moves_lock c then None else v) (h @ [O_call c e]) J)"
| "traced Q (Gettime c k) v h J \<longleftrightarrow> (\<forall>r. traced Q (k r) v (h @ [O_time c r]) J)"
| "traced Q (Instant_now k) v h J \<longleftrightarrow> (\<forall>i. traced Q (k i) v (h @ [O_now i]) J)"
| "traced Q (Getpid k) v h J \<longleftrightarrow> (\<forall>i. traced Q (k i) v (h @ [O_pid i]) J)"

abbreviation traced_top :: "('r \<Rightarrow> ('d, 's) trace \<Rightarrow> bool) \<Rightarrow> ('d, 's, 'r) prog \<Rightarrow> 'd option \<Rightarrow> ('d, 's) trace \<Rightarrow> bool" where
  "traced_top Q p v h \<equiv> traced Q p v h (\<lambda>_ _ _. False)"

lemma traced_mono:
  assumes "\<And>m v h. J m v h \<Longrightarrow> J' m v h"
  shows "traced Q p v h J \<Longrightarrow> traced Q p v h J'"
  by (induction p arbitrary: v h) (auto intro: assms)

lemma traced_from_top: "traced_top Q p v h \<Longrightarrow> traced Q p v h J"
  by (erule traced_mono [rotated]) simp

lemma traced_plug:
  assumes after: "\<And>m v h. J' m v h \<Longrightarrow> traced Q (q m) v h J"
  shows "traced Q p v h J' \<Longrightarrow> traced Q (plug p q) v h J"
  by (induction p arbitrary: v h) (auto intro: after)

lemma traced_unroll:
  assumes "traced Q (Loop b n) v h J"
  shows "traced Q (unroll b n) v (h @ [O_loop]) J"
proof -
  obtain J' where J': "J' n v (h @ [O_loop])"
    "\<forall>m v' h'. J' m v' h' \<longrightarrow> traced Q (b m) v' h' (\<lambda>m v h. J' m v (h @ [O_loop]))"
    using assms by auto
  then have "traced Q (b n) v (h @ [O_loop]) (\<lambda>m v h. J' m v (h @ [O_loop]))" by blast
  moreover have "traced Q (Loop b m) v' h' J" if "J' m v' (h' @ [O_loop])" for m v' h' using J'(2) that by auto
  ultimately show ?thesis unfolding unroll_def by (rule traced_plug [rotated])
qed

lemma traced_step:
  assumes "traced_top Q p v h" "pstep p x = Some p'" "next_view p x v = Some v'"
  shows "traced_top Q p' v' (h @ [x])"
proof (cases p)
  case (Loop b n)
  with assms have "x = O_loop" "p' = unroll b n" "v' = v" by (auto simp: pstep_def next_view_def split: obs.splits)
  with traced_unroll [of Q b n v h] assms(1) Loop show ?thesis by simp
qed (use assms in \<open>auto simp: pstep_def next_view_def split: obs.splits if_splits\<close>)

lemma traced_sound:
  "traced_top Q p v h \<Longrightarrow> locked_feed p v xs = Some (Return r, v') \<Longrightarrow> Q r (h @ xs)"
proof (induction xs arbitrary: p v h)
  case (Cons x xs)
  from Cons.prems(2) obtain p1 v1 where "pstep p x = Some p1" "next_view p x v = Some v1" "locked_feed p1 v1 xs = Some (Return r, v')"
    by (auto split: option.splits)
  with Cons.IH [OF traced_step [OF Cons.prems(1)]] show ?case by fastforce
qed simp

section \<open>The operations in the judgement\<close>

text \<open>\<open>always Q k h J\<close>: whatever else has been observed on top of \<open>h\<close>, and whatever is known of the value.\<close>

definition always :: "('r \<Rightarrow> ('d, 's) trace \<Rightarrow> bool) \<Rightarrow> ('d, 's, 'r) prog \<Rightarrow> ('d, 's) trace \<Rightarrow>
    (nat \<Rightarrow> 'd option \<Rightarrow> ('d, 's) trace \<Rightarrow> bool) \<Rightarrow> bool" where
  "always Q k h J \<longleftrightarrow> (\<forall>v h'. set h \<subseteq> set h' \<longrightarrow> traced Q k v h' J)"

abbreviation always_top :: "('r \<Rightarrow> ('d, 's) trace \<Rightarrow> bool) \<Rightarrow> ('d, 's, 'r) prog \<Rightarrow> ('d, 's) trace \<Rightarrow> bool" where
  "always_top Q k h \<equiv> always Q k h (\<lambda>_ _ _. False)"

definition timed_out :: "('d, 's) trace \<Rightarrow> bool" where
  "timed_out h \<longleftrightarrow> (\<exists>t. O_call (Pmutex_timedlock t) ETIMEDOUT \<in> set h \<or> (\<exists>c. O_call (Pcond_timedwait c t) ETIMEDOUT \<in> set h))"

named_theorems trace_rules \<open>what a call needs of the code after it\<close>

lemma alwaysD: "always Q k h J \<Longrightarrow> set h \<subseteq> set h' \<Longrightarrow> traced Q k v h' J"
  by (simp add: always_def)

lemma always_later: "always Q k h J \<Longrightarrow> set h \<subseteq> set h' \<Longrightarrow> always Q k h' J"
  unfolding always_def by blast

lemma always_from_top: "always_top Q k h \<Longrightarrow> always Q k h J"
  unfolding always_def using traced_from_top by blast

lemma traced_lift_exec:
  assumes "\<And>q. traced Q (unwind q) v h J" "\<And>x. traced Q (k x) v h J"
  shows "traced Q (lift_exec unwind e k) v h J"
  using assms by (cases e) (auto intro!: exI [of _ "\<lambda>_ _ _. True"])

lemma always_lift_exec [trace_rules]:
  "(\<And>q. always Q (unwind q) h J) \<Longrightarrow> (\<And>x. always Q (k x) h J) \<Longrightarrow> always Q (lift_exec unwind e k) h J"
  unfolding always_def by (blast intro: traced_lift_exec)

lemma always_panic [trace_rules]: "always Q (Panic q) h J"
  by (simp add: always_def)

lemma always_call:
  assumes "\<And>e h'. set h \<subseteq> set h' \<Longrightarrow> O_call c e \<in> set h' \<Longrightarrow> always Q (k e) h' J"
  shows "always Q (Pthread c k) h J"
  unfolding always_def traced.simps
proof (intro allI impI)
  fix v h' e assume "set h \<subseteq> set h'"
  then show "traced Q (k e) (if moves_lock c then None else v) (h' @ [O_call c e]) J"
    by (intro alwaysD [OF assms subset_refl]) auto
qed

lemma always_atomic:
  assumes "\<And>s h'. set h \<subseteq> set h' \<Longrightarrow> O_atomic s \<in> set h' \<Longrightarrow> always Q (k s) h' J"
  shows "always Q (Atomic u k) h J"
  unfolding always_def traced.simps
proof (intro allI impI)
  fix v h' s assume "set h \<subseteq> set h'"
  then show "traced Q (k s) v (h' @ [O_atomic s]) J" by (intro alwaysD [OF assms subset_refl]) auto
qed

lemma always_access:
  "(\<And>d. always Q (k d) h J) \<Longrightarrow> always Q (Access u k) h J"
  unfolding always_def traced.simps by (metis Un_upper1 order_trans set_append)

lemma always_time:
  "(\<And>r. always Q (k r) h J) \<Longrightarrow> always Q (Gettime c k) h J"
  unfolding always_def traced.simps by (metis Un_upper1 order_trans set_append)

lemma always_now:
  "(\<And>i. always Q (k i) h J) \<Longrightarrow> always Q (Instant_now k) h J"
  unfolding always_def traced.simps by (metis Un_upper1 order_trans set_append)

lemma always_pid:
  "(\<And>i. always Q (k i) h J) \<Longrightarrow> always Q (Getpid k) h J"
  unfolding always_def traced.simps by (metis Un_upper1 order_trans set_append)

lemma always_guard_drop [trace_rules]: "always Q k h J \<Longrightarrow> always Q (guard_drop k) h J"
  unfolding guard_drop_def by (rule always_call) (rule always_later)

lemma always_signal [trace_rules]:
  "(\<And>q. always Q (unwind q) h J) \<Longrightarrow> always Q k h J \<Longrightarrow> always Q (condvar_signal c unwind k) h J"
  unfolding condvar_signal_def by (rule always_call) (auto intro: always_later)

lemma always_try_lock [trace_rules]:
  "always Q (k True) h J \<Longrightarrow> always Q (k False) h J \<Longrightarrow> always Q (mutex_try_lock k) h J"
  unfolding mutex_try_lock_def by (rule always_call) (auto intro: always_later always_panic)

lemma always_timedlock [trace_rules]:
  "always Q (k True) h J \<Longrightarrow> (\<And>h'. set h \<subseteq> set h' \<Longrightarrow> timed_out h' \<Longrightarrow> always Q (k False) h' J) \<Longrightarrow>
     always Q (mutex_try_lock_until_internal t k) h J"
  unfolding mutex_try_lock_until_internal_def
  by (rule always_call) (auto simp: timed_out_def intro: always_later always_panic)

lemma always_unix_from [trace_rules]:
  "(\<And>q. always Q (unwind q) h J) \<Longrightarrow> (\<And>t. always Q (k t) h J) \<Longrightarrow> always Q (unix_from p i unwind k) h J"
  unfolding unix_from_def by (intro always_now always_time always_lift_exec)

lemma always_try_lock_until [trace_rules]:
  "always Q (k True) h J \<Longrightarrow> (\<And>h'. set h \<subseteq> set h' \<Longrightarrow> timed_out h' \<Longrightarrow> always Q (k False) h' J) \<Longrightarrow>
     always Q (mutex_try_lock_until p t k) h J"
  unfolding mutex_try_lock_until_def by (intro trace_rules)

lemma always_try_lock_for [trace_rules]:
  "always Q (k True) h J \<Longrightarrow> (\<And>h'. set h \<subseteq> set h' \<Longrightarrow> timed_out h' \<Longrightarrow> always Q (k False) h' J) \<Longrightarrow>
     always Q (mutex_try_lock_for p d k) h J"
  unfolding mutex_try_lock_for_def by (intro always_time trace_rules)

text \<open>
  \<open>pred_traced Q is_ready R\<close>: the predicate answers \<open>b\<close> on the value \<open>d\<close> only if \<open>R b d\<close> holds of
  what has been observed; the thread then knows that the value is \<open>d\<close>.
\<close>

definition pred_traced :: "('r \<Rightarrow> ('d, 's) trace \<Rightarrow> bool) \<Rightarrow> ((bool \<Rightarrow> ('d, 's, 'r) prog) \<Rightarrow> ('d, 's, 'r) prog) \<Rightarrow>
    (bool \<Rightarrow> 'd \<Rightarrow> ('d, 's) trace \<Rightarrow> bool) \<Rightarrow> bool" where
  "pred_traced Q is_ready R \<longleftrightarrow> (\<forall>k v h J. (\<forall>b d h'. set h \<subseteq> set h' \<longrightarrow> R b d h' \<longrightarrow> traced Q (k b) (Some d) h' J) \<longrightarrow>
     traced Q (is_ready k) v h J)"

lemma pred_tracedD:
  "pred_traced Q is_ready R \<Longrightarrow> (\<And>b d h'. set h \<subseteq> set h' \<Longrightarrow> R b d h' \<Longrightarrow> traced Q (k b) (Some d) h' J) \<Longrightarrow>
     traced Q (is_ready k) v h J"
  by (simp add: pred_traced_def)

text \<open>A wait goes around its loop with more observations than before, and nothing known of the value.\<close>

lemma always_wait:
  assumes "pred_traced Q is_ready R" "\<And>q. always_top Q (unwind q) h"
    and "\<And>d h'. set h \<subseteq> set h' \<Longrightarrow> R True d h' \<Longrightarrow> traced_top Q k (Some d) h'"
  shows "always Q (condvar_wait c is_ready unwind k) h J"
proof -
  let ?J = "\<lambda>(m::nat) v h'. set h \<subseteq> set h'"
  let ?sleep = "Pthread (Pcond_wait c) (\<lambda>errno. if errno \<noteq> 0 then unwind (Os_failure errno) else Continue 0)"
  have "always Q ?sleep h ?J"
  proof (rule always_call)
    fix e h' assume "set h \<subseteq> set h'"
    then show "always Q (if e \<noteq> 0 then unwind (Os_failure e) else Continue 0) h' ?J"
      using always_from_top [OF assms(2)] always_later by (cases "e = 0") (auto simp: always_def)
  qed
  then have "traced Q (if b then k else ?sleep) (Some d) h' ?J" if "set h \<subseteq> set h'" "R b d h'" for b d h'
    using traced_from_top [OF assms(3) [OF that(1)]] that(2) alwaysD [OF _ that(1)] by (cases b) (simp_all del: traced.simps)
  then have body: "traced Q (is_ready (\<lambda>ready. if ready then k else ?sleep)) v h' ?J" if "set h \<subseteq> set h'" for v h'
    using that by (intro pred_tracedD [OF assms(1)]) blast+
  have step: "traced Q (is_ready (\<lambda>ready. if ready then k else ?sleep)) v h' (\<lambda>m v h1. ?J m v (h1 @ [O_loop]))"
    if "set h \<subseteq> set h'" for v h'
    by (rule traced_mono [OF _ body [OF that]]) auto
  show ?thesis unfolding always_def condvar_wait_def traced.simps
    by (intro allI impI exI [of _ ?J] conjI step) auto
qed

lemma always_wait_until_internal:
  assumes "pred_traced Q is_ready R" "\<And>q. always_top Q (unwind q) h"
    and "\<And>d h'. set h \<subseteq> set h' \<Longrightarrow> R True d h' \<Longrightarrow> traced_top Q (k True) (Some d) h'"
    and "\<And>h'. set h \<subseteq> set h' \<Longrightarrow> timed_out h' \<Longrightarrow> always_top Q (k False) h'"
  shows "always Q (condvar_wait_until_internal c t is_ready unwind k) h J"
proof -
  let ?J = "\<lambda>(m::nat) v h'. set h \<subseteq> set h'"
  let ?again = "is_ready (\<lambda>ready. if ready then k True else k False)"
  let ?sleep = "Pthread (Pcond_timedwait c t) (\<lambda>errno. if errno = ETIMEDOUT then ?again
      else if errno \<noteq> 0 then unwind (Os_failure errno) else Continue 0)"
  have yes: "traced Q (k True) (Some d) h' ?J" if "set h \<subseteq> set h'" "R True d h'" for d h'
    using assms(3) [OF that] by (rule traced_from_top)
  have "traced Q (if b then k True else k False) (Some d) h2 ?J"
    if "set h \<subseteq> set h2" "timed_out h2" "R b d h2" for b d h2
    using yes [OF that(1)] that(3) alwaysD [OF always_from_top [OF assms(4) [OF that(1,2)]] subset_refl] by (cases b) simp_all
  moreover have "timed_out h2" if "timed_out h1" "set h1 \<subseteq> set h2" for h1 h2 :: "('b, 'c) trace"
    using that by (auto simp: timed_out_def)
  ultimately have again: "always Q ?again h' ?J" if "set h \<subseteq> set h'" "timed_out h'" for h'
    using that unfolding always_def by (intro allI impI pred_tracedD [OF assms(1)]) blast
  have "always Q ?sleep h ?J"
  proof (rule always_call)
    fix e h' assume h': "set h \<subseteq> set h'" "O_call (Pcond_timedwait c t) e \<in> set h'"
    then show "always Q (if e = ETIMEDOUT then ?again else if e \<noteq> 0 then unwind (Os_failure e) else Continue 0) h' ?J"
      using always_from_top [OF assms(2)] always_later again [OF h'(1)]
      by (cases "e = 0") (auto simp: always_def timed_out_def)
  qed
  then have "traced Q (if b then k True else ?sleep) (Some d) h' ?J" if "set h \<subseteq> set h'" "R b d h'" for b d h'
    using yes [OF that(1)] that(2) alwaysD [OF _ that(1)] by (cases b) (simp_all del: traced.simps)
  then have body: "traced Q (is_ready (\<lambda>ready. if ready then k True else ?sleep)) v h' ?J" if "set h \<subseteq> set h'" for v h'
    using that by (intro pred_tracedD [OF assms(1)]) blast+
  have step: "traced Q (is_ready (\<lambda>ready. if ready then k True else ?sleep)) v h' (\<lambda>m v h1. ?J m v (h1 @ [O_loop]))"
    if "set h \<subseteq> set h'" for v h'
    by (rule traced_mono [OF _ body [OF that]]) auto
  show ?thesis unfolding always_def condvar_wait_until_internal_def traced.simps
    by (intro allI impI exI [of _ ?J] conjI step) auto
qed

lemma always_wait_until:
  assumes "pred_traced Q is_ready R" "\<And>q. always_top Q (unwind q) h"
    and "\<And>d h'. set h \<subseteq> set h' \<Longrightarrow> R True d h' \<Longrightarrow> traced_top Q (k True) (Some d) h'"
    and "\<And>h'. set h \<subseteq> set h' \<Longrightarrow> timed_out h' \<Longrightarrow> always_top Q (k False) h'"
  shows "always Q (condvar_wait_until p c t is_ready unwind k) h J"
  unfolding condvar_wait_until_def
  by (rule always_unix_from) (rule always_from_top [OF assms(2)], rule always_wait_until_internal [OF assms(1)], (rule assms; assumption)+)

section \<open>The threads of a system\<close>

text \<open>
  \<open>obs t\<close> is what thread \<open>t\<close> has observed so far, \<open>view t\<close> what it knows of the value. The shared
  state it observes is that of an earlier moment.
\<close>

definition seen_at :: "'l pthread \<Rightarrow> ('d, 's, 'r, 'l) sys \<Rightarrow> ('d, 's, 'r, 'l) sys \<Rightarrow> 's \<Rightarrow> bool" where
  "seen_at P s0 s x \<longleftrightarrow> (\<exists>s'. sys_reach P s0 s' \<and> sys_reach P s' s \<and> shared s' = x)"

definition watched :: "'l pthread \<Rightarrow> ('d, 's, 'r, 'l) sys \<Rightarrow> ('d, 's, 'r, 'l) sys \<Rightarrow> (tid \<Rightarrow> ('d, 's) trace) \<Rightarrow>
    (tid \<Rightarrow> 'd option) \<Rightarrow> bool" where
  "watched P s0 s obs view \<longleftrightarrow> (\<forall>t. locked_feed (threads s0 t) None (obs t) = Some (threads s t, view t) \<and>
     (\<not> asleep s t \<longrightarrow> (\<forall>d. view t = Some d \<longrightarrow> holder P (lib s) = Some t \<and> cell s = d)) \<and>
     (\<forall>x. O_atomic x \<in> set (obs t) \<longrightarrow> seen_at P s0 s x))"

lemma reach_trans: "sys_reach P a b \<Longrightarrow> sys_reach P b c \<Longrightarrow> sys_reach P a c"
  by (rotate_tac, induction rule: sys_reach.induct) (auto intro: sys_reach.intros)

lemma seen_at_step: "seen_at P s0 s x \<Longrightarrow> sys_step P s s' \<Longrightarrow> seen_at P s0 s' x"
  unfolding seen_at_def by (blast intro: reach_step)

lemma seen_now: "sys_reach P s0 s \<Longrightarrow> sys_step P s s' \<Longrightarrow> seen_at P s0 s' (shared s)"
  unfolding seen_at_def by (blast intro: sys_reach.intros)

text \<open>A step of one thread, which makes one observation, leaves what the others know true.\<close>

lemma watched_step:
  assumes "watched P s0 s obs view" "sys_step P s s'" "pstep (threads s t) x = Some q" "next_view (threads s t) x (view t) = Some v"
    and "threads s' = (threads s)(t := q)" "asleep s' = (asleep s)(t := False)"
    and "\<And>d. v = Some d \<Longrightarrow> holder P (lib s') = Some t \<and> cell s' = d"
    and "\<And>t'. t' \<noteq> t \<Longrightarrow> holder P (lib s) = Some t' \<Longrightarrow> holder P (lib s') = Some t' \<and> cell s' = cell s"
    and "\<And>y. x = O_atomic y \<Longrightarrow> seen_at P s0 s' y"
  shows "watched P s0 s' (obs(t := obs t @ [x])) (view(t := v))"
proof -
  have "locked_feed (threads s0 t) None (obs t @ [x]) = Some (q, v)"
    by (rule locked_feed_snoc [OF _ assms(3,4)]) (use assms(1) in \<open>simp add: watched_def\<close>)
  moreover have "\<forall>y. O_atomic y \<in> set (obs t @ [x]) \<longrightarrow> seen_at P s0 s' y"
    using assms(1,9) seen_at_step [OF _ assms(2)] by (auto simp: watched_def)
  moreover have "\<forall>t'. t' \<noteq> t \<longrightarrow> \<not> asleep s t' \<longrightarrow> (\<forall>d. view t' = Some d \<longrightarrow> holder P (lib s') = Some t' \<and> cell s' = d)"
    using assms(1,8) by (auto simp: watched_def)
  moreover have "\<forall>t'. locked_feed (threads s0 t') None (obs t') = Some (threads s t', view t') \<and>
      (\<forall>y. O_atomic y \<in> set (obs t') \<longrightarrow> seen_at P s0 s' y)"
    using assms(1) seen_at_step [OF _ assms(2)] by (auto simp: watched_def)
  ultimately show ?thesis using assms(5-7) by (auto simp: watched_def)
qed

text \<open>Only the holder of the mutex takes it away from the holder.\<close>

lemma others_keep_lock:
  assumes "pthread_laws P" "sys_inv R C P d0 s log" "threads s t = Pthread c k" "\<not> asleep s t" "\<not> waits c"
    and "call_ans P (lib s) t c e l'" "t' \<noteq> t" "holder P (lib s) = Some t'"
  shows "holder P l' = Some t'"
proof -
  note laws = pthread_laws_rules [OF assms(1)]
  have ok: "safe_top (C t) (Pthread c k) Free (of_thread t log)"
    using sys_inv_awake [OF assms(2,4)] assms(3,7,8) by (simp add: view_of_def)
  show ?thesis
  proof (cases "takes_lock c")
    case True
    then show ?thesis using laws(1,2) [OF _ True] assms(6,8) by (cases "e = 0") auto
  next
    case False
    with ok assms(5) have "c \<noteq> Pmutex_unlock" by (auto simp: takes_lock_def)
    with laws(4) [OF assms(6) False] assms(8) show ?thesis by simp
  qed
qed

lemma own_view_kept:
  assumes "pthread_laws P" "call_ans P (lib s) t c e l'" "\<not> moves_lock c"
  shows "holder P l' = holder P (lib s)"
  using pthread_laws_rules(4) [OF assms(1,2)] assms(3) by (simp add: moves_lock_def)

lemma watched_awake:
  "watched P s0 s obs view \<Longrightarrow> \<not> asleep s t \<Longrightarrow> view t = Some d \<Longrightarrow> holder P (lib s) = Some t \<and> cell s = d"
  by (simp add: watched_def)

lemma watched_preserved:
  assumes laws: "pthread_laws P" and reach: "sys_reach P s0 s" and inv: "sys_inv R C P d0 s log"
    and old: "watched P s0 s obs view" and step: "sys_step P s s'"
  shows "\<exists>obs view. watched P s0 s' obs view"
proof -
  note same = fun_upd_idem [of "asleep s" _ False, symmetric]
  note move = watched_step [OF old step] and known = watched_awake [OF old]
  have awake: "\<not> asleep s t" if "\<And>c k. threads s t = Pthread c k \<Longrightarrow> \<not> waits c" for t
    using asleep_waits [OF inv, of t] that by blast
  from step show ?thesis
  proof cases
    case (step_loop t b n)
    then have a: "\<not> asleep s t" by (intro awake) simp
    show ?thesis by (intro exI, rule move [where t = t and x = O_loop and v = "view t"])
      (use step_loop a known same [of t] in \<open>simp_all add: next_view_def\<close>)
  next
    case (step_weak t k b)
    then have a: "\<not> asleep s t" by (intro awake) simp
    show ?thesis by (intro exI, rule move [where t = t and x = "O_weak b" and v = "view t"])
      (use step_weak a known same [of t] in \<open>simp_all add: next_view_def\<close>)
  next
    case (step_access t u k)
    then have a: "\<not> asleep s t" by (intro awake) simp
    have h: "holder P (lib s) = Some t" using inv step_access(2) by (rule sys_inv_waiting)
    have "agrees (view t) (cell s)" using known [OF a] by (cases "view t") (auto simp: agrees_def)
    then show ?thesis by (intro exI, rule_tac move [where t = t and x = "O_access (cell s)" and v = "Some (u (cell s))"])
      (use step_access a h same [of t] in \<open>simp_all add: next_view_def\<close>)
  next
    case (step_exclusive t u k)
    then have a: "\<not> asleep s t" by (intro awake) simp
    show ?thesis using sys_inv_awake [OF inv a] step_exclusive by simp
  next
    case (step_atomic t w k)
    then have a: "\<not> asleep s t" by (intro awake) simp
    show ?thesis by (intro exI, rule move [where t = t and x = "O_atomic (shared s)" and v = "view t"])
      (use step_atomic a known seen_now [OF reach step] same [of t] in \<open>simp_all add: next_view_def\<close>)
  next
    case (step_time t c k r)
    then have a: "\<not> asleep s t" by (intro awake) simp
    show ?thesis by (intro exI, rule move [where t = t and x = "O_time c r" and v = "view t"])
      (use step_time a known same [of t] in \<open>simp_all add: next_view_def\<close>)
  next
    case (step_now t k i)
    then have a: "\<not> asleep s t" by (intro awake) simp
    show ?thesis by (intro exI, rule move [where t = t and x = "O_now i" and v = "view t"])
      (use step_now a known same [of t] in \<open>simp_all add: next_view_def\<close>)
  next
    case (step_pid t k j)
    then have a: "\<not> asleep s t" by (intro awake) simp
    show ?thesis by (intro exI, rule move [where t = t and x = "O_pid j" and v = "view t"])
      (use step_pid a known same [of t] in \<open>simp_all add: next_view_def\<close>)
  next
    case (step_call t c k e l')
    then have a: "\<not> asleep s t" by (intro awake) simp
    show ?thesis
      by (intro exI, rule move [where t = t and x = "O_call c e" and v = "if moves_lock c then None else view t"])
        (use step_call a known own_view_kept [OF laws step_call(4)] others_keep_lock [OF laws inv step_call(2) a step_call(3,4)]
          same [of t] in \<open>simp_all add: next_view_def split: if_split_asm\<close>)
  next
    case (step_sleep t c k l')
    have "holder P (lib s) = Some t" using sys_inv_awake [OF inv step_sleep(4)] step_sleep(2,3)
      by (auto simp: view_of_def split: if_split_asm)
    then have "watched P s0 s' obs view"
      using old seen_at_step [OF _ step] step_sleep(1) by (auto simp: watched_def)
    then show ?thesis by blast
  next
    case (step_wake t c k e l')
    have "holder P (lib s) = None" using pthread_laws_rules(6) [OF laws step_wake(5)] by simp
    then show ?thesis by (intro exI, rule_tac move [where t = t and x = "O_call c e" and v = None])
      (use step_wake in \<open>simp_all add: next_view_def moves_lock_def\<close>)
  qed
qed

lemma observed_runs:
  assumes "pthread_laws P" "sys_inv R C P (cell s0) s0 []"
  shows "sys_reach P s0 s \<Longrightarrow> \<exists>obs view. watched P s0 s obs view"
proof (induction rule: sys_reach.induct)
  case reach_start
  have "watched P s0 s0 (\<lambda>_. []) (\<lambda>_. None)" by (simp add: watched_def)
  then show ?case by blast
next
  case (reach_step s s')
  then obtain obs view log where "watched P s0 s obs view" "sys_inv R C P (cell s0) s log"
    using interleaving_sound [OF assms] by blast
  then show ?case using watched_preserved [OF assms(1) reach_step(1)] reach_step(2) by blast
qed

text \<open>
  What the judgement says of every run, every thread of a system satisfies with what it has
  observed there.
\<close>

lemma answers_explained:
  assumes "pthread_laws P" "sys_inv R C P (cell s0) s0 []" "sys_reach P s0 s" "threads s t = Return r"
    and "traced_top Q (threads s0 t) None []"
  obtains h where "Q r h" "\<And>x. O_atomic x \<in> set h \<Longrightarrow> seen_at P s0 s x"
proof -
  obtain obs view where "watched P s0 s obs view" using observed_runs [OF assms(1-3)] by blast
  then have "locked_feed (threads s0 t) None (obs t) = Some (Return r, view t)"
    "\<And>x. O_atomic x \<in> set (obs t) \<Longrightarrow> seen_at P s0 s x" using assms(4) by (simp_all add: watched_def)
  with traced_sound [OF assms(5)] that show thesis by fastforce
qed

end
