(* ===== verification/Answers.thy ===== *)
theory Answers
  imports Observations Channel_Calls Wake_Ups
begin

text \<open>
  Why the channel answers what it answers, in the judgement of \<open>Observations\<close>: an operation that
  waits gives up only after the thread has seen the reason. The two blocking operations are
  followed through any interleaving; of the timed ones, whose errors say more, every single run is.
\<close>

section \<open>Reasons\<close>

text \<open>
  \<open>has_seen B h\<close>: the thread has read the atomics at a moment when \<open>B\<close> held of them; \<open>has_read\<close> is the same for the queue.
\<close>

definition has_seen :: "('s \<Rightarrow> bool) \<Rightarrow> ('d, 's) trace \<Rightarrow> bool" where
  "has_seen B h \<longleftrightarrow> (\<exists>s. O_atomic s \<in> set h \<and> B s)"

definition has_read :: "('d \<Rightarrow> bool) \<Rightarrow> ('d, 's) trace \<Rightarrow> bool" where
  "has_read B h \<longleftrightarrow> (\<exists>q. O_access q \<in> set h \<and> B q)"

lemma has_seen_later [intro]: "has_seen B h \<Longrightarrow> set h \<subseteq> set h' \<Longrightarrow> has_seen B h'"
  by (auto simp: has_seen_def)

lemma has_read_later [intro]: "has_read B h \<Longrightarrow> set h \<subseteq> set h' \<Longrightarrow> has_read B h'"
  by (auto simp: has_read_def)

lemma has_seen_dropping: "has_seen dropping h \<Longrightarrow> has_seen (nobody users) h"
  by (auto simp: has_seen_def nobody_def)

section \<open>The tests\<close>

lemma always_unlock_and_panic [trace_rules]: "always Q (unlock_and_panic q) h J"
  unfolding unlock_and_panic_def by (intro trace_rules)

lemma always_dropping:
  assumes "\<And>h'. set h \<subseteq> set h' \<Longrightarrow> has_seen dropping h' \<Longrightarrow> always Q (k True) h' J"
    and "\<And>h'. set h \<subseteq> set h' \<Longrightarrow> always Q (k False) h' J"
  shows "always Q (load dropping k) h J"
  unfolding load_def
proof (rule always_atomic)
  fix s h' assume "set h \<subseteq> set h'" "O_atomic s \<in> set h'"
  then show "always Q (k (dropping s)) h' J"
    using assms by (cases "dropping s") (auto simp: has_seen_def)
qed

lemma always_nobody:
  assumes "\<And>h'. set h \<subseteq> set h' \<Longrightarrow> has_seen (nobody users) h' \<Longrightarrow> always Q (k True) h' J"
    and "\<And>h'. set h \<subseteq> set h' \<Longrightarrow> always Q (k False) h' J"
  shows "always Q (load users (\<lambda>n. if n = 0 then k True else load dropping k)) h J"
  unfolding load_def [of users]
proof (rule always_atomic)
  fix s h1 assume h1: "set h \<subseteq> set h1" "O_atomic s \<in> set h1"
  have "always Q (load dropping k) h1 J"
    by (rule always_dropping) (use h1(1) assms has_seen_dropping in blast)+
  moreover have "always Q (k True) h1 J" if "users s = 0"
    using h1 that by (intro assms(1)) (auto simp: has_seen_def nobody_def)
  ultimately show "always Q (if users s = 0 then k True else load dropping k) h1 J" by simp
qed

lemmas always_none_or_dropping = always_nobody [folded none_or_dropping_def]

text \<open>The predicates: true means what was waited for, or the reason to give up.\<close>

lemma pred_traced_intro:
  assumes "\<And>k d h J. (\<And>b h'. set h \<subseteq> set h' \<Longrightarrow> R b d h' \<Longrightarrow> traced Q (k b) (Some d) h' J) \<Longrightarrow>
      O_access d \<in> set h \<Longrightarrow> traced Q (f k d) (Some d) h J"
  shows "pred_traced Q (\<lambda>k. Access (\<lambda>q. q) (f k)) R"
  unfolding pred_traced_def traced.simps by (intro allI impI assms) auto

lemma traced_nobody:
  assumes "\<And>b h'. set h \<subseteq> set h' \<Longrightarrow> (b \<longrightarrow> has_seen (nobody users) h') \<Longrightarrow> traced Q (k b) v h' J"
  shows "traced Q (load users (\<lambda>n. if n = 0 then k True else load dropping k)) v h J"
  unfolding load_def traced.simps
proof (intro allI)
  fix s
  show "traced Q (if users s = 0 then k True else Atomic (\<lambda>s. s) (\<lambda>s. k (dropping s))) v (h @ [O_atomic s]) J"
    by (auto simp: has_seen_def nobody_def intro!: assms)
qed

lemma pred_traced_receive:
  "pred_traced Q (item_or_no_senders D) (\<lambda>b q h. b \<longrightarrow> \<not> dq_is_empty D q \<or> has_seen (nobody senders) h)"
  unfolding item_or_no_senders_def by (rule pred_traced_intro) (auto intro: traced_nobody)

lemma pred_traced_send: "pred_traced Q (space_or_no_receivers D) (\<lambda>_ _ _. True)"
  unfolding space_or_no_receivers_def by (rule pred_traced_intro) (auto intro: traced_nobody)

lemma pred_traced_message:
  "pred_traced Q (item_or_dropping D) (\<lambda>b q h. b \<longrightarrow> has_read (\<lambda>q. \<not> dq_is_empty D q) h \<or> has_seen dropping h)"
  unfolding item_or_dropping_def
proof (rule pred_traced_intro)
  fix k d h J
  assume k: "\<And>b h'. set h \<subseteq> set h' \<Longrightarrow> (b \<longrightarrow> has_read (\<lambda>q. \<not> dq_is_empty D q) h' \<or> has_seen dropping h') \<Longrightarrow>
      traced Q (k b) (Some d) h' J" and "O_access d \<in> set h"
  then show "traced Q (if \<not> dq_is_empty D d then k True else load dropping k) (Some d) h J"
    by (auto simp: load_def has_seen_def has_read_def intro!: k)
qed

section \<open>The operations\<close>


lemma always_push:
  "(\<And>h'. set h \<subseteq> set h' \<Longrightarrow> always Q k h' J) \<Longrightarrow> always Q (push_or_panic D item k) h J"
  unfolding push_or_panic_def inner_push_def
  by (intro always_access) (auto split: sum.split intro!: trace_rules)

text \<open>Taking an item: the thread has read the queue that had it in front.\<close>

lemma always_pop:
  assumes "\<And>h'. set h \<subseteq> set h' \<Longrightarrow> always Q (k None) h' J"
    and "\<And>x h'. set h \<subseteq> set h' \<Longrightarrow> has_read (\<lambda>q. fst (dq_pop_front D q) = Some x) h' \<Longrightarrow> always Q (k (Some x)) h' J"
  shows "always Q (inner_pop D k) h J"
  unfolding always_def inner_pop_def traced.simps
proof (intro allI impI)
  fix v h' q assume h: "set h \<subseteq> set h'"
  let ?h = "h' @ [O_access q]"
  have le: "set h \<subseteq> set ?h" using h by auto
  have "has_read (\<lambda>q. fst (dq_pop_front D q) = Some x) ?h" if "fst (dq_pop_front D q) = Some x" for x
    using that by (auto simp: has_read_def)
  then have "always Q (case fst (dq_pop_front D q) of None \<Rightarrow> k None
      | Some item \<Rightarrow> condvar_signal space_maybe_available unlock_and_panic (k (Some item))) ?h J"
    using assms le by (auto split: option.split intro!: trace_rules)
  then show "traced Q (case fst (dq_pop_front D q) of None \<Rightarrow> k None
      | Some item \<Rightarrow> condvar_signal space_maybe_available unlock_and_panic (k (Some item))) (Some (snd (dq_pop_front D q))) ?h J"
    by (rule alwaysD) simp
qed




text \<open>What the timed operations answer, and what they have seen then.\<close>

definition receive_reason :: "('t, 'v, 'e) deque_lib \<Rightarrow> try_receive_error + 't \<Rightarrow> ('v, 'w chan_state) trace \<Rightarrow> bool" where
  "receive_reason D r h \<longleftrightarrow> (case r of
     Inl No_senders \<Rightarrow> has_seen (nobody senders) h
   | Inl Receive_timed_out \<Rightarrow> timed_out h
   | Inr x \<Rightarrow> has_read (\<lambda>q. fst (dq_pop_front D q) = Some x) h)"

definition send_reason :: "'t \<Rightarrow> 't try_send_error + unit \<Rightarrow> ('v, 'w chan_state) trace \<Rightarrow> bool" where
  "send_reason item r h \<longleftrightarrow> (case r of
     Inl (No_receivers y) \<Rightarrow> y = item \<and> has_seen (nobody receivers) h
   | Inl (Send_timed_out y) \<Rightarrow> y = item \<and> timed_out h
   | Inr _ \<Rightarrow> True)"

definition message_reason :: "('t, 'v, 'e) deque_lib \<Rightarrow> waiting_error + unit \<Rightarrow> ('v, 'w chan_state) trace \<Rightarrow> bool" where
  "message_reason D r h \<longleftrightarrow> (case r of
     Inl Queue_dropped \<Rightarrow> has_seen dropping h
   | Inl Timeout_reached \<Rightarrow> timed_out h
   | Inr _ \<Rightarrow> has_read (\<lambda>q. \<not> dq_is_empty D q) h \<or> has_seen dropping h)"

lemma timed_out_later: "timed_out h \<Longrightarrow> set h \<subseteq> set h' \<Longrightarrow> timed_out h'"
  by (auto simp: timed_out_def)

lemma reasons_later:
  "receive_reason D r h \<Longrightarrow> set h \<subseteq> set h' \<Longrightarrow> receive_reason D r h'"
  "send_reason item r' h \<Longrightarrow> set h \<subseteq> set h' \<Longrightarrow> send_reason item r' h'"
  "message_reason D r'' h \<Longrightarrow> set h \<subseteq> set h' \<Longrightarrow> message_reason D r'' h'"
  using has_seen_later [of _ h h'] has_read_later [of _ h h'] timed_out_later [of h h']
  by (auto simp: receive_reason_def send_reason_def message_reason_def
      split: sum.splits try_receive_error.splits try_send_error.splits waiting_error.splits)

lemma always_return: "(\<And>h'. set h \<subseteq> set h' \<Longrightarrow> Q r h') \<Longrightarrow> always_top Q (Return r) h"
  by (simp add: always_def)

lemma always_try_receive_until:
  assumes "\<And>r h'. set h \<subseteq> set h' \<Longrightarrow> receive_reason D r h' \<Longrightarrow> always_top Q (k r) h'"
  shows "always_top Q (inner_try_receive_until p D t k) h"
  unfolding inner_try_receive_until_def
proof (rule always_dropping)
  fix h1 assume h1: "set h \<subseteq> set h1"
  note le = order_trans [OF h1]
  show "has_seen dropping h1 \<Longrightarrow> always_top Q (if True then k (Inl No_senders) else c) h1" for c
    by (auto simp: receive_reason_def intro!: assms [OF h1] has_seen_dropping)
  let ?take = "none_or_dropping senders (\<lambda>b. if b then guard_drop (k (Inl No_senders))
      else inner_pop D (\<lambda>r. case r of None \<Rightarrow> unlock_and_panic Expect_failed | Some item \<Rightarrow> guard_drop (k (Inr item))))"
  have pop: "always_top Q (inner_pop D (\<lambda>r. case r of None \<Rightarrow> unlock_and_panic Expect_failed | Some item \<Rightarrow> guard_drop (k (Inr item)))) h2"
    if "set h1 \<subseteq> set h2" for h2
    by (auto simp: receive_reason_def intro!: trace_rules always_pop assms [OF le [OF order_trans [OF that]]])
  have take: "always_top Q ?take h2" if "set h1 \<subseteq> set h2" for h2
    by (rule always_none_or_dropping)
      (auto simp: receive_reason_def intro!: trace_rules pop [OF order_trans [OF that]] assms [OF le [OF order_trans [OF that]]])
  have wait: "always_top Q (condvar_wait_until p item_maybe_available t (item_or_no_senders D) unlock_and_panic (\<lambda>ok.
      if \<not> ok then guard_drop (k (Inl Receive_timed_out)) else ?take)) h1"
    by (rule always_wait_until [OF pred_traced_receive always_unlock_and_panic])
      (auto simp: receive_reason_def intro!: trace_rules assms [OF le] alwaysD [OF take])
  show "always_top Q (if False then k (Inl No_senders) else mutex_try_lock_until p t (\<lambda>guard.
      if \<not> guard then k (Inl Receive_timed_out)
      else condvar_wait_until p item_maybe_available t (item_or_no_senders D) unlock_and_panic (\<lambda>ok.
        if \<not> ok then guard_drop (k (Inl Receive_timed_out)) else ?take))) h1"
    using wait by (auto simp: receive_reason_def intro!: always_try_lock_until assms [OF le])
qed

lemma always_try_send_until:
  assumes "\<And>r h'. set h \<subseteq> set h' \<Longrightarrow> send_reason item r h' \<Longrightarrow> always_top Q (k r) h'"
  shows "always_top Q (inner_try_send_until p D item t k) h"
  unfolding inner_try_send_until_def
proof (rule always_dropping)
  fix h1 assume h1: "set h \<subseteq> set h1"
  note le = order_trans [OF h1]
  show "has_seen dropping h1 \<Longrightarrow> always_top Q (if True then k (Inl (No_receivers item)) else c) h1" for c
    by (auto simp: send_reason_def intro!: assms [OF h1] has_seen_dropping)
  let ?put = "none_or_dropping receivers (\<lambda>b. if b then guard_drop (k (Inl (No_receivers item)))
      else push_or_panic D item (k (Inr ())))"
  have put: "always_top Q ?put h2" if "set h1 \<subseteq> set h2" for h2
    by (rule always_none_or_dropping)
      (auto simp: send_reason_def intro!: trace_rules always_push assms [OF le [OF order_trans [OF that]]])
  have wait: "always_top Q (condvar_wait_until p space_maybe_available t (space_or_no_receivers D) unlock_and_panic (\<lambda>ok.
      if \<not> ok then guard_drop (k (Inl (Send_timed_out item))) else ?put)) h1"
    by (rule always_wait_until [OF pred_traced_send always_unlock_and_panic])
      (auto simp: send_reason_def intro!: trace_rules assms [OF le] alwaysD [OF put])
  show "always_top Q (if False then k (Inl (No_receivers item)) else mutex_try_lock_until p t (\<lambda>guard.
      if \<not> guard then k (Inl (Send_timed_out item))
      else condvar_wait_until p space_maybe_available t (space_or_no_receivers D) unlock_and_panic (\<lambda>ok.
        if \<not> ok then guard_drop (k (Inl (Send_timed_out item))) else ?put))) h1"
    using wait by (auto simp: send_reason_def intro!: always_try_lock_until assms [OF le])
qed

lemma always_wait_for_message_until:
  assumes "\<And>r h'. set h \<subseteq> set h' \<Longrightarrow> message_reason D r h' \<Longrightarrow> always_top Q (k r) h'"
  shows "always_top Q (inner_wait_for_message_until p D t k) h"
  unfolding inner_wait_for_message_until_def
proof (rule always_dropping)
  fix h1 assume h1: "set h \<subseteq> set h1"
  note le = order_trans [OF h1]
  show "has_seen dropping h1 \<Longrightarrow> always_top Q (if True then k (Inl Queue_dropped) else c) h1" for c
    using assms [OF h1] by (simp add: message_reason_def)
  have ready: "always_top Q (k (Inr ())) h2"
    if "set h1 \<subseteq> set h2" "has_read (\<lambda>q. \<not> dq_is_empty D q) h2 \<or> has_seen dropping h2" for h2
    using that by (intro assms [OF le]) (auto simp: message_reason_def)
  have wait: "always_top Q (condvar_wait_until p item_maybe_available t (item_or_dropping D) unlock_and_panic (\<lambda>ok.
      if \<not> ok then guard_drop (k (Inl Timeout_reached)) else guard_drop (k (Inr ())))) h1"
    by (rule always_wait_until [OF pred_traced_message always_unlock_and_panic])
      (auto simp: message_reason_def intro!: trace_rules assms [OF le] alwaysD [OF _ subset_refl] ready)
  show "always_top Q (if False then k (Inl Queue_dropped) else mutex_try_lock_until p t (\<lambda>guard.
      if \<not> guard then k (Inl Timeout_reached)
      else condvar_wait_until p item_maybe_available t (item_or_dropping D) unlock_and_panic (\<lambda>ok.
        if \<not> ok then guard_drop (k (Inl Timeout_reached)) else guard_drop (k (Inr ()))))) h1"
    using wait by (auto simp: message_reason_def intro!: always_try_lock_until assms [OF le])
qed

section \<open>Threads that use the channel\<close>












section \<open>The timed operations\<close>

text \<open>A timed receive that takes an item, a timed send that cannot get the mutex, and a wait on a dropped channel.\<close>

definition sample_atomics :: "bool \<Rightarrow> unit chan_state" where
  "sample_atomics b = \<lparr>receivers = 1, senders = 1, dropping = b, references = (\<lambda>_. \<lparr>counter = 1, rc_pid = 7\<rparr>), world = ()\<rparr>"

definition saw_item :: "(nat \<times> nat list, unit chan_state) trace" where
  "saw_item = (let t = \<lparr>tv_sec = 0, tv_nsec = 5\<rparr>; a = O_atomic (sample_atomics False) in
     [a, O_now 0, O_time CLOCK_MONOTONIC epoch, O_call (Pmutex_timedlock t) 0, O_now 0, O_time CLOCK_MONOTONIC epoch,
      O_loop, O_access (1, [4]), a, a, O_access (1, [4]), O_call (Pcond_signal space_maybe_available) 0, O_call Pmutex_unlock 0])"

definition saw_no_lock :: "(nat \<times> nat list, unit chan_state) trace" where
  "saw_no_lock = [O_atomic (sample_atomics False), O_now 0, O_time CLOCK_MONOTONIC epoch,
     O_call (Pmutex_timedlock \<lparr>tv_sec = 0, tv_nsec = 5\<rparr>) ETIMEDOUT]"

definition saw_dropping :: "(nat \<times> nat list, unit chan_state) trace" where
  "saw_dropping = [O_atomic (sample_atomics True)]"

lemma sample_observations:
  "locked_feed (receiver_try_receive_until dev_profile list_deque 5 Return) None saw_item = Some (Return (Inr 4), None)"
  "locked_feed (sender_try_send_until dev_profile list_deque 6 5 Return) None saw_no_lock = Some (Return (Inl (Send_timed_out 6)), None)"
  "locked_feed (receiver_wait_for_message_until dev_profile list_deque 5 Return) None saw_dropping = Some (Return (Inl Queue_dropped), None)"
  by (simp_all add: Let_def saw_item_def saw_no_lock_def saw_dropping_def five_nanoseconds_after_epoch sample_atomics_def until_defs
      inner_try_send_until_def run_defs next_view_def agrees_def moves_lock_def takes_lock_def)

text \<open>
  C14: the errors of the timed operations mean what they say, on every run of the thread that
  respects the lock: \<open>NoSenders\<close> and \<open>NoReceivers\<close> come after the thread has seen the counter at
  zero or the channel being destroyed, \<open>QueueDropped\<close> after the latter, the time-outs after a timed
  call of the system has expired; a received item was at the front of the queue when the thread
  read it, an item that comes back with an error is the one given, and \<open>wait_for_message\<close> succeeds
  after an item has been read or the destruction seen.
\<close>

theorem timed_answers_explained:
  assumes "locked_feed (receiver_try_receive_until p D until Return) None xs = Some (Return r, v)"
    and "locked_feed (sender_try_send_until p D item until Return) None ys = Some (Return r', v')"
    and "locked_feed (receiver_wait_for_message_until p D until Return) None zs = Some (Return r'', v'')"
  shows "receive_reason D r xs \<and> send_reason item r' ys \<and> message_reason D r'' zs"
proof (intro conjI)
  have "always_top (receive_reason D) (receiver_try_receive_until p D until Return) []"
    unfolding receiver_try_receive_until_def by (intro always_try_receive_until always_return) (rule reasons_later)
  from traced_sound [OF alwaysD [OF this subset_refl] assms(1)] show "receive_reason D r xs" by simp
  have "always_top (send_reason item) (sender_try_send_until p D item until Return) []"
    unfolding sender_try_send_until_def by (intro always_try_send_until always_return) (rule reasons_later)
  from traced_sound [OF alwaysD [OF this subset_refl] assms(2)] show "send_reason item r' ys" by simp
  have "always_top (message_reason D) (receiver_wait_for_message_until p D until Return) []"
    unfolding receiver_wait_for_message_until_def by (intro always_wait_for_message_until always_return) (rule reasons_later)
  from traced_sound [OF alwaysD [OF this subset_refl] assms(3)] show "message_reason D r'' zs" by simp
qed

theorem timed_answers_explained_witness:
  "receive_reason list_deque (Inr 4) saw_item \<and> send_reason (6 :: nat) (Inl (Send_timed_out 6)) saw_no_lock \<and>
   message_reason list_deque (Inl Queue_dropped) saw_dropping"
  by (rule timed_answers_explained [OF sample_observations])

end
