(* ===== verification/Scoped.thy ===== *)
theory Scoped
  imports Memmap
begin

text \<open>
  \<open>src/autoclean.rs\<close>: \<open>Scoped\<close>, a block that is given back when it goes out of scope. (\<open>lib.rs\<close> has
  the module commented out.) The allocator is any type of the third-party trait \<open>Alloc\<close>: its two
  methods are the parameter \<open>alloc_ops\<close>, over the allocator's own value \<open>'a\<close>, which both take by
  \<open>&mut\<close>, and the memory \<open>'s\<close> around it. The locale \<open>block_source\<close> is what the trait asks of them;
  \<open>MemmapAlloc\<close> meets it.
\<close>

section \<open>The code\<close>

record ('a, 's) alloc_ops =
  al_alloc :: "layout \<Rightarrow> 'a \<Rightarrow> 's \<Rightarrow> (alloc_error + nat) \<times> 'a \<times> 's"
  al_dealloc :: "nat \<Rightarrow> layout \<Rightarrow> 'a \<Rightarrow> 's \<Rightarrow> 'a \<times> 's"

record 'a scoped =
  sc_ptr :: nat
  sc_layout :: layout
  sc_allocator :: 'a

definition scoped_new :: "('a, 's) alloc_ops \<Rightarrow> 'a \<Rightarrow> layout \<Rightarrow> 's \<Rightarrow> (alloc_error + 'a scoped) \<times> 's" where
  "scoped_new A allocator layout s =
     (case al_alloc A layout allocator s of
        (Inl e, _, s') \<Rightarrow> (Inl e, s')
      | (Inr ptr, allocator', s') \<Rightarrow> (Inr \<lparr>sc_ptr = ptr, sc_layout = layout, sc_allocator = allocator'\<rparr>, s'))"

definition scoped_as_ptr :: "'a scoped \<Rightarrow> nat" where
  "scoped_as_ptr self = sc_ptr self"

text \<open>\<open>into_raw\<close> forgets the value, so its destructor does not run.\<close>

definition scoped_into_raw :: "'a scoped \<Rightarrow> nat \<times> 'a" where
  "scoped_into_raw self = (sc_ptr self, sc_allocator self)"

definition scoped_drop :: "('a, 's) alloc_ops \<Rightarrow> 'a scoped \<Rightarrow> 's \<Rightarrow> 's" where
  "scoped_drop A self s = snd (al_dealloc A (sc_ptr self) (sc_layout self) (sc_allocator self) s)"

text \<open>The block a scope owns; and code that opens scopes one after the other, leaving early on an error.\<close>

definition block_of :: "'a scoped \<Rightarrow> nat \<times> nat" where
  "block_of c = (scoped_as_ptr c, l_size (sc_layout c))"

fun open_scopes :: "('a, 's) alloc_ops \<Rightarrow> ('a \<times> layout) list \<Rightarrow> 's \<Rightarrow> (alloc_error + 'a scoped list) \<times> 's" where
  "open_scopes A [] s = (Inr [], s)"
| "open_scopes A ((a, layout) # rest) s =
     (case scoped_new A a layout s of
        (Inl e, s') \<Rightarrow> (Inl e, s')
      | (Inr c, s') \<Rightarrow>
          (case open_scopes A rest s' of
             (Inl e, s'') \<Rightarrow> (Inl e, scoped_drop A c s'')
           | (Inr cs, s'') \<Rightarrow> (Inr (c # cs), s'')))"

section \<open>What an allocator promises\<close>

locale block_source =
  fixes A :: "('a, 's) alloc_ops"
    and blocks :: "'s \<Rightarrow> (nat \<times> nat) set"
    and lawful :: bool
  assumes alloc_adds: "lawful \<Longrightarrow> al_alloc A layout a s = (Inr ptr, a', s') \<Longrightarrow>
      (ptr, l_size layout) \<notin> blocks s \<and> blocks s' = insert (ptr, l_size layout) (blocks s)"
    and dealloc_removes: "lawful \<Longrightarrow> (ptr, l_size layout) \<in> blocks s \<Longrightarrow>
      blocks (snd (al_dealloc A ptr layout a s)) = blocks s - {(ptr, l_size layout)}"
begin

lemma new_adds:
  assumes "lawful" "scoped_new A a layout s = (Inr c, s')"
  shows "block_of c \<notin> blocks s" "blocks s' = insert (block_of c) (blocks s)" "sc_layout c = layout"
  using assms alloc_adds [of layout a s]
  by (auto simp: scoped_new_def block_of_def scoped_as_ptr_def split: prod.splits sum.splits)

lemma drop_removes:
  "lawful \<Longrightarrow> block_of c \<in> blocks s \<Longrightarrow> blocks (scoped_drop A c s) = blocks s - {block_of c}"
  using dealloc_removes by (simp add: scoped_drop_def block_of_def scoped_as_ptr_def)

lemma open_scopes_blocks:
  assumes "lawful"
  shows "open_scopes A reqs s = (Inr cs, s') \<Longrightarrow> distinct (map block_of cs) \<and> set (map block_of cs) \<inter> blocks s = {} \<and>
    blocks s' = set (map block_of cs) \<union> blocks s"
proof (induction reqs arbitrary: s cs)
  case (Cons r reqs)
  obtain a layout where r: "r = (a, layout)" by (cases r)
  from Cons.prems r obtain c s1 cs' where c: "scoped_new A a layout s = (Inr c, s1)"
    "open_scopes A reqs s1 = (Inr cs', s')" "cs = c # cs'"
    by (auto split: prod.splits sum.splits)
  from new_adds [OF assms c(1)] Cons.IH [OF c(2)] c(3) show ?case by auto
qed simp

lemma drop_all:
  assumes "lawful"
  shows "distinct (map block_of cs) \<Longrightarrow> set (map block_of cs) \<subseteq> blocks s \<Longrightarrow>
    blocks (fold (scoped_drop A) cs s) = blocks s - set (map block_of cs)"
proof (induction cs arbitrary: s)
  case (Cons c cs)
  then have d: "blocks (scoped_drop A c s) = blocks s - {block_of c}" using drop_removes [OF assms] by simp
  with Cons.prems have "set (map block_of cs) \<subseteq> blocks (scoped_drop A c s)" by auto
  from Cons.IH [OF _ this] Cons.prems(1) d show ?case by auto
qed simp

text \<open>Scopes left in any order give back exactly what opening them took.\<close>

lemma scopes_release:
  assumes "lawful" "open_scopes A reqs s = (Inr cs, s')" "mset cs' = mset cs"
  shows "blocks (fold (scoped_drop A) cs' s') = blocks s"
proof -
  note o = open_scopes_blocks [OF assms(1,2)]
  have m: "mset (map block_of cs') = mset (map block_of cs)" using assms(3) by simp
  then have "distinct (map block_of cs')" "set (map block_of cs') = set (map block_of cs)"
    using o mset_eq_imp_distinct_iff mset_eq_setD by blast+
  with o drop_all [OF assms(1), of cs' s'] show ?thesis by auto
qed

text \<open>A block taken out of its scope is the receiver's to release: it does what the scope would have done.\<close>

lemma raw_release:
  assumes "scoped_into_raw c = (ptr, a)"
  shows "snd (al_dealloc A ptr (sc_layout c) a s) = scoped_drop A c s"
  using assms by (auto simp: scoped_into_raw_def scoped_drop_def)

end

section \<open>\<open>MemmapAlloc\<close>\<close>

definition memmap_ops :: "'os mman \<Rightarrow> (unit, 'os) alloc_ops" where
  "memmap_ops M = \<lparr>
     al_alloc = (\<lambda>layout a os. case memmap_alloc M layout os of (r, os') \<Rightarrow> (r, a, os')),
     al_dealloc = (\<lambda>ptr layout a os. (a, memmap_dealloc M ptr layout os))\<rparr>"

interpretation memmap_scopes: block_source "memmap_ops M" "os_mappings M" "mman_laws M" for M
proof unfold_locales
  fix layout a s ptr a' s'
  show "mman_laws M \<Longrightarrow> al_alloc (memmap_ops M) layout a s = (Inr ptr, a', s') \<Longrightarrow>
      (ptr, l_size layout) \<notin> os_mappings M s \<and> os_mappings M s' = insert (ptr, l_size layout) (os_mappings M s)"
    using memmap_alloc_ok(3,5) [of M layout s ptr s'] by (auto simp: memmap_ops_def split: prod.splits)
next
  fix ptr and layout :: layout and s and a :: unit
  assume M: "mman_laws M" "(ptr, l_size layout) \<in> os_mappings M s"
  then obtain s'' where "os_munmap M s ptr (l_size layout) = (Inr (), s'')"
    "os_mappings M s'' = os_mappings M s - {(ptr, l_size layout)}"
    unfolding mman_laws_def by blast
  then show "os_mappings M (snd (al_dealloc (memmap_ops M) ptr layout a s)) = os_mappings M s - {(ptr, l_size layout)}"
    by (simp add: memmap_ops_def memmap_dealloc_def)
qed

text \<open>Two scopes on the sample operating system.\<close>

definition sample_scopes :: "unit scoped list" where
  "sample_scopes = [\<lparr>sc_ptr = 8, sc_layout = \<lparr>l_size = 64, l_align = 8\<rparr>, sc_allocator = ()\<rparr>,
     \<lparr>sc_ptr = 528, sc_layout = \<lparr>l_size = 32, l_align = 8\<rparr>, sc_allocator = ()\<rparr>]"

lemma sample_scopes_open:
  "open_scopes (memmap_ops bump_mman) [((), \<lparr>l_size = 64, l_align = 8\<rparr>), ((), \<lparr>l_size = 32, l_align = 8\<rparr>)]
     \<lparr>bump_step = 8, bump_next = 8, bump_budget = 2, bump_live = []\<rparr> =
   (Inr sample_scopes, \<lparr>bump_step = 8, bump_next = 792, bump_budget = 0, bump_live = [(528, 32), (8, 64)]\<rparr>)"
  by (simp add: scoped_new_def memmap_ops_def memmap_alloc_def bump_mman_def sample_scopes_def)

text \<open>
  C36: Scopes never leak and never release twice: code that opens any number of scopes over
  \<open>MemmapAlloc\<close>, and leaves them in any order, ends with exactly the mappings it started with; while
  they are open, each owns a mapping of its own that was not there before.
\<close>

theorem scopes_release_everything:
  assumes "mman_laws M" "open_scopes (memmap_ops M) reqs os = (Inr cs, os')" "mset cs' = mset cs"
  shows "os_mappings M (fold (scoped_drop (memmap_ops M)) cs' os') = os_mappings M os \<and>
    distinct (map block_of cs) \<and> os_mappings M os' = set (map block_of cs) \<union> os_mappings M os"
  using memmap_scopes.scopes_release [OF assms] memmap_scopes.open_scopes_blocks [OF assms(1,2)] by blast

theorem scopes_release_everything_witness:
  "os_mappings bump_mman (fold (scoped_drop (memmap_ops bump_mman)) (rev sample_scopes)
     \<lparr>bump_step = 8, bump_next = 792, bump_budget = 0, bump_live = [(528, 32), (8, 64)]\<rparr>) =
   os_mappings bump_mman \<lparr>bump_step = 8, bump_next = 8, bump_budget = 2, bump_live = []\<rparr>"
  using scopes_release_everything [OF bump_mman_laws sample_scopes_open, of "rev sample_scopes"] by simp

end
