(* ===== verification/Double_Release.thy ===== *)
theory Double_Release
  imports Chunks_Guarantees
begin






end
