(* ===== verification/Wake_Space.thy ===== *)
theory Wake_Space
  imports Wake_Ups
begin

text \<open>
  The other side of the wake-ups: senders that sleep because the queue is full. A pop signals
  \<open>space_maybe_available\<close>, which is sure to wake one sleeper only. The account here counts the free places.
  A woken sender must use the place it was woken for, so the books need that it finds a receiver: the
  invariant of the atomics (\<open>served\<close>) says that there is one and that the channel is not being destroyed.
\<close>

section \<open>The deque and the atomics\<close>

text \<open>
  What the documentation of the deque says of its capacity: a push that does not grow it uses a
  place, a pop makes one at most.
\<close>

definition capacity_laws :: "('t, 'v, 'e) deque_lib \<Rightarrow> bool" where
  "capacity_laws D \<longleftrightarrow>
     (\<forall>q x q'. dq_remaining_capacity D q \<noteq> 0 \<longrightarrow> dq_push_back D q x = (Inr (), q') \<longrightarrow>
        dq_remaining_capacity D q' < dq_remaining_capacity D q) \<and>
     (\<forall>q x q'. dq_pop_front D q = (Some x, q') \<longrightarrow> dq_remaining_capacity D q' \<le> Suc (dq_remaining_capacity D q))"

lemma list_deque_capacity: "capacity_laws list_deque"
  by (auto simp: capacity_laws_def split: list.splits if_splits)

definition served :: "'w chan_state \<Rightarrow> bool" where
  "served s \<longleftrightarrow> receivers s \<noteq> 0 \<and> \<not> dropping s"

section \<open>The books of the senders\<close>

abbreviation yields :: "('t, 'v, 'e) deque_lib \<Rightarrow> ('v, 'w chan_state, 'r) prog \<Rightarrow> 'v account \<Rightarrow> (nat \<Rightarrow> 'v account \<Rightarrow> bool) \<Rightarrow> bool" where
  "yields D \<equiv> balanced served (dq_remaining_capacity D) space_maybe_available"

abbreviation yields_top :: "('t, 'v, 'e) deque_lib \<Rightarrow> ('v, 'w chan_state, 'r) prog \<Rightarrow> 'v account \<Rightarrow> bool" where
  "yields_top D p v \<equiv> yields D p v (\<lambda>_ _. False)"

text \<open>While the channel is served, the tests for receivers all answer no.\<close>

lemma yields_served: "yields D (k False) v J \<Longrightarrow> yields D (none_or_dropping receivers k) v J"
  by (simp add: none_or_dropping_def load_def served_def)

lemma yields_push:
  assumes D: "deque_laws D" "capacity_laws D" and q: "dq_remaining_capacity D q \<noteq> 0" and j: "j \<le> 1" and k: "yields_top D k Off"
  shows "yields D (push_or_panic D item k) (On q j) J"
proof -
  obtain q' where p: "dq_push_back D q item = (Inr (), q')" using deque_law_rules(4) [OF D(1) q] by blast
  with D(2) q have "dq_remaining_capacity D q' < dq_remaining_capacity D q" unfolding capacity_laws_def by blast
  with p j k show ?thesis
    by (simp add: push_or_panic_def inner_push_def condvar_signal_def balanced_guard_drop)
qed

lemma yields_pop:
  assumes D: "deque_laws D" "capacity_laws D" and j: "j \<le> 0" and k: "\<And>q j r. j \<le> 0 \<Longrightarrow> yields D (k r) (On q j) J"
  shows "yields D (inner_pop D k) (On q j) J"
proof -
  obtain r q' where p: "dq_pop_front D q = (r, q')" by (cases "dq_pop_front D q")
  show ?thesis
  proof (cases r)
    case None
    with p deque_law_rules(5) [OF D(1)] have "q' = q" by blast
    with p None j k show ?thesis by (simp add: inner_pop_def)
  next
    case (Some x)
    with p D(2) have "dq_remaining_capacity D q' \<le> Suc (dq_remaining_capacity D q)" unfolding capacity_laws_def by blast
    with p Some k j show ?thesis by (simp add: inner_pop_def condvar_signal_def)
  qed
qed

lemma yields_receive:
  assumes D: "deque_laws D" "capacity_laws D" and k: "\<And>r. yields_top D (k r) Off"
  shows "yields D (inner_receive p D k) Off J"
  unfolding inner_receive_def
proof (rule balanced_lock_unless_dropping [OF k])
  fix q
  let ?J = "\<lambda>(_::nat) v. \<exists>d j. v = On d j \<and> j \<le> 0"
  let ?pop = "inner_pop D (\<lambda>item. guard_drop (k item))"
  have pop: "yields D ?pop (On d j) ?J" if "j \<le> 0" for d j
    using k by (intro yields_pop [OF D that] balanced_guard_drop) auto
  have "yields D (item_or_no_senders D (\<lambda>ready. if ready then ?pop
      else Pthread (Pcond_wait item_maybe_available) (\<lambda>errno.
        if errno \<noteq> 0 then unlock_and_panic (Os_failure errno) else Continue 0))) (On d j) ?J" if j: "j \<le> 0" for d j
    using pop [OF j] j by (simp add: item_or_no_senders_def load_def cond_of_def)
  then show "yields_top D (condvar_wait item_maybe_available (item_or_no_senders D) unlock_and_panic ?pop) (On q 0)"
    unfolding condvar_wait_def balanced.simps by (intro exI [of _ ?J]) auto
qed

lemma yields_send:
  assumes D: "deque_laws D" "capacity_laws D" and k: "\<And>r. yields_top D (k r) Off"
  shows "yields D (inner_try_send p D item k) Off J"
  unfolding inner_try_send_def
proof (rule balanced_lock_unless_dropping [OF k])
  fix q
  let ?J = "\<lambda>(_::nat) v. \<exists>d j. v = On d j \<and> j \<le> 1"
  let ?put = "none_or_dropping receivers (\<lambda>b. if b then guard_drop (k (Inl item)) else push_or_panic D item (k (Inr ())))"
  have put: "yields D ?put (On d j) ?J" if "j \<le> 1" "dq_remaining_capacity D d \<noteq> 0" for d j
    using k that by (intro yields_served) (simp add: yields_push [OF D])
  have "yields D (space_or_no_receivers D (\<lambda>ready. if ready then ?put
      else Pthread (Pcond_wait space_maybe_available) (\<lambda>errno.
        if errno \<noteq> 0 then unlock_and_panic (Os_failure errno) else Continue 0))) (On d j) ?J" if j: "j \<le> 1" for d j
    using put [OF j] by (simp add: space_or_no_receivers_def load_def cond_of_def served_def)
  then show "yields_top D (condvar_wait space_maybe_available (space_or_no_receivers D) unlock_and_panic ?put) (On q 0)"
    unfolding condvar_wait_def balanced.simps by (intro exI [of _ ?J]) auto
qed

lemma yields_try_send:
  assumes D: "deque_laws D" "capacity_laws D" and k: "\<And>r. yields_top D (k r) Off"
  shows "yields D (inner_try_send_once D item k) Off J"
  using k by (auto simp: inner_try_send_once_def mutex_try_lock_def
      intro!: balanced_load yields_served yields_push [OF D] balanced_guard_drop balanced_from_top [OF k])

lemma yields_try_receive:
  assumes D: "deque_laws D" "capacity_laws D" and k: "\<And>r. yields_top D (k r) Off"
  shows "yields D (inner_try_receive_once D k) Off J"
  using k by (auto simp: inner_try_receive_once_def mutex_try_lock_def balanced_from_top [OF k] split: option.split
      intro!: balanced_load balanced_none_or_dropping yields_pop [OF D] balanced_guard_drop)

section \<open>No place is left unused\<close>

text \<open>The operations considered: sends and receives without a deadline, and new senders.\<close>

definition refills :: "'t chan_op \<Rightarrow> bool" where
  "refills op \<longleftrightarrow> (case op of Op_send _ \<Rightarrow> True | Op_try_send _ \<Rightarrow> True | Op_receive \<Rightarrow> True | Op_try_receive \<Rightarrow> True
     | Op_make_sender \<Rightarrow> True | _ \<Rightarrow> False)"

lemma yields_run_op:
  assumes "deque_laws D" "capacity_laws D" "refills op" "\<And>r. yields_top D (k r) Off"
  shows "yields_top D (run_op p D proc ch op k) Off"
  using assms(3)
  by (cases op) (simp_all add: refills_def run_op_def public_defs make_sender_def channel_clone_def rc_increase_def Let_def served_def upd_refs_def
      yields_send [OF assms(1,2)] yields_receive [OF assms(1,2)] yields_try_send [OF assms(1,2)] yields_try_receive [OF assms(1,2)] assms(4))

lemma yields_chan_prog:
  assumes "deque_laws D" "capacity_laws D"
  shows "list_all refills ops \<Longrightarrow> yields_top D (chan_prog p D proc ch ops out) Off"
proof (induction ops arbitrary: out)
  case (Cons op ops)
  then show ?case unfolding chan_prog.simps by (intro yields_run_op [OF assms]) simp_all
qed simp

text \<open>
  C7: no sender is left behind either. As long as there is a receiver, and the threads only send and
  receive without deadlines and make senders: whenever the mutex is free and a sender sleeps unwoken,
  the queue has at most as many free places as senders that have been woken and are on their way to
  fill them. In particular, if no thread can take a step, no sender sleeps beside a free place.
\<close>

theorem no_place_left_unused:
  assumes D: "deque_laws D" "capacity_laws D" and start: "chan_start p D wake_pthread ch proc ops s0"
    "lib s0 = \<lparr>wk_holder = None, wk_sleeping = [], wk_woken = []\<rparr>" "receivers (shared s0) \<noteq> 0" "\<not> dropping (shared s0)"
    and ops: "\<And>t. list_all refills (ops t)"
    and reach: "sys_reach wake_pthread s0 s" and free: "wk_holder (lib s) = None"
    and sleeps: "(t, space_maybe_available) \<in> set (wk_sleeping (lib s))"
  shows "dq_remaining_capacity D (cell s) \<le> card (on_their_way space_maybe_available s) \<and>
    ((\<forall>s'. \<not> sys_step wake_pthread s s') \<longrightarrow> dq_remaining_capacity D (cell s) = 0)"
proof -
  have "account_inv served (dq_remaining_capacity D) space_maybe_available 0 s0"
    using start yields_chan_prog [OF D ops] by (intro account_start) (simp_all add: chan_start_def served_def)
  with account_reach [OF reach] obtain j where inv: "account_inv served (dq_remaining_capacity D) space_maybe_available j s" by blast
  moreover have "sleepers space_maybe_available s \<noteq> {}" using sleeps by (auto simp: sleepers_def)
  ultimately have n: "dq_remaining_capacity D (cell s) \<le> card (on_their_way space_maybe_available s)"
    using free by (simp add: account_inv_def covered_def)
  with woken_can_step [OF inv free] show ?thesis by force
qed

lemma sample_sleeping_sender:
  "\<exists>s. run_schedule [(0, Go), (0, Go), (0, Clock epoch), (0, Code 0), (0, Go), (0, Go), (0, Go), (0, Go), (0, Sleeps)]
     (two_threads (1, [4]) 1 1 [Op_send 5] [Op_try_receive]) = Some s \<and> wk_holder (lib s) = None \<and>
     (0, space_maybe_available) \<in> set (wk_sleeping (lib s))"
  by (simp add: blocking_defs)

theorem no_place_left_unused_witness:
  "\<exists>s. sys_reach wake_pthread (two_threads (1, [4]) 1 1 [Op_send 5] [Op_try_receive]) s \<and>
     (0, space_maybe_available) \<in> set (wk_sleeping (lib s)) \<and>
     fst (cell s) - length (snd (cell s)) \<le> card (on_their_way space_maybe_available s)"
proof -
  obtain s where s: "sys_reach wake_pthread (two_threads (1, [4]) 1 1 [Op_send 5] [Op_try_receive]) s"
    "wk_holder (lib s) = None" "(0, space_maybe_available) \<in> set (wk_sleeping (lib s))"
    using sample_sleeping_sender run_schedule_reach by blast
  have f: "list_all refills (if t = 0 then [Op_send 5] else if t = 1 then [Op_try_receive] else [] :: nat chan_op list)" for t :: nat
    by (simp add: refills_def)
  have l: "lib (two_threads (1, [4]) 1 1 [Op_send 5] [Op_try_receive]) = \<lparr>wk_holder = None, wk_sleeping = [], wk_woken = []\<rparr>"
    "receivers (shared (two_threads (1, [4]) 1 1 [Op_send 5] [Op_try_receive])) \<noteq> 0"
    "\<not> dropping (shared (two_threads (1, [4]) 1 1 [Op_send 5] [Op_try_receive]))"
    by (simp_all add: two_threads_def)
  from no_place_left_unused [OF list_deque_laws list_deque_capacity two_threads_start l f s] s show ?thesis by auto
qed

end
