(* ===== verification/Network.thy ===== *)
theory Network
  imports Schedules
begin

text \<open>
  Threads that use several synchronisation objects, each with a mutex, a protected value and atomics
  of its own. The code of a thread is cut into segments: at a control point \<open>q\<close> it runs a
  program on one object, whose result is the next control point. A step of the network is a step of
  one object's system (\<open>Interleaving\<close>) or a thread that goes on to its next segment, so any
  interleaving of the threads over all the objects is a run.

  The locale \<open>network_proof\<close> is the proof method: of every segment it asks for a \<open>safe\<close> judgement on
  its object alone, with what the thread has done on the other objects as a constant; the
  soundness theorem puts the segments and the threads together. \<open>Ping_Pong\<close> and \<open>Reply_Channel\<close> interpret it.
\<close>

section \<open>The network\<close>

type_synonym ('i, 'q, 'd, 's) net_code = "tid \<Rightarrow> 'q \<Rightarrow> ('i \<times> ('d, 's, 'q) prog) option"

record ('i, 'q, 'd, 's, 'l) net =
  control :: "tid \<Rightarrow> 'q"
  running :: "tid \<Rightarrow> ('d, 's, 'q) prog"
  sleeping :: "tid \<Rightarrow> bool"
  cell_of :: "'i \<Rightarrow> 'd"
  shared_of :: "'i \<Rightarrow> 's"
  lib_of :: "'i \<Rightarrow> 'l"

definition at :: "('i, 'q, 'd, 's) net_code \<Rightarrow> ('i, 'q, 'd, 's, 'l) net \<Rightarrow> tid \<Rightarrow> 'i option" where
  "at code s t = map_option fst (code t (control s t))"

text \<open>The system of one object: a thread that is elsewhere has nothing to do there.\<close>

definition project :: "('i, 'q, 'd, 's) net_code \<Rightarrow> ('i, 'q, 'd, 's, 'l) net \<Rightarrow> 'i \<Rightarrow> ('d, 's, 'q, 'l) sys" where
  "project code s i = \<lparr>
     threads = (\<lambda>t. if at code s t = Some i then running s t else Return (control s t)),
     asleep = (\<lambda>t. at code s t = Some i \<and> sleeping s t),
     cell = cell_of s i, shared = shared_of s i, lib = lib_of s i\<rparr>"

definition embed :: "('i, 'q, 'd, 's) net_code \<Rightarrow> 'i \<Rightarrow> ('d, 's, 'q, 'l) sys \<Rightarrow> ('i, 'q, 'd, 's, 'l) net \<Rightarrow>
    ('i, 'q, 'd, 's, 'l) net" where
  "embed code i x s = s\<lparr>
     running := (\<lambda>t. if at code s t = Some i then threads x t else running s t),
     sleeping := (\<lambda>t. if at code s t = Some i then asleep x t else sleeping s t),
     cell_of := (cell_of s)(i := cell x), shared_of := (shared_of s)(i := shared x), lib_of := (lib_of s)(i := lib x)\<rparr>"

definition program_at :: "('i, 'q, 'd, 's) net_code \<Rightarrow> tid \<Rightarrow> 'q \<Rightarrow> ('d, 's, 'q) prog" where
  "program_at code t q = (case code t q of None \<Rightarrow> Return q | Some (i, p) \<Rightarrow> p)"

definition enter :: "('i, 'q, 'd, 's) net_code \<Rightarrow> tid \<Rightarrow> 'q \<Rightarrow> ('i, 'q, 'd, 's, 'l) net \<Rightarrow> ('i, 'q, 'd, 's, 'l) net" where
  "enter code t q s = s\<lparr>control := (control s)(t := q), running := (running s)(t := program_at code t q)\<rparr>"

inductive net_step :: "('i, 'q, 'd, 's) net_code \<Rightarrow> 'l pthread \<Rightarrow> ('i, 'q, 'd, 's, 'l) net \<Rightarrow>
    ('i, 'q, 'd, 's, 'l) net \<Rightarrow> bool" for code P where
  net_object: "sys_step P (project code s i) x \<Longrightarrow> net_step code P s (embed code i x s)"
| net_next: "at code s t \<noteq> None \<Longrightarrow> running s t = Return q \<Longrightarrow> \<not> sleeping s t \<Longrightarrow>
     net_step code P s (enter code t q s)"

inductive net_reach :: "('i, 'q, 'd, 's) net_code \<Rightarrow> 'l pthread \<Rightarrow> ('i, 'q, 'd, 's, 'l) net \<Rightarrow>
    ('i, 'q, 'd, 's, 'l) net \<Rightarrow> bool" for code P s0 where
  net_reach_start: "net_reach code P s0 s0"
| net_reach_step: "net_reach code P s0 s \<Longrightarrow> net_step code P s s' \<Longrightarrow> net_reach code P s0 s'"

definition net_start :: "('i, 'q, 'd, 's) net_code \<Rightarrow> 'l pthread \<Rightarrow> (tid \<Rightarrow> 'q) \<Rightarrow> ('i, 'q, 'd, 's, 'l) net \<Rightarrow> bool" where
  "net_start code P c s \<longleftrightarrow> control s = c \<and> running s = (\<lambda>t. program_at code t (c t)) \<and>
     (\<forall>t. \<not> sleeping s t) \<and> (\<forall>i. holder P (lib_of s i) = None)"

section \<open>Steps of one object\<close>

lemma sys_step_returned:
  "sys_step P s s' \<Longrightarrow> threads s t = Return r \<Longrightarrow> threads s' t = Return r \<and> asleep s' t = asleep s t"
  by (induction rule: sys_step.induct) auto

lemma at_embed [simp]: "at code (embed code i x s) = at code s"
  by (simp add: at_def embed_def fun_eq_iff)

lemma control_embed [simp]: "control (embed code i x s) = control s"
  by (simp add: embed_def)

lemma project_embed_same:
  assumes "sys_step P (project code s i) x"
  shows "project code (embed code i x s) i = x"
proof -
  have "at code s t \<noteq> Some i \<Longrightarrow> threads x t = Return (control s t) \<and> \<not> asleep x t" for t
    using sys_step_returned [OF assms, of t] by (simp add: project_def)
  then show ?thesis by (auto simp: project_def embed_def at_def fun_eq_iff intro!: sys.equality)
qed

lemma project_embed_other: "j \<noteq> i \<Longrightarrow> project code (embed code i x s) j = project code s j"
  by (auto simp: project_def embed_def at_def fun_eq_iff)

lemma project_enter:
  assumes "\<not> sleeping s t"
  shows "project code (enter code t q s) j = (project code s j)\<lparr>threads := (threads (project code s j))(t :=
     if map_option fst (code t q) = Some j then program_at code t q else Return q)\<rparr>"
  using assms by (auto simp: project_def enter_def at_def fun_eq_iff)

text \<open>
  A thread that is through with an object has given its mutex back, and may go on with another program there,
  under another contract.
\<close>

lemma sys_inv_replace:
  assumes "sys_inv R C P d0 s log" "threads s t = Return r"
    and "res_inv K = R" "effect K = effect (C t)" "atomics K = atomics (C t)"
    and "history K (of_thread t log)" "safe_top K q Free (of_thread t log)"
  shows "sys_inv R (C(t := K)) P d0 (s\<lparr>threads := (threads s)(t := q)\<rparr>) log"
proof -
  have awake: "\<not> asleep s t" using asleep_waits [OF assms(1), of t] assms(2) by auto
  then have "view_of P s t = Free" using sys_inv_awake [OF assms(1)] assms(2) by force
  then have "holder P (lib s) \<noteq> Some t" by (auto simp: view_of_def split: if_splits)
  moreover have "owned_effect (C(t := K)) = owned_effect C" using assms(4) by (auto simp: owned_effect_def fun_eq_iff)
  moreover have "thread_ok (C t') P (s\<lparr>threads := (threads s)(t := q)\<rparr>) h t' = thread_ok (C t') P s h t'" if "t' \<noteq> t" for t' h
    using that by (intro thread_ok_frame) simp_all
  moreover have "thread_ok K P (s\<lparr>threads := (threads s)(t := q)\<rparr>) (of_thread t log) t"
    using awake assms(7) calculation(1) by (simp add: thread_ok_def view_of_def)
  moreover have "atomics (C t') = atomics (C 0)" for t' using assms(1) by (simp add: sys_inv_def)
  ultimately show ?thesis using assms(1,3,5,6) by (auto simp: sys_inv_def)
qed

section \<open>The proof method\<close>

text \<open>
  \<open>K i\<close> is what all threads respect on object \<open>i\<close>. With \<open>g\<close> the events of the thread on all the
  objects, \<open>entry t q g\<close> holds when thread \<open>t\<close> arrives at \<open>q\<close>, and \<open>during t q g\<close> as long as it is there.
\<close>

definition segment_contract :: "('i \<Rightarrow> ('d, 's, 'ev, 'q) contract) \<Rightarrow> (tid \<Rightarrow> 'q \<Rightarrow> ('i \<Rightarrow> 'ev list) \<Rightarrow> bool) \<Rightarrow>
    (tid \<Rightarrow> 'q \<Rightarrow> ('i \<Rightarrow> 'ev list) \<Rightarrow> bool) \<Rightarrow> tid \<Rightarrow> 'q \<Rightarrow> ('i \<Rightarrow> 'ev list) \<Rightarrow> 'i \<Rightarrow> ('d, 's, 'ev, 'q) contract" where
  "segment_contract K entry during t q g i =
     (K i)\<lparr>history := (\<lambda>h. during t q (g(i := h))), post := (\<lambda>q' h. entry t q' (g(i := h)))\<rparr>"

definition parked_contract :: "('i \<Rightarrow> ('d, 's, 'ev, 'q) contract) \<Rightarrow> ('i \<Rightarrow> 'ev list) \<Rightarrow> 'i \<Rightarrow> ('d, 's, 'ev, 'q) contract" where
  "parked_contract K g i = (K i)\<lparr>history := (\<lambda>_. True), post := (\<lambda>_ h. h = g i)\<rparr>"

lemma contract_simps [simp]:
  "res_inv (segment_contract K en du t q g i) = res_inv (K i)" "effect (segment_contract K en du t q g i) = effect (K i)"
  "atomics (segment_contract K en du t q g i) = atomics (K i)" "fault (segment_contract K en du t q g i) = fault (K i)"
  "history (segment_contract K en du t q g i) h = du t q (g(i := h))"
  "post (segment_contract K en du t q g i) q' h = en t q' (g(i := h))"
  "res_inv (parked_contract K g i) = res_inv (K i)" "effect (parked_contract K g i) = effect (K i)"
  "atomics (parked_contract K g i) = atomics (K i)" "history (parked_contract K g i) h"
  "post (parked_contract K g i) q' h \<longleftrightarrow> h = g i"
  by (simp_all add: segment_contract_def parked_contract_def)

locale network_proof =
  fixes code :: "('i, 'q, 'd, 's) net_code"
    and K :: "'i \<Rightarrow> ('d, 's, 'ev, 'q) contract"
    and entry :: "tid \<Rightarrow> 'q \<Rightarrow> ('i \<Rightarrow> 'ev list) \<Rightarrow> bool"
    and during :: "tid \<Rightarrow> 'q \<Rightarrow> ('i \<Rightarrow> 'ev list) \<Rightarrow> bool"
  assumes entry_during: "entry t q g \<Longrightarrow> during t q g"
    and segment_safe: "entry t q g \<Longrightarrow> code t q = Some (i, p) \<Longrightarrow>
      safe_top (segment_contract K entry during t q g i) p Free (g i)"
begin

definition contract_at :: "(tid \<Rightarrow> 'i \<Rightarrow> 'ev list) \<Rightarrow> ('i, 'q, 'd, 's, 'l) net \<Rightarrow> 'i \<Rightarrow> tid \<Rightarrow> ('d, 's, 'ev, 'q) contract" where
  "contract_at g s i t = (if at code s t = Some i then segment_contract K entry during t (control s t) (g t) i
     else parked_contract K (g t) i)"

definition net_inv :: "'l pthread \<Rightarrow> ('i \<Rightarrow> 'd) \<Rightarrow> ('i, 'q, 'd, 's, 'l) net \<Rightarrow> ('i \<Rightarrow> (tid \<times> 'ev) list) \<Rightarrow> bool" where
  "net_inv P d0 s logs \<longleftrightarrow> (\<forall>t. at code s t = None \<longrightarrow> running s t = Return (control s t)) \<and> (\<exists>g. (\<forall>t. entry t (control s t) (g t)) \<and>
     (\<forall>i. sys_inv (res_inv (K i)) (contract_at g s i) P (d0 i) (project code s i) (logs i)))"

lemma contract_at_simps [simp]:
  "res_inv (contract_at g s i t) = res_inv (K i)" "effect (contract_at g s i t) = effect (K i)"
  "atomics (contract_at g s i t) = atomics (K i)"
  by (simp_all add: contract_at_def)

text \<open>What a thread has done on the objects it is not at is what it had done when it came to its segment.\<close>

lemma parked_events:
  assumes "sys_inv (res_inv (K j)) (contract_at g s j) P d (project code s j) log" "at code s t \<noteq> Some j"
  shows "of_thread t log = g t j"
  using sys_inv_returned [OF assms(1), of t "control s t"] assms(2) by (simp add: project_def contract_at_def)

lemma events_at:
  assumes "\<And>j. sys_inv (res_inv (K j)) (contract_at g s j) P (d0 j) (project code s j) (logs j)" "at code s t = Some i"
  shows "(\<lambda>j. of_thread t (logs j)) = (g t)(i := of_thread t (logs i))"
  using parked_events [OF assms(1)] assms(2) by (auto simp: fun_eq_iff)

lemma net_inv_start:
  assumes "net_start code P c s" "\<And>t. entry t (c t) (\<lambda>_. [])" "\<And>i. atomics (K i) (shared_of s i) \<and> res_inv (K i) (cell_of s i)"
  shows "net_inv P (cell_of s) s (\<lambda>_. [])"
proof -
  have s: "control s = c" "running s = (\<lambda>t. program_at code t (c t))" "\<And>t. \<not> sleeping s t" "\<And>i. holder P (lib_of s i) = None"
    using assms(1) by (simp_all add: net_start_def)
  have "sys_inv (res_inv (K i)) (contract_at (\<lambda>_ _. []) s i) P (cell (project code s i)) (project code s i) []" for i
  proof (rule sys_inv_start [where A = "atomics (K i)"])
    fix t
    show "history (contract_at (\<lambda>_ _. []) s i t) []" using entry_during [OF assms(2)] s(1)
      by (simp add: contract_at_def fun_upd_idem)
    show "safe_top (contract_at (\<lambda>_ _. []) s i t) (threads (project code s i) t) Free []"
    proof (cases "at code s t = Some i")
      case True
      then obtain p where "code t (c t) = Some (i, p)" using s(1) by (auto simp: at_def)
      with segment_safe [OF assms(2)] True s show ?thesis by (simp add: contract_at_def project_def program_at_def)
    qed (simp add: contract_at_def project_def)
  qed (use assms(3) s in \<open>simp_all add: project_def\<close>)
  moreover have "running s t = Return (control s t)" if "at code s t = None" for t
    using that s by (simp add: at_def program_at_def)
  ultimately show ?thesis unfolding net_inv_def using assms(2) s(1) by (intro conjI exI [of _ "\<lambda>_ _. []"]) (simp_all add: project_def)
qed

lemma net_inv_object:
  assumes "pthread_laws P" "net_inv P d0 s logs" "sys_step P (project code s i) x"
  shows "\<exists>logs'. net_inv P d0 (embed code i x s) logs'"
proof -
  obtain g where g: "\<And>t. entry t (control s t) (g t)"
    "\<And>j. sys_inv (res_inv (K j)) (contract_at g s j) P (d0 j) (project code s j) (logs j)"
    using assms(2) by (auto simp: net_inv_def)
  obtain log' where log': "sys_inv (res_inv (K i)) (contract_at g s i) P (d0 i) x log'"
    using sys_inv_preserved [OF assms(1,3) g(2)] by blast
  have idle: "\<forall>t. at code s t = None \<longrightarrow> running s t = Return (control s t)" using assms(2) by (simp add: net_inv_def)
  have "contract_at g (embed code i x s) = contract_at g s" by (simp add: contract_at_def fun_eq_iff)
  moreover have "project code (embed code i x s) j = (if j = i then x else project code s j)" for j
    using project_embed_same [OF assms(3)] project_embed_other by auto
  ultimately have "net_inv P d0 (embed code i x s) (logs(i := log'))"
    using g log' idle unfolding net_inv_def by (intro conjI exI [of _ g]) (auto simp: embed_def at_def)
  then show ?thesis by blast
qed

lemma net_inv_next:
  assumes "net_inv P d0 s logs" "at code s t = Some i" "running s t = Return q" "\<not> sleeping s t"
  shows "net_inv P d0 (enter code t q s) logs"
proof -
  obtain g where g: "\<And>t. entry t (control s t) (g t)"
    and inv: "\<And>j. sys_inv (res_inv (K j)) (contract_at g s j) P (d0 j) (project code s j) (logs j)"
    using assms(1) by (auto simp: net_inv_def)
  define h where "h = (\<lambda>j. of_thread t (logs j))"
  have h: "h = (g t)(i := h i)" unfolding h_def by (rule events_at [OF inv assms(2)])
  have "post (contract_at g s i t) q (h i)"
    unfolding h_def by (rule sys_inv_returned [OF inv]) (use assms(2,3) in \<open>simp add: project_def\<close>)
  then have en: "entry t q h" using assms(2) h by (simp add: contract_at_def)
  let ?s = "enter code t q s" and ?g = "g(t := h)"
  have "contract_at ?g ?s j = (contract_at g s j)(t := contract_at ?g ?s j t)" for j
    by (auto simp: contract_at_def fun_eq_iff enter_def at_def)
  moreover have "sys_inv (res_inv (K j)) ((contract_at g s j)(t := contract_at ?g ?s j t)) P (d0 j) (project code ?s j) (logs j)" for j
    unfolding project_enter [OF assms(4)]
  proof (rule sys_inv_replace [OF inv])
    show "threads (project code s j) t = Return (if j = i then q else control s t)"
      using assms(2,3) by (auto simp: project_def)
    show "history (contract_at ?g ?s j t) (of_thread t (logs j))"
      using entry_during [OF en] by (auto simp: contract_at_def enter_def h_def fun_upd_idem)
    show "safe_top (contract_at ?g ?s j t) (if map_option fst (code t q) = Some j then program_at code t q else Return q)
        Free (of_thread t (logs j))"
      using segment_safe [OF en, of j] by (auto simp: contract_at_def enter_def at_def program_at_def h_def)
  qed simp_all
  moreover have "entry t' (control ?s t') (?g t')" for t' using g en by (simp add: enter_def)
  moreover have "at code ?s t' = None \<longrightarrow> running ?s t' = Return (control ?s t')" for t'
    using assms(1) by (auto simp: net_inv_def enter_def at_def program_at_def)
  ultimately show ?thesis unfolding net_inv_def by (intro conjI exI [of _ ?g]) simp_all
qed

theorem network_sound:
  assumes "pthread_laws P" "net_inv P d0 s0 logs0"
  shows "net_reach code P s0 s \<Longrightarrow> \<exists>logs. net_inv P d0 s logs"
proof (induction rule: net_reach.induct)
  case net_reach_start
  then show ?case using assms(2) by blast
next
  case (net_reach_step s s')
  then obtain logs where logs: "net_inv P d0 s logs" by blast
  from net_reach_step(2) show ?case
  proof cases
    case (net_object i x)
    then show ?thesis using net_inv_object [OF assms(1) logs] by blast
  next
    case (net_next t q)
    then show ?thesis using net_inv_next [OF logs] by blast
  qed
qed

text \<open>What the invariant says of a state.\<close>

lemma net_inv_during:
  assumes "net_inv P d0 s logs"
  shows "during t (control s t) (\<lambda>i. of_thread t (logs i))"
proof -
  obtain g where g: "\<And>t. entry t (control s t) (g t)"
    and inv: "\<And>j. sys_inv (res_inv (K j)) (contract_at g s j) P (d0 j) (project code s j) (logs j)"
    using assms by (auto simp: net_inv_def)
  show ?thesis
  proof (cases "at code s t")
    case None
    then have "(\<lambda>i. of_thread t (logs i)) = g t" using parked_events [OF inv] by auto
    then show ?thesis using entry_during [OF g] by simp
  next
    case (Some i)
    have "history (contract_at g s i t) (of_thread t (logs i))" by (rule sys_inv_history [OF inv])
    then show ?thesis using Some unfolding events_at [OF inv Some] by (simp add: contract_at_def)
  qed
qed

lemma net_inv_chain:
  assumes "net_inv P d0 s logs"
  shows "event_chain (effect (K i)) (d0 i) (map snd (logs i)) (cell_of s i)"
proof -
  obtain g where "sys_inv (res_inv (K i)) (contract_at g s i) P (d0 i) (project code s i) (logs i)"
    using assms by (auto simp: net_inv_def)
  then have "event_chain (owned_effect (contract_at g s i)) (d0 i) (logs i) (cell_of s i)"
    by (simp add: sys_inv_def project_def)
  then show ?thesis by (simp add: owned_effect_shared [of _ "effect (K i)"])
qed

lemma net_inv_fault:
  assumes "net_inv P d0 s logs" "running s t = Panic e"
  shows "\<exists>i h. fault (K i) e h"
proof -
  obtain g where inv: "\<And>j. sys_inv (res_inv (K j)) (contract_at g s j) P (d0 j) (project code s j) (logs j)"
    using assms(1) by (auto simp: net_inv_def)
  obtain i where i: "at code s t = Some i" using assms by (cases "at code s t") (auto simp: net_inv_def)
  have "fault (contract_at g s i t) e (of_thread t (logs i))"
    by (rule sys_inv_panicked [OF inv]) (use assms(2) i in \<open>simp add: project_def\<close>)
  then show ?thesis using i by (auto simp: contract_at_def)
qed

end

section \<open>Runs\<close>

lemma net_reach_object:
  assumes "net_reach code P s0 s" "sys_reach P (project code s i) x"
  shows "net_reach code P s0 (embed code i x s)"
  using assms(2)
proof (induction rule: sys_reach.induct)
  case reach_start
  have "embed code i (project code s i) s = s"
    by (auto simp: embed_def project_def fun_eq_iff)
  then show ?case using assms(1) by simp
next
  case (reach_step x x')
  have p: "project code (embed code i x s) i = x"
  proof -
    have r: "at code s t \<noteq> Some i \<Longrightarrow> threads x t = Return (control s t) \<and> \<not> asleep x t" for t
      using reach_step(1)
      by (induction rule: sys_reach.induct) (auto simp: project_def dest: sys_step_returned)
    show ?thesis using r by (auto simp: project_def embed_def at_def fun_eq_iff intro!: sys.equality)
  qed
  then have "net_step code P (embed code i x s) (embed code i x' (embed code i x s))"
    using net_object [of P code "embed code i x s" i x'] reach_step(2) by simp
  moreover have "embed code i x' (embed code i x s) = embed code i x' s"
    by (auto simp: embed_def at_def fun_eq_iff)
  ultimately show ?case using reach_step(3) net_reach.net_reach_step by metis
qed

text \<open>A schedule of the network: runs on one object, and threads that go on.\<close>

datatype 'i net_move = On 'i "(tid \<times> answer) list" | Next tid

definition next_segment :: "('i, 'q, 'd, 's) net_code \<Rightarrow> tid \<Rightarrow> ('i, 'q, 'd, 's, 'l) net \<Rightarrow> ('i, 'q, 'd, 's, 'l) net option" where
  "next_segment code t s = (if at code s t = None \<or> sleeping s t then None else
     (case running s t of Return q \<Rightarrow> Some (enter code t q s) | _ \<Rightarrow> None))"

fun run_net :: "('i, 'q, 'd, 's) net_code \<Rightarrow> 'i net_move list \<Rightarrow> ('i, 'q, 'd, 's, wake_state) net \<Rightarrow>
    ('i, 'q, 'd, 's, wake_state) net option" where
  "run_net code [] s = Some s"
| "run_net code (On i xs # ms) s = (case run_schedule xs (project code s i) of
     None \<Rightarrow> None | Some x \<Rightarrow> run_net code ms (embed code i x s))"
| "run_net code (Next t # ms) s = (case next_segment code t s of None \<Rightarrow> None | Some s' \<Rightarrow> run_net code ms s')"

lemma run_net_reach:
  "run_net code ms s = Some s' \<Longrightarrow> net_reach code wake_pthread s0 s \<Longrightarrow> net_reach code wake_pthread s0 s'"
proof (induction code ms s rule: run_net.induct)
  case (2 code i xs ms s)
  then obtain x where x: "run_schedule xs (project code s i) = Some x" "run_net code ms (embed code i x s) = Some s'"
    by (auto split: option.splits)
  show ?case by (rule 2(1) [OF x net_reach_object [OF 2(3) run_schedule_reach [OF x(1)]]])
next
  case (3 code t ms s)
  then obtain s1 where s1: "next_segment code t s = Some s1" "run_net code ms s1 = Some s'" by (auto split: option.splits)
  then have "net_step code wake_pthread s s1"
    by (auto simp: next_segment_def split: if_splits prog.splits intro: net_next)
  then show ?case using 3(1) [OF s1] net_reach_step [OF 3(3)] by blast
qed simp

end
