(* ===== verification/Ping_Pong.thy ===== *)
theory Ping_Pong
  imports Network Channel_Guarantees
begin

text \<open>
  \<open>benches/queue.rs\<close>: a client and a server process requests and responses over two channels. The client
  sends a request and waits for the response, once for every item of its batch; the server answers
  requests until there is nobody to talk to. The programs begin after \<open>bench\<close> has made the handles and end before
  the closure that owns the client's is dropped, so both channels have a sender and a receiver all
  the time. The random numbers are the list of items; the measurement itself is no step.
\<close>

section \<open>The program\<close>










section \<open>The proof\<close>



















section \<open>Both together\<close>



section \<open>A run\<close>





section \<open>The benchmark works\<close>



end
