(* ===== verification/Bench_Setup.thy ===== *)
theory Bench_Setup
  imports Ping_Pong Channel_Calls
begin

text \<open>
  How \<open>bench\<close> of \<open>benches/queue.rs\<close> comes to the state in which \<open>Ping_Pong\<close> begins: what it does to each of its two
  channels, from the handles it makes to the closure of \<open>servers\<close>, which clones an end for the server and drops the one it
  owned. Each channel's statements are followed alone, on the state a new channel has.
\<close>

definition bench_chan1 :: "profile \<Rightarrow> int \<Rightarrow> (channel \<Rightarrow> ('v, 'w chan_state, 'r) prog \<Rightarrow> ('v, 'w chan_state, 'r) prog) \<Rightarrow>
    channel \<Rightarrow> ('v, 'w chan_state, 'r) prog \<Rightarrow> ('v, 'w chan_state, 'r) prog" where
  "bench_chan1 p pid drop_channel chan1 k =
     make_receiver pid chan1 (\<lambda>from_client. make_sender pid chan1 (\<lambda>to_server.
       receiver_clone pid from_client (\<lambda>requests. receiver_drop p (drop_channel from_client) k)))"

definition bench_chan2 :: "profile \<Rightarrow> int \<Rightarrow> (channel \<Rightarrow> ('v, 'w chan_state, 'r) prog \<Rightarrow> ('v, 'w chan_state, 'r) prog) \<Rightarrow>
    channel \<Rightarrow> ('v, 'w chan_state, 'r) prog \<Rightarrow> ('v, 'w chan_state, 'r) prog" where
  "bench_chan2 p pid drop_channel chan2 k =
     make_receiver pid chan2 (\<lambda>from_server. make_sender pid chan2 (\<lambda>to_client.
       sender_clone pid to_client (\<lambda>responds. sender_drop p (drop_channel to_client) k)))"

text \<open>The state of a channel that \<open>Channel::new\<close> has just made.\<close>

definition fresh_channel :: "int \<Rightarrow> 'w chan_state \<Rightarrow> bool" where
  "fresh_channel pid s \<longleftrightarrow> receivers s = 0 \<and> senders s = 0 \<and> \<not> dropping s \<and> references s pid = \<lparr>counter = 1, rc_pid = pid\<rparr>"

definition bench_ready :: "int \<Rightarrow> 'w chan_state \<Rightarrow> 'w chan_state" where
  "bench_ready pid s = s\<lparr>receivers := 1, senders := 1, references := (references s)(pid := \<lparr>counter = 3, rc_pid = pid\<rparr>)\<rparr>"

lemma bench_ready_alive: "fresh_channel pid s \<Longrightarrow> handles_alive (bench_ready pid s)"
  by (simp add: fresh_channel_def bench_ready_def handles_alive_def)

text \<open>The destructor of the channel is not a part of the loop that counts the handle down.\<close>

lemma plug_channel_drop:
  "plug (channel_drop p proc i drop_queue free_inner free_refs ch (Return r)) k = channel_drop p proc i drop_queue free_inner free_refs ch (Return r)"
  by (auto simp: channel_drop_def rc_decrease_def Let_def condvar_broadcast_def mutex_try_lock_for_def mutex_try_lock_until_internal_def
      guard_drop_def drop_inner_def mutex_drop_def condvar_drop_def lift_exec_def fun_eq_iff split: exec.split)

lemmas setup_defs = make_receiver_def make_sender_def receiver_clone_def sender_clone_def channel_clone_def rc_increase_def
  refs_of_def upd_refs_def Let_def atomic_checked_sub_def load_def solo_Loop unroll_def usize_checked_sub_def plug_channel_drop

text \<open>
  C28: \<open>bench\<close> prepares its channels as the ping-pong needs them: run alone, it leaves each of them with exactly one
  sender and one receiver, not marked as being dropped, and with three handles in the counter of the process (the channel, its own end
  and the server's); the end that the closure owned is gone, and dropping it has destroyed nothing.
\<close>

theorem bench_setup_ready:
  assumes "quiet E" "\<not> env_weak E" "original_pid ch = env_pid E" "fresh_channel (env_pid E) s"
    and "build \<in> {bench_chan1, bench_chan2}"
  shows "solo E (build p (env_pid E) (channel_drop p (env_pid E) i drop_queue free_inner free_refs) ch (Return ())) q s r q' s' \<longleftrightarrow>
    r = Done () \<and> q' = q \<and> s' = bench_ready (env_pid E) s"
proof -
  note prems = assms(2-4) [unfolded fresh_channel_def] and defs = setup_defs drop_by_table [OF assms(1) refl]
  have "solo E (bench_chan1 p (env_pid E) (channel_drop p (env_pid E) i drop_queue free_inner free_refs) ch (Return ())) q s r q' s' \<longleftrightarrow>
    r = Done () \<and> q' = q \<and> s' = bench_ready (env_pid E) s"
    using prems by (cases s) (simp add: bench_chan1_def receiver_drop_def defs debug_assert_def drop_table_def last_handle_def decreased_def bench_ready_def)
  moreover have "solo E (bench_chan2 p (env_pid E) (channel_drop p (env_pid E) i drop_queue free_inner free_refs) ch (Return ())) q s r q' s' \<longleftrightarrow>
    r = Done () \<and> q' = q \<and> s' = bench_ready (env_pid E) s"
    using prems by (cases s) (simp add: bench_chan2_def sender_drop_def defs debug_assert_def drop_table_def last_handle_def decreased_def bench_ready_def)
  ultimately show ?thesis using assms(5) by blast
qed

theorem bench_setup_ready_witness:
  "solo calm (bench_chan1 dev_profile 7 (channel_drop dev_profile 7 sample_inner (\<lambda>_. (0, [])) (\<lambda>w. w) (\<lambda>w. w)) sample_channel (Return ()))
     (2, [] :: nat list) \<lparr>receivers = 0, senders = 0, dropping = False, references = (\<lambda>_. \<lparr>counter = 1, rc_pid = 7\<rparr>), world = ()\<rparr> (Done ()) (2, [])
     \<lparr>receivers = 1, senders = 1, dropping = False, references = (\<lambda>_. \<lparr>counter = 1, rc_pid = 7\<rparr>)(7 := \<lparr>counter = 3, rc_pid = 7\<rparr>), world = ()\<rparr>"
  using bench_setup_ready [OF quiet_calm, of sample_channel
    "\<lparr>receivers = 0, senders = 0, dropping = False, references = (\<lambda>_. \<lparr>counter = 1, rc_pid = 7\<rparr>), world = ()\<rparr>" bench_chan1
    dev_profile sample_inner "\<lambda>_. (0, [])" "\<lambda>w. w" "\<lambda>w. w"]
  by (simp add: sample_channel_def fresh_channel_def bench_ready_def)

end
