(* ===== verification/Reply_Channel.thy ===== *)
theory Reply_Channel
  imports Network Channel_Guarantees
begin

text \<open>
  The test \<open>check\<close> of \<open>channel.rs\<close>: a process sends the sending end of a reply channel over a channel,
  the other process answers through it. Both programs begin where \<open>fork\<close> has returned; the reply
  channel's memory is there from the start. \<open>fork\<close>, the construction of the channels, the sleeps and
  \<open>waitpid\<close> are no steps, and the destructors at the end are left out: the one of the handle that was sent would use
  \<open>references\<close>, a pointer into the heap of the other process.
\<close>

section \<open>The program\<close>

text \<open>An item is a sender (of the reply channel) or, in the reply channel, a number.\<close>

datatype check_item = Reply_sender | Reply int

datatype check_channel = Channel | Reply_channel

text \<open>The statements of the two arms that block or touch a channel.\<close>

datatype check_control = Wait_for_request | Send_reply | Replied | Make_sender | Make_reply_handles | Send_reply_sender | Wait_for_reply | Checked

definition check_parent :: "profile \<Rightarrow> (check_channel \<Rightarrow> (check_item, 'v, 'e) deque_lib) \<Rightarrow> check_control \<Rightarrow>
    (check_channel \<times> ('v, 'w chan_state, check_control) prog) option" where
  "check_parent p D q = (case q of
     Wait_for_request \<Rightarrow> Some (Channel, receiver_receive p (D Channel) (\<lambda>r. case r of
       None \<Rightarrow> Panic Expect_failed | Some reply_sender \<Rightarrow> Return Send_reply))
   | Send_reply \<Rightarrow> Some (Reply_channel, sender_send p (D Reply_channel) (Reply 1) (\<lambda>r. case r of
       Inl x \<Rightarrow> Panic Expect_failed | Inr _ \<Rightarrow> Return Replied))
   | _ \<Rightarrow> None)"

definition check_child :: "profile \<Rightarrow> (check_channel \<Rightarrow> (check_item, 'v, 'e) deque_lib) \<Rightarrow> int \<Rightarrow> (check_channel \<Rightarrow> channel) \<Rightarrow> check_control \<Rightarrow>
    (check_channel \<times> ('v, 'w chan_state, check_control) prog) option" where
  "check_child p D pid ch q = (case q of
     Make_sender \<Rightarrow> Some (Channel, make_sender pid (ch Channel) (\<lambda>sender. Return Make_reply_handles))
   | Make_reply_handles \<Rightarrow> Some (Reply_channel, make_receiver pid (ch Reply_channel) (\<lambda>reply_receiver.
       make_sender pid (ch Reply_channel) (\<lambda>reply_sender. Return Send_reply_sender)))
   | Send_reply_sender \<Rightarrow> Some (Channel, sender_send p (D Channel) Reply_sender (\<lambda>r.
       lift_exec Panic (assert_exec (\<not> isl r)) (\<lambda>_. Return Wait_for_reply)))
   | Wait_for_reply \<Rightarrow> Some (Reply_channel, receiver_receive p (D Reply_channel) (\<lambda>reply.
       lift_exec Panic (assert_exec (reply = Some (Reply 1))) (\<lambda>_. Return Checked)))
   | _ \<Rightarrow> None)"

definition check_code :: "profile \<Rightarrow> (check_channel \<Rightarrow> (check_item, 'v, 'e) deque_lib) \<Rightarrow> int \<Rightarrow> (check_channel \<Rightarrow> channel) \<Rightarrow>
    (check_channel, check_control, 'v, 'w chan_state) net_code" where
  "check_code p D pid ch t q = (if t = 0 then check_parent p D q else if t = 1 then check_child p D pid ch q else None)"

text \<open>After \<open>fork\<close>, and after the child has made its handles, which the parent's sleep is there for.\<close>

definition forked :: "tid \<Rightarrow> check_control" where
  "forked t = (if t = 0 then Wait_for_request else if t = 1 then Make_sender else Checked)"



section \<open>The proof\<close>






definition check_item_ok :: "check_channel \<Rightarrow> check_item \<Rightarrow> bool" where
  "check_item_ok i x \<longleftrightarrow> x = (case i of Channel \<Rightarrow> Reply_sender | Reply_channel \<Rightarrow> Reply 1)"

lemma check_item_ok_simps [simp]: "check_item_ok Channel x \<longleftrightarrow> x = Reply_sender" "check_item_ok Reply_channel x \<longleftrightarrow> x = Reply 1"
  by (simp_all add: check_item_ok_def)





section \<open>Runs\<close>

definition check_state :: "(tid \<Rightarrow> check_control) \<Rightarrow> (check_channel \<Rightarrow> 64 word) \<Rightarrow> (check_channel \<Rightarrow> 64 word) \<Rightarrow>
    (check_channel, check_control, nat \<times> check_item list, unit chan_state, wake_state) net" where
  "check_state c n m = \<lparr>
     control = c, running = (\<lambda>t. program_at (check_code dev_profile (\<lambda>_. list_deque) 9 (\<lambda>_. sample_channel)) t (c t)),
     sleeping = (\<lambda>_. False), cell_of = (\<lambda>_. (1, [])),
     shared_of = (\<lambda>i. \<lparr>receivers = n i, senders = m i, dropping = False, references = (\<lambda>_. \<lparr>counter = 2, rc_pid = 7\<rparr>), world = ()\<rparr>),
     lib_of = (\<lambda>_. \<lparr>wk_holder = None, wk_sleeping = [], wk_woken = []\<rparr>)\<rparr>"

lemmas check_defs = check_state_def project_def embed_def next_segment_def enter_def program_at_def at_def check_code_def
  check_parent_def check_child_def


section \<open>The test\<close>



text \<open>
  The test needs its sleep: when the parent asks for the request before the child has made its sender, there is
  no sender yet, so the parent is told that there will be no message, and its \<open>unwrap\<close> panics.
\<close>

theorem channel_check_race:
  "\<exists>s. net_reach (check_code dev_profile (\<lambda>_. list_deque) 9 (\<lambda>_. sample_channel)) wake_pthread
      (check_state forked (\<lambda>i. if i = Channel then 1 else 0) (\<lambda>_. 0)) s \<and>
     control s 1 = Make_sender \<and> running s 0 = Panic Expect_failed"
proof -
  have "\<exists>s. run_net (check_code dev_profile (\<lambda>_. list_deque) 9 (\<lambda>_. sample_channel))
     [On Channel [(0, Go), (0, Go), (0, Clock epoch), (0, Code 0), (0, Go), (0, Go), (0, Go), (0, Go), (0, Code 0)]] (check_state forked (\<lambda>i. if i = Channel then 1 else 0) (\<lambda>_. 0)) = Some s \<and>
     control s 1 = Make_sender \<and> running s 0 = Panic Expect_failed"
    by (simp add: blocking_defs check_defs forked_def)
  then show ?thesis using run_net_reach [OF _ net_reach_start] by blast
qed

end
