(* ===== verification/Forked_Mutex.thy ===== *)
theory Forked_Mutex
  imports Counter_Tests
begin

text \<open>
  The test \<open>check_fork\<close> of \<open>condvar.rs\<close>. Its counter and its condition variable are in memory the two processes share,
  but the mutex is a local variable, so that after \<open>fork\<close> each process has a copy of its own. The two programs are
  run over two pthread libraries: a lawful one, as if the mutex were shared, and \<open>own_mutexes\<close>, where a process
  excludes nobody but itself. Both begin after \<open>fork\<close>; the conventions are those of \<open>Counter_Tests\<close>.
\<close>

section \<open>The programs\<close>

text \<open>The guard of the parent's last assertion is a temporary of that statement.\<close>

definition condvar_check_fork_parent :: "profile \<Rightarrow> (nat, exit_state, unit) prog" where
  "condvar_check_fork_parent p = mutex_lock (assert_guard_eq 0 (add_one p (guard_drop (
     condvar_broadcast 0 Panic (wait_child (mutex_lock (assert_guard_eq 2 (guard_drop (Return ())))))))))"

definition condvar_check_fork_child :: "profile \<Rightarrow> (nat, exit_state, unit) prog" where
  "condvar_check_fork_child p = child_of (\<lambda>exit. mutex_lock (
     condvar_wait 0 (value_is 1) unlock_and_panic (add_one p (guard_drop exit))))"

section \<open>With one mutex\<close>

lemma safe_condfork_parent:
  "safe_top (count_contract main_history (\<lambda>d. d = 0) (\<lambda>h. h = [Saw 0, Added, Saw 2])
     (\<lambda>h. (\<exists>x. h = [Saw x] \<and> x \<noteq> 0) \<or> (\<exists>x. h = [Saw 0, Added, Saw x] \<and> x \<noteq> 2))) (condvar_check_fork_parent p) Free []"
  unfolding condvar_check_fork_parent_def by (intro safe_rules) auto

lemma safe_condfork_child:
  "safe_top (count_contract one_add (\<lambda>d. d = 1) (\<lambda>h. h = [Added]) (\<lambda>_. False)) (condvar_check_fork_child p) Free []"
  using safe_cond_child [of p] by (simp add: condvar_check_fork_child_def condvar_check_spawn_child_def)

section \<open>With a mutex for each process\<close>

text \<open>Who holds its mutex, who sleeps on the condition variable, who has been woken.\<close>

record own_state =
  own_held :: "tid \<Rightarrow> bool"
  own_sleeping :: "tid list"
  own_woken :: "tid list"

definition own_call :: "own_state \<Rightarrow> tid \<Rightarrow> pcall \<Rightarrow> int \<Rightarrow> own_state option" where
  "own_call l t c e =
     (if e \<noteq> 0 then None
      else if takes_lock c then (if own_held l t then None else Some (l\<lparr>own_held := (own_held l)(t := True)\<rparr>))
      else if c = Pmutex_unlock then Some (l\<lparr>own_held := (own_held l)(t := False)\<rparr>)
      else (case c of
          Pcond_broadcast i \<Rightarrow> Some (l\<lparr>own_sleeping := [], own_woken := own_sleeping l @ own_woken l\<rparr>)
        | Pcond_signal i \<Rightarrow> Some (l\<lparr>own_sleeping := [], own_woken := own_sleeping l @ own_woken l\<rparr>)
        | _ \<Rightarrow> Some l))"

definition own_sleep :: "own_state \<Rightarrow> tid \<Rightarrow> pcall \<Rightarrow> own_state" where
  "own_sleep l t c = l\<lparr>own_held := (own_held l)(t := False), own_sleeping := t # own_sleeping l\<rparr>"

definition own_wake :: "own_state \<Rightarrow> tid \<Rightarrow> own_state option" where
  "own_wake l t = (if t \<in> set (own_woken l) \<and> \<not> own_held l t
     then Some (l\<lparr>own_held := (own_held l)(t := True), own_woken := removeAll t (own_woken l)\<rparr>) else None)"

definition own_runner :: "own_state runner" where
  "own_runner = \<lparr>run_call = own_call, run_signal = (\<lambda>_ _ _. None), run_sleep = own_sleep, run_wake = own_wake\<rparr>"

text \<open>No single thread is the holder of both mutexes.\<close>

definition own_mutexes :: "own_state pthread" where
  "own_mutexes = \<lparr>holder = (\<lambda>_. None), call_ans = (\<lambda>l t c e l'. own_call l t c e = Some l'),
     wait_begin = (\<lambda>l t c l'. l' = own_sleep l t c), wait_end = (\<lambda>l t c e l'. e = 0 \<and> own_wake l t = Some l')\<rparr>"

lemma own_runner_of: "runner_of own_runner own_mutexes"
  by (auto simp: runner_of_def own_runner_def own_mutexes_def)

definition fork_state :: "(nat, exit_state, unit, own_state) sys" where
  "fork_state = \<lparr>
     threads = (\<lambda>t. if t = 0 then condvar_check_fork_parent dev_profile else if t = 1 then condvar_check_fork_child dev_profile else Return ()),
     asleep = (\<lambda>_. False), cell = 0, shared = None,
     lib = \<lparr>own_held = (\<lambda>_. False), own_sleeping = [], own_woken = []\<rparr>\<rparr>"

lemma own_mutexes_simps [simp]:
  "call_ans own_mutexes l t c e l' \<longleftrightarrow> own_call l t c e = Some l'" "wait_begin own_mutexes l t c l' \<longleftrightarrow> l' = own_sleep l t c"
  "wait_end own_mutexes l t c e l' \<longleftrightarrow> e = 0 \<and> own_wake l t = Some l'"
  by (simp_all add: own_mutexes_def)

text \<open>
  The child looks at the counter and finds zero; before it goes to sleep, the parent, which no lock keeps out, increments and
  broadcasts; then the child goes to sleep. From then on the parent waits for the child and the child for a wake-up.
\<close>

definition last_check :: "(nat, exit_state, unit) prog" where
  "last_check = mutex_lock (assert_guard_eq 2 (guard_drop (Return ())))"

definition wait_body :: "nat \<Rightarrow> (nat, exit_state, unit) prog" where
  "wait_body n = Atomic (\<lambda>s. s) (\<lambda>s. case s of None \<Rightarrow> Continue 0 | Some ok \<Rightarrow> last_check)"

lemma wait_child_body: "wait_child last_check = Loop wait_body 0"
  by (simp add: wait_child_def wait_body_def [abs_def])

definition hung :: "(nat, exit_state, unit, own_state) sys \<Rightarrow> bool" where
  "hung s \<longleftrightarrow> asleep s 1 \<and> (\<exists>k. threads s 1 = Pthread (Pcond_wait 0) k) \<and> own_woken (lib s) = [] \<and> cell s = 1 \<and> shared s = None \<and>
     (threads s 0 = Loop wait_body 0 \<or> threads s 0 = unroll wait_body 0) \<and> (\<forall>t. 2 \<le> t \<longrightarrow> threads s t = Return ())"

lemma fork_hangs:
  "\<exists>s. run_in own_runner [(1, Code 0), (1, Go), (1, Go), (0, Code 0), (0, Go), (0, Go), (0, Code 0), (0, Code 0), (1, Sleeps)] fork_state = Some s \<and> hung s"
  by (simp add: fork_state_def counter_defs condvar_check_fork_parent_def condvar_check_fork_child_def own_runner_def own_call_def own_sleep_def
      condvar_broadcast_def hung_def last_check_def wait_body_def [abs_def])

lemma hung_step:
  assumes "sys_step own_mutexes s s'" "hung s"
  shows "hung s'"
proof -
  have two: "t = 0 \<or> t = 1 \<or> threads s t = Return ()" for t
    using assms(2) by (cases "t = 0"; cases "t = 1") (auto simp: hung_def)
  note h = assms(2) [unfolded hung_def]
  have no: "threads s t \<noteq> Weak k1" "threads s t \<noteq> Access u k2" "threads s t \<noteq> Exclusive u k3" "threads s t \<noteq> Gettime g k4"
    "threads s t \<noteq> Instant_now k5" "threads s t \<noteq> Getpid k6" "threads s t = Pthread c k7 \<Longrightarrow> waits c \<and> asleep s t"
    for t u g c k1 k2 k3 k4 k5 k6 k7
    using two [of t] h by (auto simp: unroll_def wait_body_def waits_def)
  show ?thesis using assms(1)
  proof cases
    case (step_loop t b n)
    then show ?thesis using two [of t] h by (auto simp: hung_def unroll_def wait_body_def)
  next
    case (step_atomic t w k)
    then show ?thesis using two [of t] h by (auto simp: hung_def unroll_def wait_body_def)
  next
    case (step_wake t c k e l')
    then show ?thesis using two [of t] h by (auto simp: own_wake_def unroll_def wait_body_def)
  qed (use no in \<open>blast+\<close>)
qed

lemma hung_for_ever: "sys_reach own_mutexes s s' \<Longrightarrow> hung s \<Longrightarrow> hung s'"
  by (induction rule: sys_reach.induct) (auto intro: hung_step)

section \<open>The test\<close>

text \<open>
  Were the mutex shared, the test would be as good as \<open>check_spawn\<close>, and better: in every interleaving the
  parent's first assertion holds, the child fails none, and when the parent returns it has read zero and then two.
  The parent's last assertion fails only when the child ended without its increment.
\<close>

theorem condvar_check_fork_sound_if_shared:
  assumes "pthread_laws P" "counter_start P False (condvar_check_fork_parent p) (condvar_check_fork_child p) s0" "sys_reach P s0 s"
  shows "\<exists>log. explains log (cell s) \<and>
    (threads s 0 = Panic Assertion_failed \<longrightarrow> of_thread 0 log = [Saw 0, Added, Saw 1]) \<and>
    (threads s 0 = Return () \<longrightarrow> of_thread 0 log = [Saw 0, Added, Saw 2] \<and> cell s = 2) \<and>
    threads s 1 \<noteq> Panic Assertion_failed"
  using assms by (rule waiting_child_sound [OF _ _ _ safe_condfork_parent safe_condfork_child])

text \<open>
  With a mutex for each process the test can hang for ever: the child sees zero, the parent increments and broadcasts
  although the child has not released its lock, and the child goes to sleep after the only wake-up.
\<close>

theorem condvar_check_fork_can_hang:
  "\<exists>s. sys_reach own_mutexes fork_state s \<and> cell s = 1 \<and>
     (\<forall>s'. sys_reach own_mutexes s s' \<longrightarrow> asleep s' 1 \<and> cell s' = 1 \<and> (\<forall>r. threads s' 0 \<noteq> Return r))"
proof -
  obtain s where s: "sys_reach own_mutexes fork_state s" "hung s"
    using fork_hangs run_in_reach [OF own_runner_of] by blast
  have "asleep s' 1 \<and> cell s' = 1 \<and> (\<forall>r. threads s' 0 \<noteq> Return r)" if "hung s'" for s'
    using that by (auto simp: hung_def unroll_def wait_body_def)
  moreover have "cell s = 1" using s(2) by (simp add: hung_def)
  ultimately show ?thesis using s hung_for_ever by blast
qed

end
