(* ===== verification/Allocator_Test.thy ===== *)
theory Allocator_Test
  imports Allocator_Clients
begin

text \<open>
  The test \<open>check\<close> of \<open>allocator.rs\<close>: a \<open>u128\<close> is allocated, written and read twice. It begins with the
  allocator that \<open>ShmemAlloc::new(1024)\<close> has made, of 128 chunks. A \<open>u128\<close> has 16 bytes, least significant first; its alignment is the
  compiler's: 8 on x86-64 before Rust 1.77, 16 since. \<open>alloc_one\<close> is the method of the trait that allocates
  \<open>Layout::new::<u128>()\<close>.
\<close>

section \<open>A number in memory\<close>

definition write_u128 :: "nat \<Rightarrow> nat \<Rightarrow> (nat \<Rightarrow> nat) \<Rightarrow> nat \<Rightarrow> nat" where
  "write_u128 ptr v m = (\<lambda>x. if ptr \<le> x \<and> x < ptr + 16 then v div 256 ^ (x - ptr) mod 256 else m x)"

definition read_u128 :: "nat \<Rightarrow> (nat \<Rightarrow> nat) \<Rightarrow> nat" where
  "read_u128 ptr m = (\<Sum>i < 16. m (ptr + i) * 256 ^ i)"

lemma digits_sum: "(\<Sum>i < n. v div b ^ i mod b * b ^ i) = v mod b ^ n" for v b n :: nat
proof (induction n)
  case (Suc n)
  then show ?case using mod_mult2_eq [of v "b ^ n" b] by (simp add: ac_simps)
qed simp

lemma read_write_u128: "v < 2 ^ 128 \<Longrightarrow> read_u128 ptr (write_u128 ptr v m) = v"
  using digits_sum [of v 256 16] by (simp add: read_u128_def write_u128_def)

section \<open>The test\<close>

definition allocator_check :: "profile \<Rightarrow> (free_space, 'v, 'e) vec_lib \<Rightarrow> nat \<Rightarrow> shmem_alloc \<Rightarrow> ('v chunks, nat \<Rightarrow> nat, unit) prog" where
  "allocator_check p L u128_align allocator = shmem_alloc_alloc p L allocator \<lparr>l_size = 16, l_align = u128_align\<rparr> (\<lambda>r. case r of
     Inl e \<Rightarrow> Panic Expect_failed
   | Inr value_ptr \<Rightarrow> Atomic (write_u128 value_ptr 442343) (\<lambda>_.
       Atomic (\<lambda>m. m) (\<lambda>m. lift_exec Panic (assert_exec (read_u128 value_ptr m = 442343)) (\<lambda>_.
       Atomic (write_u128 value_ptr 1) (\<lambda>_.
       Atomic (\<lambda>m. m) (\<lambda>m. lift_exec Panic (assert_exec (read_u128 value_ptr m = 1)) (\<lambda>_. Return ())))))))"

text \<open>
  The test passes exactly where a \<open>u128\<close> is aligned to at most eight bytes: the allocator has no greater alignments, so with
  an alignment of 16 the allocation is refused, although the whole buffer is free, and the test panics.
\<close>

theorem allocator_check_needs_alignment:
  assumes "env_errno E Pmutex_lock = 0" "buffer_ok 128 a" "vec_laws L" "chunks_new p L 128 = Done (Inr c)"
    and "u128_align \<in> {8, 16}"
  shows "\<exists>c' m' r. solo E (allocator_check p L u128_align a) c m r c' m' \<and>
    r = (if u128_align = 8 then Done () else Panicked Expect_failed)"
proof -
  let ?l = "\<lparr>l_size = 16, l_align = u128_align\<rparr>"
  have inv: "client_inv L 128 a \<lparr>cl_chunks = c, cl_live = [], cl_mem = (\<lambda>_. 0)\<rparr>"
    by (rule client_inv_start [OF assms(3) _ _ assms(4)]) (simp_all add: usize_bound_def)
  then have c: "chunks_inv L 128 c" "free_set L c = {0 ..< 128}" using free_set_live [OF inv] by (simp_all add: client_inv_def)
  have l: "valid_layout ?l" using assms(5) by (auto simp: valid_layout_def layout_from_size_align_def is_power_of_two_def upt_rec)
  note run = solo_alloc [OF assms(1,2) c(1) l] and reads = read_write_u128 [of 442343] read_write_u128 [of 1]
  show ?thesis
  proof (cases rule: alloc_ref_cases [OF c(1) l, of p a, case_names zero refused taken])
    case refused
    have "\<exists>b. {b ..< b + chunks_of 16} \<subseteq> {0 ..< 128}" by (intro exI [of _ 0]) (simp add: chunks_of_def CHUNK_SIZE_8)
    then have "u128_align = 16" using refused(2) c(2) assms(5) by (auto simp: supported_def ALIGNMENT_def usize_bound_def)
    moreover have "solo E (allocator_check p L u128_align a) c m (Panicked Expect_failed) c m"
      unfolding allocator_check_def run refused(3) by simp
    ultimately show ?thesis by auto
  next
    case (taken i c')
    then have "u128_align = 8" using assms(5) by (auto simp: supported_def ALIGNMENT_def)
    moreover have "\<exists>m'. solo E (allocator_check p L u128_align a) c m (Done ()) c' m'"
      unfolding allocator_check_def run taken(6) using reads by (simp add: assert_exec_def)
    ultimately show ?thesis by auto
  qed simp
qed

end
