(* ===== verification/Allocator_Threads.thy ===== *)
theory Allocator_Threads
  imports Allocator_Clients Schedules
begin

text \<open>
  The shared-memory allocator under any interleaving: any number of threads of any number of processes allocate and
  release blocks of one buffer. Every call that reaches the free list is an event with its result: the call's own run
  alone, from the free list it found when it had the lock. \<open>Interleaving\<close> gives one order of all events; along it the invariant of
  the sequential client (\<open>Allocator_Correct\<close>) holds for the blocks of all threads together, provided that a
  thread releases only blocks of its own. So the guarantees of a single client carry over to all of them.
\<close>

section \<open>Events\<close>

datatype alloc_event = Alloc_event layout "(alloc_error + nat) exec" | Dealloc_event "nat \<times> layout" "unit exec"

text \<open>An environment in which the lock is free.\<close>

definition lock_env :: env where
  "lock_env = \<lparr>env_errno = (\<lambda>_. 0), env_time = (\<lambda>_. (0, \<lparr>tv_sec = 0, tv_nsec = 0\<rparr>, 0)), env_now = 0, env_pid = 0, env_weak = False\<rparr>"

lemma lock_env_errno [simp]: "env_errno lock_env c = 0"
  by (simp add: lock_env_def)

abbreviation no_memory :: "nat \<Rightarrow> nat" where
  "no_memory \<equiv> \<lambda>_. 0"

definition alone :: "('v chunks, nat \<Rightarrow> nat, 'r) prog \<Rightarrow> 'v chunks \<Rightarrow> 'r exec \<Rightarrow> 'v chunks \<Rightarrow> bool" where
  "alone q c r c' \<longleftrightarrow> solo lock_env q c no_memory r c' no_memory"

definition alloc_effect :: "profile \<Rightarrow> (free_space, 'v, 'e) vec_lib \<Rightarrow> shmem_alloc \<Rightarrow> 'v chunks \<Rightarrow> alloc_event \<Rightarrow> 'v chunks \<Rightarrow> bool" where
  "alloc_effect p L a c e c' \<longleftrightarrow> (case e of
     Alloc_event layout r \<Rightarrow> alone (shmem_alloc_alloc p L a layout Return) c r c'
   | Dealloc_event b r \<Rightarrow> alone (shmem_alloc_dealloc p L a (fst b) (snd b) (Return ())) c r c')"

text \<open>The blocks a history leaves allocated, and what it takes for a history to be that of a client of its own blocks.\<close>

fun live_step :: "(nat \<times> layout) list \<Rightarrow> alloc_event \<Rightarrow> (nat \<times> layout) list" where
  "live_step bs (Alloc_event layout (Done (Inr ptr))) = (ptr, layout) # bs"
| "live_step bs (Dealloc_event b r) = remove1 b bs"
| "live_step bs e = bs"

definition live :: "alloc_event list \<Rightarrow> (nat \<times> layout) list" where
  "live h = foldl live_step [] h"

lemma live_simps [simp]: "live [] = []" "live (h @ [e]) = live_step (live h) e"
  by (simp_all add: live_def)

text \<open>A block as the allocator hands it out; the code tells it from the dangling pointer of an empty one.\<close>

definition regular :: "shmem_alloc \<Rightarrow> nat \<times> layout \<Rightarrow> bool" where
  "regular a b \<longleftrightarrow> memory_buffer a \<le> fst b \<and> fst b \<noteq> l_align (snd b)"

definition regular_events :: "shmem_alloc \<Rightarrow> alloc_event list \<Rightarrow> bool" where
  "regular_events a h \<longleftrightarrow> (\<forall>layout ptr. Alloc_event layout (Done (Inr ptr)) \<in> set h \<longrightarrow> regular a (ptr, layout))"

definition own_event :: "(nat \<times> layout) list \<Rightarrow> alloc_event \<Rightarrow> bool" where
  "own_event bs e \<longleftrightarrow> (case e of
     Alloc_event layout r \<Rightarrow> valid_layout layout \<and> l_size layout \<noteq> 0
   | Dealloc_event b r \<Rightarrow> b \<in> set bs)"

definition own_events :: "shmem_alloc \<Rightarrow> alloc_event list \<Rightarrow> bool" where
  "own_events a h \<longleftrightarrow> (\<forall>h1 e h2. h = h1 @ e # h2 \<longrightarrow> regular_events a h1 \<longrightarrow> own_event (live h1) e)"

lemma own_events_Nil [simp]: "own_events a []"
  by (simp add: own_events_def)

lemma own_events_snoc:
  "own_events a (h @ [e]) \<longleftrightarrow> own_events a h \<and> (regular_events a h \<longrightarrow> own_event (live h) e)"
proof
  assume l: "own_events a (h @ [e])"
  then have "own_events a h" by (auto simp: own_events_def)
  with l show "own_events a h \<and> (regular_events a h \<longrightarrow> own_event (live h) e)"
    by (auto simp: own_events_def)
next
  assume r: "own_events a h \<and> (regular_events a h \<longrightarrow> own_event (live h) e)"
  show "own_events a (h @ [e])"
    unfolding own_events_def
  proof (intro allI impI)
    fix h1 x h2 assume s: "h @ [e] = h1 @ x # h2" "regular_events a h1"
    show "own_event (live h1) x"
    proof (cases h2 rule: rev_cases)
      case Nil
      then show ?thesis using s r by simp
    next
      case (snoc ys y)
      then have "h = h1 @ x # ys" using s(1) by simp
      then show ?thesis using s(2) r by (auto simp: own_events_def)
    qed
  qed
qed

definition broke :: "alloc_event \<Rightarrow> bool" where
  "broke e \<longleftrightarrow> (case e of Alloc_event layout r \<Rightarrow> \<exists>q. r = Panicked q | Dealloc_event b r \<Rightarrow> \<exists>q. r = Panicked q)"

section \<open>Each call\<close>

definition alloc_contract :: "profile \<Rightarrow> (free_space, 'v, 'e) vec_lib \<Rightarrow> shmem_alloc \<Rightarrow> ('r \<Rightarrow> alloc_event list \<Rightarrow> bool) \<Rightarrow>
    ('v chunks, 's, alloc_event, 'r) contract" where
  "alloc_contract p L a Q = \<lparr>atomics = (\<lambda>_. True), res_inv = (\<lambda>_. True), effect = alloc_effect p L a, history = own_events a,
     post = Q, fault = (\<lambda>q h. (\<exists>e. q = Os_failure e) \<or> (\<exists>e \<in> set h. broke e))\<rparr>"

lemma alloc_contract_simps [simp]:
  "atomics (alloc_contract p L a Q) = (\<lambda>_. True)" "res_inv (alloc_contract p L a Q) = (\<lambda>_. True)"
  "effect (alloc_contract p L a Q) = alloc_effect p L a" "history (alloc_contract p L a Q) = own_events a" "post (alloc_contract p L a Q) = Q"
  "fault (alloc_contract p L a Q) q h \<longleftrightarrow> (\<exists>e. q = Os_failure e) \<or> (\<exists>e \<in> set h. broke e)"
  by (simp_all add: alloc_contract_def)

text \<open>An access that is an event whatever it comes to: it returns, and the code goes on, or it panics, and the lock is released.\<close>

lemma safe_guarded:
  assumes "\<And>d x d'. f d = Done (x, d') \<Longrightarrow> \<exists>e. effect C d e d' \<and> history C (h @ [e]) \<and> safe C (k x) (Held d') (h @ [e]) J"
    and "\<And>d q. f d = Panicked q \<Longrightarrow> \<exists>e. effect C d e d \<and> history C (h @ [e]) \<and> fault C q (h @ [e])"
    and "res_inv C = (\<lambda>_. True)"
  shows "safe C (access_exec unlock_and_panic f k) (Held d) h J"
proof (cases "f d")
  case (Done y)
  then obtain x d' where y: "f d = Done (x, d')" by (cases y) auto
  then show ?thesis using assms(1) [OF y] by (simp add: access_exec_def)
next
  case (Panicked q)
  have "safe C (unlock_and_panic q) (Held d) (h @ [e]) J" if "fault C q (h @ [e])" for e
    using that assms(3) by (simp add: unlock_and_panic_def safe_guard_drop)
  then show ?thesis using Panicked assms(2) [OF Panicked] by (auto simp: access_exec_def)
next
  case Diverges
  then show ?thesis by (auto simp: access_exec_def intro!: exI [of _ "\<lambda>_ _ _. True"])
qed

text \<open>The part of \<open>alloc\<close> behind the lock.\<close>

definition handed_out :: "profile \<Rightarrow> shmem_alloc \<Rightarrow> layout \<Rightarrow> (alloc_error + nat \<Rightarrow> ('d, 's, 'r) prog) \<Rightarrow> free_space option \<Rightarrow> ('d, 's, 'r) prog" where
  "handed_out p a layout k r = (case r of
     Some chunk \<Rightarrow> lift_exec unlock_and_panic
       (exec_bind (usize_mul p (fs_count chunk) CHUNK_SIZE) (\<lambda>usable_size.
         exec_bind (rb_into_absolute p (relative_beginning chunk) (memory_buffer a)) (\<lambda>ptr. Done (ptr, usable_size))))
       (\<lambda>(ptr, _). guard_drop (k (Inr ptr)))
   | None \<Rightarrow> guard_drop (k (Inl (AllocationError layout))))"

lemma alloc_code:
  "check_alignment layout = Inr () \<Longrightarrow> l_size layout \<noteq> 0 \<Longrightarrow>
     shmem_alloc_alloc p L a layout k = mutex_lock (access_exec unlock_and_panic (\<lambda>c. chunks_get p L c (l_size layout)) (handed_out p a layout k))"
  by (simp add: shmem_alloc_alloc_def alloc_excess_def handed_out_def [abs_def] split_def cong: option.case_cong)

definition address_of :: "profile \<Rightarrow> shmem_alloc \<Rightarrow> free_space \<Rightarrow> (nat \<times> nat) exec" where
  "address_of p a chunk = exec_bind (usize_mul p (fs_count chunk) CHUNK_SIZE) (\<lambda>usable_size.
     exec_bind (rb_into_absolute p (relative_beginning chunk) (memory_buffer a)) (\<lambda>ptr. Done (ptr, usable_size)))"

lemma address_of_total: "address_of p a chunk \<noteq> Diverges"
  by (cases "relative_beginning chunk")
    (auto simp: address_of_def usize_mul_def usize_add_def rb_into_absolute_def split: if_splits)

lemma handed_out_some:
  "handed_out p a layout k (Some chunk) = lift_exec unlock_and_panic (address_of p a chunk) (\<lambda>(ptr, _). guard_drop (k (Inr ptr)))"
  by (simp add: handed_out_def address_of_def)

lemma safe_handed_out:
  assumes ev: "\<And>x. solo lock_env (handed_out p a layout Return r) d no_memory x d no_memory \<Longrightarrow> effect C d0 (Alloc_event layout x) d"
    and "res_inv C = (\<lambda>_. True)" "\<And>x. history C (h @ [Alloc_event layout x])" "\<And>q. fault C q (h @ [Alloc_event layout (Panicked q)])"
    and k: "\<And>x. safe C (k x) Free (h @ [Alloc_event layout (Done x)]) J"
  shows "\<exists>e. effect C d0 e d \<and> history C (h @ [e]) \<and> safe C (handed_out p a layout k r) (Held d) (h @ [e]) J"
proof -
  have drop: "safe C (guard_drop (k x)) (Held d) (h @ [Alloc_event layout (Done x)]) J" for x
    using assms(2) k by (simp add: safe_guard_drop)
  have "\<exists>x. solo lock_env (handed_out p a layout Return r) d no_memory x d no_memory \<and>
    safe C (handed_out p a layout k r) (Held d) (h @ [Alloc_event layout x]) J"
  proof (cases r)
    case None
    then show ?thesis using drop by (intro exI [of _ "Done (Inl (AllocationError layout))"]) (simp add: handed_out_def guard_drop_def)
  next
    case (Some chunk)
    show ?thesis
    proof (cases "address_of p a chunk")
      case (Done y)
      then show ?thesis using Some drop
        by (intro exI [of _ "Done (Inr (fst y))"]) (simp add: handed_out_some split_def guard_drop_def)
    next
      case (Panicked q)
      have "safe C (unlock_and_panic q) (Held d) (h @ [Alloc_event layout (Panicked q)]) J"
        using assms(2,4) by (simp add: unlock_and_panic_def safe_guard_drop)
      then show ?thesis using Some Panicked
        by (intro exI [of _ "Panicked q"]) (simp add: handed_out_some unlock_and_panic_def guard_drop_def)
    qed (simp add: address_of_total)
  qed
  then show ?thesis using ev assms(3) by blast
qed

lemma safe_shmem_alloc:
  fixes k :: "alloc_error + nat \<Rightarrow> ('v chunks, 's, 'r) prog"
  assumes zero: "l_size layout = 0 \<Longrightarrow> safe_top (alloc_contract p L a Q) (k (Inr (l_align layout))) Free h"
    and refused: "\<And>e. check_alignment layout = Inl e \<Longrightarrow> safe_top (alloc_contract p L a Q) (k (Inl e)) Free h"
    and called: "\<And>r. l_size layout \<noteq> 0 \<Longrightarrow> check_alignment layout = Inr () \<Longrightarrow>
      safe_top (alloc_contract p L a Q) (k r) Free (h @ [Alloc_event layout (Done r)])"
    and own: "\<And>r. l_size layout \<noteq> 0 \<Longrightarrow> own_events a (h @ [Alloc_event layout r])"
  shows "safe_top (alloc_contract p L a Q) (shmem_alloc_alloc p L a layout k) Free h"
proof (cases "check_alignment layout = Inr () \<and> l_size layout \<noteq> 0")
  case False
  then show ?thesis using zero refused by (cases "check_alignment layout") (auto simp: shmem_alloc_alloc_def alloc_excess_def)
next
  case True
  let ?C = "alloc_contract p L a Q :: ('v chunks, 's, alloc_event, 'r) contract"
  note code = alloc_code [OF conjunct1 [OF True] conjunct2 [OF True]]
  have effect: "alloc_effect p L a d (Alloc_event layout r) d' \<longleftrightarrow>
    solo lock_env (access_exec unlock_and_panic (\<lambda>c. chunks_get p L c (l_size layout)) (handed_out p a layout Return)) d no_memory r d' no_memory"
    for d r d' by (simp add: alloc_effect_def alone_def code mutex_lock_def)
  show ?thesis unfolding code
  proof (rule safe_lock, rule safe_guarded)
    fix d x d' assume get: "chunks_get p L d (l_size layout) = Done (x, d')"
    show "\<exists>e. effect ?C d e d' \<and> history ?C (h @ [e]) \<and>
        safe_top ?C (handed_out p a layout k x) (Held d') (h @ [e])"
      by (rule safe_handed_out) (use get True called own in \<open>simp_all add: effect access_exec_def broke_def\<close>)
  next
    fix d q assume "chunks_get p L d (l_size layout) = Panicked q"
    then have "alloc_effect p L a d (Alloc_event layout (Panicked q)) d"
      by (simp add: effect access_exec_def unlock_and_panic_def guard_drop_def)
    then show "\<exists>e. effect ?C d e d \<and> history ?C (h @ [e]) \<and> fault ?C q (h @ [e])"
      using True own by (intro exI [of _ "Alloc_event layout (Panicked q)"]) (simp add: broke_def)
  qed simp_all
qed

lemma safe_shmem_dealloc:
  fixes k :: "('v chunks, 's, 'r) prog"
  assumes dangling: "l_align (snd b) = fst b \<or> fst b < memory_buffer a \<Longrightarrow> safe_top (alloc_contract p L a Q) k Free h"
    and called: "l_align (snd b) \<noteq> fst b \<Longrightarrow> memory_buffer a \<le> fst b \<Longrightarrow> safe_top (alloc_contract p L a Q) k Free (h @ [Dealloc_event b (Done ())])"
    and own: "\<And>r. l_align (snd b) \<noteq> fst b \<Longrightarrow> memory_buffer a \<le> fst b \<Longrightarrow> own_events a (h @ [Dealloc_event b r])"
    and "check_alignment (snd b) = Inr ()"
  shows "safe_top (alloc_contract p L a Q) (shmem_alloc_dealloc p L a (fst b) (snd b) k) Free h"
proof (cases "l_align (snd b) = fst b \<or> fst b < memory_buffer a")
  case True
  then show ?thesis using dangling assms(4) by (auto simp: shmem_alloc_dealloc_def usize_checked_sub_def)
next
  case False
  let ?C = "alloc_contract p L a Q :: ('v chunks, 's, alloc_event, 'r) contract"
  let ?f = "\<lambda>c. exec_bind (chunks_return_back p L c (fst b - memory_buffer a) (l_size (snd b))) (\<lambda>c'. Done ((), c'))"
  have effect: "alloc_effect p L a d (Dealloc_event b r) d' \<longleftrightarrow>
    solo lock_env (access_exec unlock_and_panic ?f (\<lambda>_. guard_drop (Return ()))) d no_memory r d' no_memory" for d r d'
    using False assms(4) by (simp add: alloc_effect_def alone_def shmem_alloc_dealloc_def usize_checked_sub_def mutex_lock_def)
  have "safe_top ?C (mutex_lock (access_exec unlock_and_panic ?f (\<lambda>_. guard_drop k))) Free h"
  proof (rule safe_lock, rule safe_guarded)
    fix d x d' assume "?f d = Done (x, d')"
    then have "alloc_effect p L a d (Dealloc_event b (Done ())) d'" by (simp add: effect access_exec_def guard_drop_def)
    moreover have "safe_top ?C (guard_drop k) (Held d') (h @ [Dealloc_event b (Done ())])"
      using called False by (intro safe_guard_drop) simp_all
    ultimately show "\<exists>e. effect ?C d e d' \<and> history ?C (h @ [e]) \<and>
        safe_top ?C (guard_drop k) (Held d') (h @ [e])" using own False by auto
  next
    fix d q assume "?f d = Panicked q"
    then have "alloc_effect p L a d (Dealloc_event b (Panicked q)) d"
      by (simp add: effect access_exec_def unlock_and_panic_def guard_drop_def)
    then show "\<exists>e. effect ?C d e d \<and> history ?C (h @ [e]) \<and> fault ?C q (h @ [e])"
      using own False by (intro exI [of _ "Dealloc_event b (Panicked q)"]) (simp add: broke_def)
  qed simp_all
  then show ?thesis using False assms(4) by (simp add: shmem_alloc_dealloc_def usize_checked_sub_def)
qed

section \<open>A thread that allocates and releases\<close>

text \<open>\<open>Free i\<close> releases the \<open>i\<close>-th of the blocks the thread has.\<close>

datatype alloc_op = Alloc layout | Free_block nat

fun alloc_thread :: "profile \<Rightarrow> (free_space, 'v, 'e) vec_lib \<Rightarrow> shmem_alloc \<Rightarrow> alloc_op list \<Rightarrow> (nat \<times> layout) list \<Rightarrow>
    ('v chunks, 's, (nat \<times> layout) list) prog" where
  "alloc_thread p L a [] bs = Return bs"
| "alloc_thread p L a (Alloc layout # ops) bs = shmem_alloc_alloc p L a layout (\<lambda>r. case r of
     Inl e \<Rightarrow> alloc_thread p L a ops bs | Inr ptr \<Rightarrow> alloc_thread p L a ops ((ptr, layout) # bs))"
| "alloc_thread p L a (Free_block i # ops) bs = (if i < length bs
     then shmem_alloc_dealloc p L a (fst (bs ! i)) (snd (bs ! i)) (alloc_thread p L a ops (remove1 (bs ! i) bs))
     else alloc_thread p L a ops bs)"

text \<open>The blocks a thread has are those its history leaves allocated, and empty ones, which no event stands for.\<close>

abbreviation nonempty :: "nat \<times> layout \<Rightarrow> bool" where
  "nonempty b \<equiv> l_size (snd b) \<noteq> 0"

definition blocks_agree :: "shmem_alloc \<Rightarrow> (nat \<times> layout) list \<Rightarrow> alloc_event list \<Rightarrow> bool" where
  "blocks_agree a bs h \<longleftrightarrow> (\<forall>b \<in> set bs. check_alignment (snd b) = Inr () \<and> (\<not> nonempty b \<longrightarrow> fst b = l_align (snd b))) \<and>
     (regular_events a h \<longrightarrow> filter nonempty bs = live h)"

lemma regular_events_snoc:
  "regular_events a (h @ [e]) \<longleftrightarrow> regular_events a h \<and> (\<forall>layout ptr. e = Alloc_event layout (Done (Inr ptr)) \<longrightarrow> regular a (ptr, layout))"
  by (auto simp: regular_events_def)

lemma live_regular: "regular_events a h \<Longrightarrow> b \<in> set (live h) \<Longrightarrow> regular a b"
proof (induction h rule: rev_induct)
  case (snoc e h)
  then show ?case
    by (cases "(live h, e)" rule: live_step.cases) (auto simp: regular_events_snoc dest: notin_set_remove1)
qed simp

lemma filter_remove1_not: "\<not> P x \<Longrightarrow> filter P (remove1 x xs) = filter P xs"
  by (induction xs) auto

lemma filter_remove1_in: "P x \<Longrightarrow> filter P (remove1 x xs) = remove1 x (filter P xs)"
  by (induction xs) auto

lemma check_alignment_empty: "l_size layout = 0 \<Longrightarrow> check_alignment layout = Inr ()"
  by (simp add: check_alignment_def)

lemma safe_alloc_thread:
  fixes L :: "(free_space, 'v, 'e) vec_lib"
  assumes "own_events a h" "blocks_agree a bs h" "\<forall>layout. Alloc layout \<in> set ops \<longrightarrow> valid_layout layout"
  shows "safe_top (alloc_contract p L a (blocks_agree a) :: ('v chunks, 's, alloc_event, (nat \<times> layout) list) contract) (alloc_thread p L a ops bs) Free h"
  using assms
proof (induction ops arbitrary: bs h)
  case (Cons op ops)
  let ?C = "alloc_contract p L a (blocks_agree a) :: ('v chunks, 's, alloc_event, (nat \<times> layout) list) contract"
  have go_on: "own_events a h' \<Longrightarrow> blocks_agree a bs' h' \<Longrightarrow>
      safe_top ?C (alloc_thread p L a ops bs') Free h'" for bs' h'
    using Cons.prems(3) by (intro Cons.IH) simp_all
  show ?case
  proof (cases op)
    case (Alloc layout)
    have own: "own_events a (h @ [Alloc_event layout r])" if "l_size layout \<noteq> 0" for r
      using Cons.prems(1,3) Alloc that by (simp add: own_events_snoc own_event_def)
    show ?thesis unfolding Alloc alloc_thread.simps
    proof (rule safe_shmem_alloc)
      fix r assume "l_size layout \<noteq> 0" "check_alignment layout = Inr ()"
      then show "safe_top ?C (case r of Inl e \<Rightarrow> alloc_thread p L a ops bs
          | Inr ptr \<Rightarrow> alloc_thread p L a ops ((ptr, layout) # bs)) Free (h @ [Alloc_event layout (Done r)])"
        using Cons.prems(2) own by (cases r) (auto intro!: go_on simp: blocks_agree_def regular_events_snoc)
    next
      assume "l_size layout = 0"
      then have "blocks_agree a ((l_align layout, layout) # bs) h"
        using Cons.prems(2) by (simp add: blocks_agree_def check_alignment_empty)
      with Cons.prems(1) show "safe_top ?C (case Inr (l_align layout) of Inl e \<Rightarrow> alloc_thread p L a ops bs
          | Inr ptr \<Rightarrow> alloc_thread p L a ops ((ptr, layout) # bs)) Free h"
        by (simp add: go_on)
    qed (use Cons.prems(1,2) own in \<open>simp_all add: go_on\<close>)
  next
    case (Free_block i)
    show ?thesis
    proof (cases "i < length bs")
      case True
      let ?b = "bs ! i"
      have b: "?b \<in> set bs" "check_alignment (snd ?b) = Inr ()" "\<not> nonempty ?b \<Longrightarrow> fst ?b = l_align (snd ?b)"
        using True Cons.prems(2) by (auto simp: blocks_agree_def)
      have live: "nonempty ?b \<Longrightarrow> regular_events a h \<Longrightarrow> ?b \<in> set (live h)"
        using b(1) Cons.prems(2) filter_set [of nonempty bs] by (auto simp: blocks_agree_def)
      have rest: "blocks_agree a (remove1 ?b bs) h'" if "regular_events a h' \<Longrightarrow> filter nonempty (remove1 ?b bs) = live h'" for h'
        using that Cons.prems(2) by (auto simp: blocks_agree_def dest: notin_set_remove1)
      have "safe_top ?C (shmem_alloc_dealloc p L a (fst ?b) (snd ?b) (alloc_thread p L a ops (remove1 ?b bs))) Free h"
      proof (rule safe_shmem_dealloc)
        assume d: "l_align (snd ?b) = fst ?b \<or> fst ?b < memory_buffer a"
        have "filter nonempty (remove1 ?b bs) = live h" if r: "regular_events a h"
        proof -
          have "\<not> nonempty ?b"
          proof
            assume "nonempty ?b"
            then have "regular a ?b" using live_regular [OF r live [OF _ r]] by simp
            with d show False by (auto simp: regular_def)
          qed
          then show ?thesis using filter_remove1_not [of nonempty ?b bs] Cons.prems(2) r by (simp add: blocks_agree_def)
        qed
        then show "safe_top ?C (alloc_thread p L a ops (remove1 ?b bs)) Free h"
          using Cons.prems(1) by (intro go_on rest) simp_all
      next
        assume d: "l_align (snd ?b) \<noteq> fst ?b" "memory_buffer a \<le> fst ?b"
        then have n: "nonempty ?b" using b(3) by auto
        have own: "own_events a (h @ [Dealloc_event ?b r])" for r
          using Cons.prems(1) live [OF n] by (simp add: own_events_snoc own_event_def)
        then show "own_events a (h @ [Dealloc_event ?b r])" for r .
        have "filter nonempty (remove1 ?b bs) = live (h @ [Dealloc_event ?b (Done ())])" if "regular_events a (h @ [Dealloc_event ?b (Done ())])"
          using filter_remove1_in [of nonempty ?b bs] n that Cons.prems(2) by (simp add: blocks_agree_def regular_events_snoc)
        then show "safe_top ?C (alloc_thread p L a ops (remove1 ?b bs)) Free (h @ [Dealloc_event ?b (Done ())])"
          using own by (intro go_on rest) simp_all
      qed (use b in simp)
      with True show ?thesis by (simp add: Free_block)
    qed (use Cons.prems(1,2) in \<open>simp add: Free_block go_on\<close>)
  qed
qed simp

section \<open>All threads\<close>

lemma event_chain_snoc_iff:
  "event_chain G d (es @ [e]) d' \<longleftrightarrow> (\<exists>d1. event_chain G d es d1 \<and> G d1 e d')"
  by (induction es arbitrary: d) auto

lemma own_event_mono: "own_event bs e \<Longrightarrow> set bs \<subseteq> set bs' \<Longrightarrow> own_event bs' e"
  by (auto simp: own_event_def split: alloc_event.splits)

text \<open>One event keeps the invariant of the sequential client, and does not panic.\<close>

lemma event_client_inv:
  assumes ok: "buffer_ok n a" and inv: "client_inv L n a \<lparr>cl_chunks = c, cl_live = bs, cl_mem = no_memory\<rparr>"
    and own: "own_event bs e" and eff: "alloc_effect p L a c e c'"
  shows "client_inv L n a \<lparr>cl_chunks = c', cl_live = live_step bs e, cl_mem = no_memory\<rparr> \<and> \<not> broke e \<and>
    (\<forall>layout ptr. e = Alloc_event layout (Done (Inr ptr)) \<longrightarrow> regular a (ptr, layout))"
proof (cases e)
  case (Alloc_event layout r)
  have run: "solo lock_env (shmem_alloc_alloc p L a layout Return) c no_memory r c' no_memory"
    and lay: "valid_layout layout" "l_size layout \<noteq> 0"
    using own eff by (simp_all add: Alloc_event own_event_def alloc_effect_def alone_def)
  have c: "chunks_inv L n c" using inv by (simp add: client_inv_def)
  obtain x where r: "r = Done x" using run by (simp add: solo_alloc [OF lock_env_errno ok c lay(1)])
  have keep: "case x of Inr ptr \<Rightarrow> client_inv L n a \<lparr>cl_chunks = c', cl_live = (ptr, layout) # bs, cl_mem = no_memory\<rparr>
      | Inl e \<Rightarrow> client_inv L n a \<lparr>cl_chunks = c', cl_live = bs, cl_mem = no_memory\<rparr>"
    using client_inv_alloc [OF lock_env_errno ok inv lay(1), of p x c' no_memory] run r by (cases x) simp_all
  show ?thesis
  proof (cases x)
    case (Inl err)
    with keep show ?thesis by (simp add: Alloc_event r broke_def)
  next
    case (Inr ptr)
    with keep have inv': "client_inv L n a \<lparr>cl_chunks = c', cl_live = (ptr, layout) # bs, cl_mem = no_memory\<rparr>" by simp
    then have "block_ok n a (ptr, layout)" by (simp add: client_inv_def)
    then obtain i where "ptr = chunk_addr a i" "supported layout" using lay(2) by (auto simp: block_ok_def)
    then have "regular a (ptr, layout)"
      using supported_align [of layout] ok by (simp add: regular_def buffer_ok_def chunk_addr_def)
    with inv' Inr show ?thesis by (simp add: Alloc_event r broke_def)
  qed
next
  case (Dealloc_event b r)
  then have live: "(fst b, snd b) \<in> set (cl_live \<lparr>cl_chunks = c, cl_live = bs, cl_mem = no_memory\<rparr>)"
    using own by (simp add: own_event_def)
  have run: "solo lock_env (shmem_alloc_dealloc p L a (fst b) (snd b) (Return ())) c no_memory r c' no_memory"
    using eff by (simp add: Dealloc_event alloc_effect_def alone_def)
  with solo_dealloc [OF lock_env_errno ok inv live, of p "Return ()" no_memory r c' no_memory] have r: "r = Done ()" by simp
  with client_inv_dealloc [OF lock_env_errno ok inv live] run show ?thesis by (simp add: Dealloc_event broke_def)
qed

text \<open>The blocks of all threads together are those of the whole log, however the log is split among the threads.\<close>

lemma mset_live_step:
  "own_event bs e \<Longrightarrow> mset bs + M = mset bs' \<Longrightarrow> mset (live_step bs e) + M = mset (live_step bs' e)"
  by (cases "(bs, e)" rule: live_step.cases)
    (auto simp: own_event_def multiset_diff_union_assoc [symmetric] union_commute [of _ M])

lemma log_inv:
  assumes ok: "buffer_ok n a" "vec_laws L" "0 < n" "chunks_new p L n = Done (Inr c)"
  shows "event_chain (alloc_effect p L a) c (map snd log) d \<Longrightarrow> \<forall>t. own_events a (of_thread t log) \<Longrightarrow>
    client_inv L n a \<lparr>cl_chunks = d, cl_live = live (map snd log), cl_mem = no_memory\<rparr> \<and>
    regular_events a (map snd log) \<and> (\<forall>e \<in> set (map snd log). \<not> broke e) \<and>
    (\<forall>T. finite T \<longrightarrow> fst ` set log \<subseteq> T \<longrightarrow> (\<Sum>t \<in> T. mset (live (of_thread t log))) = mset (live (map snd log)))"
proof (induction log arbitrary: d rule: rev_induct)
  case Nil
  then show ?case using client_inv_start [OF ok(2,3) buffer_ok_bound [OF ok(1)] ok(4)] by (simp add: regular_events_def)
next
  case (snoc x log)
  obtain t e where x: "x = (t, e)" by fastforce
  obtain d1 where chain: "event_chain (alloc_effect p L a) c (map snd log) d1" and eff: "alloc_effect p L a d1 e d"
    using snoc.prems(1) by (auto simp: x event_chain_snoc_iff)
  have own: "own_events a (of_thread t' log) \<and> (t' = t \<longrightarrow> regular_events a (of_thread t log) \<longrightarrow> own_event (live (of_thread t log)) e)" for t'
    using spec [OF snoc.prems(2), of t'] by (auto simp: x own_events_snoc split: if_splits)
  note IH = snoc.IH [OF chain allI [OF conjunct1 [OF own]]]
  have "regular_events a (of_thread t log)" using IH by (auto simp: regular_events_def of_thread_def)
  then have mine: "own_event (live (of_thread t log)) e" using own by blast
  have split: "mset (live (of_thread t log)) + (\<Sum>t' \<in> T - {t}. mset (live (of_thread t' log))) = mset (live (map snd log))"
    if "finite T" "fst ` set log \<subseteq> T" "t \<in> T" for T
    using IH that sum.remove [of T t "\<lambda>t. mset (live (of_thread t log))"] by simp
  have "set (live (of_thread t log)) \<subseteq> set (live (map snd log))"
    using arg_cong [OF split [of "insert t (fst ` set log)"], of set_mset] by auto
  then have step: "client_inv L n a \<lparr>cl_chunks = d, cl_live = live_step (live (map snd log)) e, cl_mem = no_memory\<rparr> \<and> \<not> broke e \<and>
      (\<forall>layout ptr. e = Alloc_event layout (Done (Inr ptr)) \<longrightarrow> regular a (ptr, layout))"
    using IH own_event_mono [OF mine] eff by (intro event_client_inv [OF ok(1)]) auto
  have "(\<Sum>t' \<in> T. mset (live (of_thread t' (log @ [x])))) = mset (live (map snd (log @ [x])))"
    if T: "finite T" "fst ` set (log @ [x]) \<subseteq> T" for T
    using mset_live_step [OF mine split [of T]] T by (simp add: x sum.remove [of T t])
  with step IH show ?case by (auto simp: x regular_events_snoc)
qed

lemma thread_blocks:
  assumes "\<forall>T. finite T \<longrightarrow> fst ` set log \<subseteq> T \<longrightarrow> (\<Sum>t \<in> T. mset (live (of_thread t log))) = mset (live (map snd log))" "finite T"
  shows "(\<Sum>t \<in> T. mset (live (of_thread t log))) \<subseteq># mset (live (map snd log))"
proof -
  let ?U = "T \<union> fst ` set log" and ?f = "\<lambda>t. mset (live (of_thread t log))"
  have "sum ?f ?U = sum ?f T + sum ?f (?U - T)"
    using sum.subset_diff [of T ?U ?f] assms(2) by (simp add: add.commute)
  then show ?thesis using assms by (metis Un_upper2 finite_UnI finite_imageI List.finite_set mset_subset_eq_add_left)
qed

text \<open>Two occurrences of blocks among the live ones.\<close>

lemma two_blocks_disjoint:
  assumes inv: "client_inv L n a s" and two: "{#b, b'#} \<subseteq># mset (cl_live s)"
  shows "{fst b ..< fst b + l_size (snd b)} \<inter> {fst b' ..< fst b' + l_size (snd b')} = {}"
proof -
  have "b \<in> set (cl_live s)" "b' \<in> set (cl_live s)" using mset_subset_eqD [OF two] by simp_all
  then have ok: "block_ok n a b" "block_ok n a b'" using inv by (simp_all add: client_inv_def)
  have "block_cells a b \<inter> block_cells a b' = {}"
  proof (rule ccontr)
    assume "\<not> ?thesis"
    then obtain x where x: "x \<in> block_cells a b" "x \<in> block_cells a b'" by blast
    let ?P = "\<lambda>b. x \<in> block_cells a b"
    have "size (filter_mset ?P {#b, b'#}) \<le> size (filter_mset ?P (mset (cl_live s)))"
      by (intro size_mset_mono multiset_filter_mono two)
    then have "2 \<le> owners L a s x"
      using x by (simp add: owners_def mset_filter [symmetric] del: mset_filter)
    then show False using inv by (simp add: client_inv_def split: if_splits)
  qed
  then show ?thesis using block_byte_cell(1) [OF ok(1)] block_byte_cell(1) [OF ok(2)] by blast
qed

lemma pair_subset_mset: "i < length xs \<Longrightarrow> j < length xs \<Longrightarrow> i \<noteq> j \<Longrightarrow> {#xs ! i, xs ! j#} \<subseteq># mset xs"
proof (induction xs arbitrary: i j)
  case (Cons x xs)
  have "{#xs ! k, xs ! l#} \<subseteq># add_mset x (mset xs)" if "k < length xs" "l < length xs" "k \<noteq> l" for k l
    using Cons.IH [OF that] by (rule subset_mset.order_trans) simp
  with Cons.prems show ?case by (cases i; cases j) (auto simp: nth_mem_mset)
qed simp

definition alloc_start :: "profile \<Rightarrow> (free_space, 'v, 'e) vec_lib \<Rightarrow> 'l pthread \<Rightarrow> nat \<Rightarrow> shmem_alloc \<Rightarrow> (tid \<Rightarrow> alloc_op list) \<Rightarrow>
    ('v chunks, 's, (nat \<times> layout) list, 'l) sys \<Rightarrow> bool" where
  "alloc_start p L P n a ops s \<longleftrightarrow> chunks_new p L n = Done (Inr (cell s)) \<and> holder P (lib s) = None \<and>
     (\<forall>t. \<not> asleep s t \<and> threads s t = alloc_thread p L a (ops t) [] \<and> (\<forall>layout. Alloc layout \<in> set (ops t) \<longrightarrow> valid_layout layout))"

lemma alloc_sys_inv:
  fixes L :: "(free_space, 'v, 'e) vec_lib" and s :: "('v chunks, 's, (nat \<times> layout) list, 'l) sys"
  assumes "pthread_laws P" "alloc_start p L P n a ops s0" "sys_reach P s0 s"
  obtains log where "sys_inv (\<lambda>_. True) (\<lambda>_. alloc_contract p L a (blocks_agree a)) P (cell s0) s log"
    "event_chain (alloc_effect p L a) (cell s0) (map snd log) (cell s)" "\<forall>t. own_events a (of_thread t log)"
proof -
  let ?C = "alloc_contract p L a (blocks_agree a) :: ('v chunks, 's, alloc_event, (nat \<times> layout) list) contract"
  have empty: "blocks_agree a [] []" by (simp add: blocks_agree_def)
  have "safe_top ?C (threads s0 t) Free []" for t
    using assms(2) empty by (auto simp: alloc_start_def intro!: safe_alloc_thread)
  then have "sys_inv (\<lambda>_. True) (\<lambda>_. ?C) P (cell s0) s0 []"
    using assms(2) by (intro sys_inv_start [where A = "\<lambda>_. True"]) (simp_all add: alloc_start_def)
  then obtain log where inv: "sys_inv (\<lambda>_. True) (\<lambda>_. ?C) P (cell s0) s log"
    using interleaving_sound [OF assms(1) _ assms(3)] by blast
  show thesis
  proof (rule that [OF inv])
    have "event_chain (owned_effect (\<lambda>_. ?C)) (cell s0) log (cell s)" using inv by (simp add: sys_inv_def)
    then show "event_chain (alloc_effect p L a) (cell s0) (map snd log) (cell s)"
      by (simp add: owned_effect_shared [where G = "alloc_effect p L a"])
    show "\<forall>t. own_events a (of_thread t log)" using sys_inv_history [OF inv] by simp
  qed
qed

text \<open>Two blocks that finished threads hold, in different places, are two of the live blocks of the log.\<close>

lemma held_blocks:
  assumes all: "\<forall>T. finite T \<longrightarrow> fst ` set log \<subseteq> T \<longrightarrow> (\<Sum>t \<in> T. mset (live (of_thread t log))) = mset (live (map snd log))"
    and bs: "filter nonempty bs = live (of_thread t log)" "filter nonempty bs' = live (of_thread t' log)" "t = t' \<Longrightarrow> bs = bs'"
    and pos: "i < length bs" "j < length bs'" "(t, i) \<noteq> (t', j)" "nonempty (bs ! i)" "nonempty (bs' ! j)"
  shows "{#bs ! i, bs' ! j#} \<subseteq># mset (live (map snd log))"
proof (cases "t = t'")
  case True
  then have "{#bs ! i, bs' ! j#} \<subseteq># mset bs" using pair_subset_mset [of i bs j] bs(3) pos by auto
  from multiset_filter_mono [OF this, of nonempty] have "{#bs ! i, bs' ! j#} \<subseteq># mset (live (of_thread t log))"
    using pos(4,5) bs(1) by (simp flip: mset_filter)
  then show ?thesis using thread_blocks [OF all, of "{t}"] by (simp add: subset_mset.order_trans)
next
  case False
  have "bs ! i \<in># mset (live (of_thread t log))" "bs' ! j \<in># mset (live (of_thread t' log))"
    using pos(1,2,4,5) by (simp_all flip: bs(1,2))
  then have "{#bs ! i#} + {#bs' ! j#} \<subseteq># mset (live (of_thread t log)) + mset (live (of_thread t' log))"
    by (intro subset_mset.add_mono) simp_all
  then show ?thesis using thread_blocks [OF all, of "{t, t'}"] False
    by (simp add: add_mset_commute subset_mset.order_trans)
qed

text \<open>
  C2: The allocator is safe to share. Any number of threads allocate and release, each only its own blocks, in any
  interleaving and whatever pthread answers: no thread ever panics, unless a pthread call fails, and the byte ranges of the blocks that the threads have
  when they are through never overlap, those of one thread or of two.
\<close>

theorem concurrent_blocks_disjoint:
  assumes "buffer_ok n a" "vec_laws L" "0 < n" "pthread_laws P"
    and "alloc_start p L P n a ops s0" "sys_reach P s0 s"
  shows "(\<forall>t q. threads s t = Panic q \<longrightarrow> (\<exists>e. q = Os_failure e)) \<and>
    (\<forall>t bs t' bs' i j. threads s t = Return bs \<longrightarrow> threads s t' = Return bs' \<longrightarrow> i < length bs \<longrightarrow> j < length bs' \<longrightarrow> (t, i) \<noteq> (t', j) \<longrightarrow>
      {fst (bs ! i) ..< fst (bs ! i) + l_size (snd (bs ! i))} \<inter> {fst (bs' ! j) ..< fst (bs' ! j) + l_size (snd (bs' ! j))} = {})"
proof -
  obtain log where inv: "sys_inv (\<lambda>_. True) (\<lambda>_. alloc_contract p L a (blocks_agree a)) P (cell s0) s log"
    and chain: "event_chain (alloc_effect p L a) (cell s0) (map snd log) (cell s)" "\<forall>t. own_events a (of_thread t log)"
    using alloc_sys_inv [OF assms(4-6)] by blast
  have "chunks_new p L n = Done (Inr (cell s0))" using assms(5) by (simp add: alloc_start_def)
  note all = log_inv [OF assms(1-3) this chain]
  have mine: "regular_events a (of_thread t log)" "\<forall>e \<in> set (of_thread t log). \<not> broke e" for t
    using all by (auto simp: regular_events_def of_thread_def)
  have held: "filter nonempty bs = live (of_thread t log)" if "threads s t = Return bs" for t bs
    using sys_inv_returned [OF inv that] mine(1) by (simp add: blocks_agree_def)
  have "\<exists>e. q = Os_failure e" if "threads s t = Panic q" for t q
    using sys_inv_panicked [OF inv that] mine(2) by auto
  moreover have "{fst (bs ! i) ..< fst (bs ! i) + l_size (snd (bs ! i))} \<inter> {fst (bs' ! j) ..< fst (bs' ! j) + l_size (snd (bs' ! j))} = {}"
    if r: "threads s t = Return bs" "threads s t' = Return bs'" and pos: "i < length bs" "j < length bs'" "(t, i) \<noteq> (t', j)" for t bs t' bs' i j
  proof (cases "nonempty (bs ! i) \<and> nonempty (bs' ! j)")
    case True
    have "{#bs ! i, bs' ! j#} \<subseteq># mset (live (map snd log))"
      using all r pos True by (intro held_blocks [where t = t and t' = t'] held) auto
    with all two_blocks_disjoint [of L n a "\<lparr>cl_chunks = cell s, cl_live = live (map snd log), cl_mem = no_memory\<rparr>"]
    show ?thesis by simp
  qed auto
  ultimately show ?thesis by blast
qed

text \<open>Two threads take a block each; the second one releases its own again and takes a smaller one.\<close>

abbreviation two_clients :: "(nat \<times> free_space list) chunks \<Rightarrow> ((nat \<times> free_space list) chunks, unit, (nat \<times> layout) list, wake_state) sys" where
  "two_clients c \<equiv> \<lparr>threads = (\<lambda>t. alloc_thread dev_profile list_vec sample_alloc
       (if t = 0 then [Alloc sample_big] else if t = 1 then [Alloc sample_small, Free_block 0, Alloc sample_small] else []) []),
     asleep = (\<lambda>_. False), cell = c, shared = (), lib = \<lparr>wk_holder = None, wk_sleeping = [], wk_woken = []\<rparr>\<rparr>"

lemmas alloc_run_defs = move_in_def set_thread_def shmem_alloc_alloc_def alloc_excess_def shmem_alloc_dealloc_def mutex_lock_def
  access_exec_def guard_drop_def wake_call_def usize_mul_def usize_add_def usize_checked_sub_def rb_into_absolute_def usize_bound_def
  CHUNK_SIZE_8

lemma two_clients_run:
  "\<exists>s. run_schedule [(0, Code 0), (0, Go), (0, Code 0), (1, Code 0), (1, Go), (1, Code 0), (1, Code 0), (1, Go), (1, Code 0), (1, Code 0), (1, Go), (1, Code 0)]
      (two_clients sample_start) = Some s \<and>
    threads s 0 = Return [(4096, sample_big)] \<and> threads s 1 = Return [(4112, sample_small)]"
  by (simp add: alloc_run_defs)

lemma two_clients_start:
  "alloc_start dev_profile list_vec wake_pthread 4 sample_alloc
     (\<lambda>t. if t = 0 then [Alloc sample_big] else if t = 1 then [Alloc sample_small, Free_block 0, Alloc sample_small] else []) (two_clients sample_start)"
  by (simp add: alloc_start_def)

theorem concurrent_blocks_disjoint_witness:
  "\<exists>s. sys_reach wake_pthread (two_clients sample_start) s \<and>
    threads s 0 = Return [(4096, sample_big)] \<and> threads s 1 = Return [(4112, sample_small)] \<and>
    {4096 ..< 4096 + 12} \<inter> {4112 ..< 4112 + 8 :: nat} = {}"
proof -
  obtain s where s: "sys_reach wake_pthread (two_clients sample_start) s"
    "threads s 0 = Return [(4096, sample_big)]" "threads s 1 = Return [(4112, sample_small)]"
    using two_clients_run run_schedule_reach by blast
  note no_overlap = concurrent_blocks_disjoint [OF _ list_vec_laws _ wake_pthread_laws two_clients_start s(1), THEN conjunct2,
      rule_format, OF _ _ s(2,3), of 0 0]
  have "{4096 ..< 4096 + 12} \<inter> {4112 ..< 4112 + 8 :: nat} = {}" using no_overlap by simp
  with s show ?thesis by blast
qed

end
