(* ===== verification/Start_Up.thy ===== *)
theory Start_Up
  imports Allocator_Clients
begin

text \<open>
  The allocators that the crate's programs begin with: \<open>shmem_allocator\<close> of \<open>lib.rs\<close>, which most tests use, the one of
  \<open>examples/simple.rs\<close> and the one of \<open>benches/queue.rs\<close>. Each unwraps \<open>ShmemAlloc::new\<close> with a capacity of its own. Their free list
  satisfies the invariant from which the theorems about the allocator start.
\<close>

section \<open>\<open>unwrap\<close> on the result of a program\<close>

primrec unwrap_result :: "('d, 's, 'e + 'r) prog \<Rightarrow> ('d, 's, 'r) prog" where
  "unwrap_result (Return r) = (case r of Inl e \<Rightarrow> Panic Expect_failed | Inr x \<Rightarrow> Return x)"
| "unwrap_result (Panic q) = Panic q"
| "unwrap_result (Continue m) = Continue m"
| "unwrap_result (Loop b n) = Loop (\<lambda>m. unwrap_result (b m)) n"
| "unwrap_result (Weak k) = Weak (\<lambda>b. unwrap_result (k b))"
| "unwrap_result (Access u k) = Access u (\<lambda>d. unwrap_result (k d))"
| "unwrap_result (Exclusive u k) = Exclusive u (\<lambda>d. unwrap_result (k d))"
| "unwrap_result (Atomic u k) = Atomic u (\<lambda>s. unwrap_result (k s))"
| "unwrap_result (Pthread c k) = Pthread c (\<lambda>e. unwrap_result (k e))"
| "unwrap_result (Gettime c k) = Gettime c (\<lambda>r. unwrap_result (k r))"
| "unwrap_result (Instant_now k) = Instant_now (\<lambda>i. unwrap_result (k i))"
| "unwrap_result (Getpid k) = Getpid (\<lambda>i. unwrap_result (k i))"

definition unwrapped :: "('e + 'r) exec \<Rightarrow> 'r exec" where
  "unwrapped r = exec_bind r (\<lambda>x. case x of Inl e \<Rightarrow> Panicked Expect_failed | Inr y \<Rightarrow> Done y)"

lemma unwrap_plug: "unwrap_result (plug p q) = plug (unwrap_result p) (\<lambda>m. unwrap_result (q m))"
  by (induction p) (simp_all split: sum.split)

lemma solo_unwrap:
  "solo E p d s r d' s' \<Longrightarrow> solo E (unwrap_result p) d s (unwrapped r) d' s'"
proof (induction rule: solo.induct)
  case (3 b n d s r d' s')
  then show ?case by (simp add: solo_Loop unroll_def unwrap_plug)
qed (auto simp: unwrapped_def split: sum.split)

section \<open>The three allocators\<close>

definition shmem_allocator :: "profile \<Rightarrow> (free_space, 'v, 'e) vec_lib \<Rightarrow> 'os mman \<Rightarrow> ('os \<Rightarrow> (alloc_error + nat) \<times> 'os) \<Rightarrow>
    ('d, 'os, shmem_alloc \<times> 'v chunks mutex) prog" where
  "shmem_allocator p L M box_new_in = unwrap_result (shmem_alloc_new p L M box_new_in (1024 * 1024))"

definition simple_allocator :: "profile \<Rightarrow> (free_space, 'v, 'e) vec_lib \<Rightarrow> 'os mman \<Rightarrow> ('os \<Rightarrow> (alloc_error + nat) \<times> 'os) \<Rightarrow>
    ('d, 'os, shmem_alloc \<times> 'v chunks mutex) prog" where
  "simple_allocator p L M box_new_in = unwrap_result (shmem_alloc_new p L M box_new_in (10 * 1024 * 1024))"

definition bench_allocator :: "profile \<Rightarrow> (free_space, 'v, 'e) vec_lib \<Rightarrow> 'os mman \<Rightarrow> ('os \<Rightarrow> (alloc_error + nat) \<times> 'os) \<Rightarrow>
    ('d, 'os, shmem_alloc \<times> 'v chunks mutex) prog" where
  "bench_allocator p L M box_new_in = unwrap_result (shmem_alloc_new p L M box_new_in (ALIGNMENT * 1024))"

text \<open>The start of a program: it panics, or has an allocator of \<open>n\<close> chunks, all free.\<close>

definition starts_with :: "(free_space, 'v, 'e) vec_lib \<Rightarrow> env \<Rightarrow> nat \<Rightarrow> ('d, 'os, shmem_alloc \<times> 'v chunks mutex) prog \<Rightarrow> 'd \<Rightarrow> 'os \<Rightarrow> bool" where
  "starts_with L E n q d os \<longleftrightarrow> (\<exists>r os'. solo E q d os r d os' \<and> (r = Panicked Expect_failed \<or>
     (\<exists>a m. r = Done (a, m) \<and> memory_buffer a mod CHUNK_SIZE = 0 \<and> mutex_creator_pid m = env_pid E \<and>
        client_inv L n a \<lparr>cl_chunks = mutex_data m, cl_live = [], cl_mem = (\<lambda>_. 0)\<rparr>)))"

lemma new_starts:
  fixes L :: "(free_space, 'v, 'e) vec_lib" and d :: 'd and os :: 'os
  assumes env: "new_env_ok E" and laws: "vec_laws L" "mman_laws M" and n: "0 < n" "n * 8 + 7 < 2 ^ 63"
  shows "starts_with L E n (unwrap_result (shmem_alloc_new p L M box_new_in (n * 8))) d os"
proof -
  let ?new = "shmem_alloc_new p L M box_new_in (n * 8) :: ('d, 'os, 'e initialization_error + shmem_alloc \<times> 'v chunks mutex) prog"
  have b: "n < usize_bound" using n(2) by (simp add: usize_bound_def)
  have panics: "starts_with L E n (unwrap_result ?new) d os" if "solo E ?new d os (Done (Inl e)) d os'" for e os'
    using solo_unwrap [OF that] by (auto simp: starts_with_def unwrapped_def)
  consider (no_vec) e where "chunks_new p L n = Done (Inl e)" | (vec) c where "chunks_new p L n = Done (Inr c)"
    using chunks_new_ok [OF laws(1) n(1) b, of p] by blast
  then show ?thesis
  proof cases
    case no_vec
    then have "solo E ?new d os (Done (Inl (InternalVector n e))) d os"
      using n(1) by (simp add: shmem_alloc_new_def ALIGNMENT_def)
    then show ?thesis by (rule panics)
  next
    case vec
    note run = solo_shmem_alloc_new [OF env n vec, of M box_new_in d os]
    show ?thesis
    proof (cases "box_new_in os")
      case b: (Pair r os1)
      show ?thesis
      proof (cases r)
        case (Inl e)
        with b panics [of "InternalBuffer e" os1] show ?thesis by (simp add: run)
      next
        case (Inr ptr)
        show ?thesis
        proof (cases "memmap_alloc M \<lparr>l_size = n * 8, l_align = 8\<rparr> os1")
          case m: (Pair r' os2)
          show ?thesis
          proof (cases r')
            case (Inl e)
            with b m Inr panics [of "MemoryBuffer e" os2] show ?thesis by (simp add: run)
          next
            case i: (Inr buf)
            let ?a = "\<lparr>free_chunks_ptr = ptr, memory_buffer = buf\<rparr>" and ?m = "\<lparr>mutex_data = c, mutex_creator_pid = env_pid E\<rparr>"
            have "solo E ?new d os (Done (Inr (?a, ?m))) d os2" using b m Inr i by (simp add: run)
            from solo_unwrap [OF this] have "solo E (unwrap_result ?new) d os (Done (?a, ?m)) d os2" by (simp add: unwrapped_def)
            moreover have "buf mod CHUNK_SIZE = 0" using memmap_alloc_ok(2) [OF laws(2)] m i by (fastforce simp: CHUNK_SIZE_8)
            moreover have "client_inv L n ?a \<lparr>cl_chunks = c, cl_live = [], cl_mem = (\<lambda>_. 0)\<rparr>"
              using client_inv_start [OF laws(1) n(1) _ vec] n(2) by (simp add: usize_bound_def)
            ultimately show ?thesis by (fastforce simp: starts_with_def)
          qed
        qed
      qed
    qed
  qed
qed

text \<open>
  Whatever the operating system answers, each of the programs either panics at once or starts with all its chunks free
  (131072, 1310720 and 1024) and the invariant in force.
\<close>

theorem programs_start_well:
  assumes "new_env_ok E" "vec_laws L" "mman_laws M"
  shows "starts_with L E 131072 (shmem_allocator p L M box_new_in) d os"
    "starts_with L E 1310720 (simple_allocator p L M box_new_in) d os"
    "starts_with L E 1024 (bench_allocator p L M box_new_in) d os"
  using new_starts [OF assms, of 131072] new_starts [OF assms, of 1310720] new_starts [OF assms, of 1024]
  by (simp_all add: shmem_allocator_def simple_allocator_def bench_allocator_def ALIGNMENT_def)

end
