(* ===== verification/Spec2Isabelle.thy ===== *)
theory Spec2Isabelle
  imports Allocator_Clients Chunks_Guarantees Channel_Calls Sync_Guarantees Handle_Counting Wake_Ups Pagesize Shmem_Safe
    Unit_Tests Simple_Example Answers Scoped Double_Release Wake_Space Bench_Setup Reply_Channel Forked_Mutex Allocator_Test Allocator_Threads Start_Up
begin

text \<open>
  Verification library of the \<open>shmem-utils\<close> crate: an allocator in a memory mapping that
  several processes share, a process-shared mutex and condition variable, and a bounded channel
  built from them. Paths below are relative to the crate (\<open>src/\<close>).

  \<^bold>\<open>The program.\<close> \<open>allocator.rs\<close> maps two regions: a box that holds the list of free intervals behind
  a \<open>Mutex\<close>, and the buffer that is given out in chunks of eight bytes. \<open>allocator/chunks.rs\<close>
  searches, splits and merges the intervals (\<open>allocator/free_chunk.rs\<close>), kept sorted by size
  in a vector of fixed capacity (\<open>allocator/chunks/sorted_vec.rs\<close>). \<open>memmap.rs\<close> is the allocator over \<open>mmap\<close> that
  the first one uses. \<open>mutex.rs\<close> and \<open>condvar.rs\<close> wrap pthread, with deadlines computed by
  \<open>time.rs\<close>. \<open>channel.rs\<close> puts a deque behind a mutex with two condition variables and atomic
  counters of handles; \<open>process_rc.rs\<close> counts the handles of one process. \<open>pagesize.rs\<close> caches the
  page size and \<open>shmem_safe.rs\<close> marks the types that may cross processes. \<open>autoclean.rs\<close> is a scoped allocation that
  no build includes.

  \<^bold>\<open>How code is modelled.\<close> Code that touches nothing shared is a function; a panic, an error and a
  loop that does not end are values (\<open>exec\<close> in \<open>Prelude\<close>). The build profile (overflow checks, debug
  assertions) is an argument. Code that blocks, reads clocks or touches shared memory is a \<open>prog\<close>
  (\<open>Program\<close>), a tree of atomic interactions in continuation-passing style, so that every answer of the
  environment is a branch: \<open>Access\<close> reads and writes the value behind a mutex, \<open>Atomic\<close> the atomics,
  \<open>Pthread\<close> is a call answered by its error code. The definitions keep the names of the source, with
  the type's name in front (\<open>inner_receive\<close> is \<open>Inner::receive\<close>). Integers are unbounded where the code
  provably stays in range, with overflow written out as \<open>exec\<close> in the allocator and in \<open>time.rs\<close>, and
  64-bit words for the atomic counters.

  \<^bold>\<open>Theories.\<close>
  \<^item> \<open>Prelude\<close>: \<open>exec\<close>, profiles, machine arithmetic, shared lemmas.
  \<^item> \<open>Free_Chunk\<close>, \<open>Sorted_Vec\<close>, \<open>Chunks\<close>: the free list, as functions. \<open>Chunks_Correct\<close> abstracts it to the set of
    its free bytes and proves every operation against that; \<open>sorted_store\<close> and \<open>space_manager\<close> are the interfaces between the layers,
    interpreted on the code. \<open>Chunks_Guarantees\<close> states the properties.
  \<^item> \<open>Memmap\<close>, \<open>Allocator\<close>: mapping and the public allocator. \<open>Allocator_Correct\<close> gives each call, run
    alone, a reference function, and the invariant that every chunk has one owner; \<open>Allocator_Clients\<close> states what a client is promised that allocates,
    releases and writes in any order, one call after the other; \<open>Allocator_Threads\<close> carries the invariant over to any number of threads in any interleaving.
    \<open>Sample_Run\<close> is a concrete run.
  \<^item> \<open>Program\<close>, \<open>Interleaving\<close>: programs, the thread logic \<open>safe\<close> (a contract for each thread: a resource invariant of the protected value and one of the atomics, which
    all threads share, every change of the value an event, what histories and failures are allowed), and the soundness theorem: in every
    reachable state of the interleaved system one order of all events explains the value and every finished thread's result. \<open>Schedules\<close> executes a given schedule, with a lawful pthread.
  \<^item> \<open>Unix_Time\<close>, \<open>Mutex\<close>, \<open>Condvar\<close>, \<open>Process_Rc\<close>: deadlines, locks, waits and the counter of handles;
    \<open>Sync_Guarantees\<close> states their properties.
  \<^item> \<open>Channel\<close>: every operation of \<open>Channel\<close>, \<open>Sender\<close>, \<open>Receiver\<close> and \<open>Inner\<close>. \<open>Channel_Correct\<close> shows that each
    operation causes exactly the pushes and pops its answer stands for; \<open>Channel_Guarantees\<close> has the results for all interleavings and
    the runs that break; \<open>Channel_Calls\<close> has decision tables of single calls and the destructor; \<open>Handle_Counting\<close> the concurrent
    drops of handles.
  \<^item> \<open>Wake_Accounts\<close>: a second thread logic, which keeps a balance of a measure of the queue and wake-ups, with its soundness theorem.
    \<open>Wake_Ups\<close> applies it to items: senders and receivers leave no item behind, \<open>wait_for_message\<close> can. \<open>Wake_Space\<close> applies it to
    free places: while there is a receiver, no sender sleeps beside a free place.
  \<^item> \<open>Observations\<close>: a third judgement, over the observations of a thread on runs that respect the lock, with its connection to the
    interleaved system; \<open>Answers\<close> traces every error of the channel's waiting operations back to what the thread has seen.
  \<^item> \<open>Network\<close>: threads that use several such objects, each with a mutex of its own, one after the other. The locale
    \<open>network_proof\<close> reduces a network to \<open>safe\<close> judgements of the segments of each thread on one object; its soundness theorem
    puts the objects together. It is interpreted on the two programs of the repository that use two channels, below.
  \<^item> \<open>Pagesize\<close>, \<open>Shmem_Safe\<close>: the cached page size and the marker trait. \<open>Scoped\<close>: \<open>autoclean.rs\<close> over any allocator
    (the locale \<open>block_source\<close>, interpreted on \<open>MemmapAlloc\<close>).
  \<^item> The programs that use the crate: \<open>Start_Up\<close> has the allocators they begin with; \<open>Unit_Tests\<close> has the sequential tests of the free list, the randomised one included, as
    functions of the drawn numbers; \<open>Counter_Tests\<close> the tests of \<open>mutex.rs\<close> and \<open>condvar.rs\<close> as two threads or processes around a
    counter, and which of their assertions no interleaving breaks; \<open>Simple_Example\<close> the two processes of \<open>examples/simple.rs\<close>;
    \<open>Ping_Pong\<close> client and server of \<open>benches/queue.rs\<close>, between which at most one message is ever under way, and \<open>Bench_Setup\<close> how \<open>bench\<close>
    prepares their channels; \<open>Reply_Channel\<close> the test \<open>check\<close> of \<open>channel.rs\<close>, which sends the sender of one channel over another;
    \<open>Forked_Mutex\<close> the test \<open>check_fork\<close> of \<open>condvar.rs\<close>, once as if its mutex were shared and once with the mutex of each process, where it
    can hang; \<open>Allocator_Test\<close> the test \<open>check\<close> of \<open>allocator.rs\<close>, which depends on the alignment of a type;
    \<open>Double_Release\<close> what happens when a block is released by the parent and by its forked child, as the tests do.

  \<^bold>\<open>Parameters and what is assumed of them.\<close> The third-party vector and its binary searches (\<open>vec_laws\<close>), the deque
  (\<open>deque_laws\<close>, and \<open>capacity_laws\<close> in \<open>Wake_Space\<close>), \<open>mmap\<close> and \<open>munmap\<close>, the boxed allocation and \<open>sysconf\<close> are arguments. Of pthread only the holder of the
  mutex is specified (\<open>pthread_laws\<close>): wake-ups may be spurious or missing, calls may fail at any time. Each law has
  an instance (\<open>list_vec\<close>, \<open>list_deque\<close>, \<open>wake_pthread\<close>), on which the witnesses evaluate. Clocks, process ids and
  weak exchanges answer arbitrarily. The statements about sleeping threads are made for \<open>wake_pthread\<close>, which has no spurious
  wake-ups and wakes one sleeper or all on a signal, as POSIX leaves open.

  \<^bold>\<open>Loops.\<close> The merging loop is a \<open>partial_function\<close> and is proved to return. The other loops are \<open>Loop\<close> nodes
  without a bound, since they wait for other threads; no fuel is used anywhere. \<open>try_send\<close> and \<open>try_receive\<close> have no loop
  and are bounded in steps.

  \<^bold>\<open>Bounds of the model.\<close> Atomics are sequentially consistent, as the code orders them (the two relaxed
  orderings of the exchange loop concern its own retry only). Deallocation by the operating system at the exit of a process, signals,
  and the unwinding of several panics at once are left out, as are the destructors of the parts built so far when a
  constructor panics. A thread's destructor order follows the source.

  \<^bold>\<open>Not modelled.\<close> \<open>lib.rs\<close> has, beside the allocator of the tests, the text of an error code and the logging set-up, and \<open>main.rs\<close> does nothing; logging is
  skipped. Sleeps have no effect in the programs: any thread may be delayed anywhere. Of the tests: \<open>populate_vector\<close> of \<open>allocator.rs\<close> fills a
  third-party vector; \<open>check_drop\<close> of \<open>mutex.rs\<close> destroys the mutex at its end, which the thread logic does not allow; \<open>check\<close> of
  \<open>time.rs\<close> measures the machine's clock. Of \<open>benches/queue.rs\<close> the measurement, the random
  numbers and the end are left out, where the client's handles are dropped and the server joined. \<open>examples/fork-condvar.rs\<close> demonstrates another crate. The thread theorems about tests begin
  after the objects have been created and end before they are destroyed.
\<close>

end
